(* ===== verification/Prelude.thy ===== *)
theory Prelude
  imports Main "HOL-Library.Word" "HOL-Library.AList"
begin

unbundle bit_operations_syntax

text \<open>
  Types, the result type and the automation that every component shares.

  Go's machine integers are words of their width: \<open>uint64\<close> is \<open>u64\<close>, \<open>int64\<close> is
  \<open>i64\<close> (the same 64 bits, read with \<open>sint\<close>), a \<open>byte\<close> is an \<open>8 word\<close>. A Go string is a
  sequence of bytes, here a HOL \<open>string\<close>, whose characters are bytes too. A \<open>chain.Hash\<close>
  (\<open>[32]byte\<close>) is a \<open>256 word\<close>, its first byte the most significant one. A slice that may be
  nil is an \<open>option\<close>. A Go map that the code iterates over or measures is an association list
  with distinct keys (\<open>map_of\<close>, \<open>AList.update\<close>, \<open>AList.delete\<close>), another one is a HOL map.

  A Go function that can panic returns a \<open>run\<close>: \<open>Ret\<close> is a normal return, \<open>Panic\<close> a run-time
  panic (nothing in the repository recovers, so the process dies), and \<open>Diverge\<close> a loop that
  does not return. A Go error return is a value: \<open>None\<close> is nil.
\<close>

type_synonym byte = "8 word"
type_synonym bytes = "8 word list"
type_synonym u32 = "32 word"
type_synonym u64 = "64 word"
type_synonym i64 = "64 word"
type_synonym hash = "256 word"

named_theorems run_simps \<open>equations that evaluate a run\<close>
named_theorems go_defs \<open>definitions to unfold when a closed instance is evaluated\<close>

subsection \<open>Runs\<close>

datatype 'a run = Ret 'a | Panic | Diverge

definition run_bind :: "'a run \<Rightarrow> ('a \<Rightarrow> 'b run) \<Rightarrow> 'b run" where
  "run_bind m f = (case m of Ret x \<Rightarrow> f x | Panic \<Rightarrow> Panic | Diverge \<Rightarrow> Diverge)"

lemma run_bind_simps [simp, run_simps]:
  "run_bind (Ret x) f = f x"
  "run_bind Panic f = Panic"
  "run_bind Diverge f = Diverge"
  by (simp_all add: run_bind_def)

lemma run_bind_assoc [run_simps]: "run_bind (run_bind m f) g = run_bind m (\<lambda>x. run_bind (f x) g)"
  by (cases m) simp_all

lemma run_bind_eq_Ret: "run_bind m f = Ret y \<longleftrightarrow> (\<exists>x. m = Ret x \<and> f x = Ret y)"
  by (cases m) simp_all

lemma run_bind_cong [fundef_cong]:
  "m = m' \<Longrightarrow> (\<And>x. m' = Ret x \<Longrightarrow> f x = f' x) \<Longrightarrow> run_bind m f = run_bind m' f'"
  by (cases m') simp_all

definition returns :: "'a run \<Rightarrow> bool" where
  "returns m \<longleftrightarrow> (\<exists>x. m = Ret x)"

lemma returns_simps [simp]: "returns (Ret x)" "\<not> returns Panic" "\<not> returns Diverge"
  by (simp_all add: returns_def)

lemma returnsE: "returns m \<Longrightarrow> (\<And>x. m = Ret x \<Longrightarrow> P) \<Longrightarrow> P"
  by (auto simp: returns_def)

lemma returns_bind: "returns m \<Longrightarrow> (\<And>x. m = Ret x \<Longrightarrow> returns (f x)) \<Longrightarrow> returns (run_bind m f)"
  by (cases m) simp_all

text \<open>A loop given as a partial function: no result is no return.\<close>

definition run_of_option :: "'a option \<Rightarrow> 'a run" where
  "run_of_option o' = (case o' of None \<Rightarrow> Diverge | Some x \<Rightarrow> Ret x)"

lemma run_of_option_simps [simp, run_simps]:
  "run_of_option None = Diverge" "run_of_option (Some x) = Ret x"
  by (simp_all add: run_of_option_def)

text \<open>Reading through pointers: a nil pointer panics.\<close>

definition deref :: "'a option \<Rightarrow> 'a run" where
  "deref p = (case p of None \<Rightarrow> Panic | Some x \<Rightarrow> Ret x)"

lemma deref_simps [simp, run_simps]: "deref None = Panic" "deref (Some x) = Ret x"
  by (simp_all add: deref_def)

fun deref_all :: "'a option list \<Rightarrow> 'a list run" where
  "deref_all [] = Ret []"
| "deref_all (p # ps) = run_bind (deref p) (\<lambda>x. run_bind (deref_all ps) (\<lambda>xs. Ret (x # xs)))"

lemma deref_all_map_Some [simp]: "deref_all (map Some xs) = Ret xs"
  by (induction xs) simp_all

lemma deref_all_eq_Ret: "deref_all ps = Ret xs \<longleftrightarrow> ps = map Some xs"
proof (induction ps arbitrary: xs)
  case (Cons p ps)
  then show ?case by (cases p; cases xs) (auto simp: run_bind_eq_Ret)
qed auto

lemma deref_all_append:
  "deref_all (ps @ qs) = run_bind (deref_all ps) (\<lambda>xs. run_bind (deref_all qs) (\<lambda>ys. Ret (xs @ ys)))"
proof (induction ps)
  case Nil
  show ?case by (cases "deref_all qs") simp_all
next
  case (Cons p ps)
  then show ?case by (cases p; simp add: run_bind_assoc)
qed

subsection \<open>Bytes of a word\<close>

text \<open>\<open>binary.LittleEndian.PutUintN\<close> and \<open>binary.BigEndian.PutUintN\<close>, and Go's \<open>[]byte(s)\<close>.\<close>

definition le_bytes :: "nat \<Rightarrow> 'a::len word \<Rightarrow> bytes" where
  "le_bytes n w = map (\<lambda>i. ucast (drop_bit (8 * i) w)) [0..<n]"

definition be_bytes :: "nat \<Rightarrow> 'a::len word \<Rightarrow> bytes" where
  "be_bytes n w = rev (le_bytes n w)"

definition string_bytes :: "string \<Rightarrow> bytes" where
  "string_bytes s = map of_char s"

definition hash_bytes :: "hash \<Rightarrow> bytes" where
  "hash_bytes h = be_bytes 32 h"

lemma length_le_bytes [simp]: "length (le_bytes n w) = n"
  by (simp add: le_bytes_def)

lemma length_be_bytes [simp]: "length (be_bytes n w) = n"
  by (simp add: be_bytes_def)

lemma length_string_bytes [simp]: "length (string_bytes s) = length s"
  by (simp add: string_bytes_def)

lemma length_hash_bytes [simp]: "length (hash_bytes h) = 32"
  by (simp add: hash_bytes_def)

lemma nth_le_bytes [simp]: "i < n \<Longrightarrow> le_bytes n w ! i = ucast (drop_bit (8 * i) w)"
  by (simp add: le_bytes_def)

lemma nth_be_bytes [simp]: "i < n \<Longrightarrow> be_bytes n w ! i = ucast (drop_bit (8 * (n - Suc i)) w)"
  by (simp add: be_bytes_def rev_nth)

text \<open>The bytes of a word determine it.\<close>

lemma le_bytes_inject:
  fixes v w :: "'a::len word"
  assumes "LENGTH('a) \<le> 8 * n" and "le_bytes n v = le_bytes n w"
  shows "v = w"
proof (rule bit_word_eqI)
  fix k
  assume k: "k < LENGTH('a)"
  then have i: "k div 8 < n" using assms(1) by simp
  have "le_bytes n v ! (k div 8) = le_bytes n w ! (k div 8)" using assms(2) by simp
  then have eq: "(ucast (drop_bit (8 * (k div 8)) v) :: byte) = ucast (drop_bit (8 * (k div 8)) w)"
    using i by simp
  have "bit (ucast (drop_bit (8 * (k div 8)) x) :: byte) (k mod 8) = bit x k" for x :: "'a word"
    by (simp add: bit_simps)
  then show "bit v k = bit w k" using eq by metis
qed

lemma be_bytes_inject:
  fixes v w :: "'a::len word"
  assumes "LENGTH('a) \<le> 8 * n" and "be_bytes n v = be_bytes n w"
  shows "v = w"
  using assms le_bytes_inject by (simp add: be_bytes_def)

lemma hash_bytes_inject [simp]: "hash_bytes a = hash_bytes b \<longleftrightarrow> a = b"
  using be_bytes_inject[where 'a = 256 and n = 32] by (auto simp: hash_bytes_def)

lemma of_char_less_256: "(of_char c :: nat) < 256"
  using mod_less_divisor[of 256 "of_char c :: nat"] by (simp del: mod_less_divisor)

lemma unat_of_char_byte: "unat (of_char c :: byte) = of_char c"
proof -
  have "unat (of_nat (of_char c) :: byte) = of_char c"
    using of_char_less_256[of c] by (simp add: unat_of_nat)
  then show ?thesis by (simp add: of_nat_of_char)
qed

lemma of_char_byte_inject: "(of_char c :: byte) = of_char d \<longleftrightarrow> c = d"
  by (metis unat_of_char_byte of_char_eqI)

lemma string_bytes_inject [simp]: "string_bytes s = string_bytes t \<longleftrightarrow> s = t"
  by (auto simp: string_bytes_def of_char_byte_inject inj_map_eq_map inj_on_def)

lemma string_bytes_append [simp]: "string_bytes (s @ t) = string_bytes s @ string_bytes t"
  by (simp add: string_bytes_def)

subsection \<open>Association lists with distinct keys\<close>

definition keys_ok :: "('k \<times> 'v) list \<Rightarrow> bool" where
  "keys_ok m \<longleftrightarrow> distinct (map fst m)"

lemma keys_ok_Nil [simp]: "keys_ok []"
  by (simp add: keys_ok_def)

lemma keys_ok_update [simp]: "keys_ok m \<Longrightarrow> keys_ok (AList.update k v m)"
  by (simp add: keys_ok_def distinct_update)

lemma keys_ok_delete [simp]: "keys_ok m \<Longrightarrow> keys_ok (AList.delete k m)"
  by (simp add: keys_ok_def distinct_delete)

lemma keys_ok_mem_iff: "keys_ok m \<Longrightarrow> (k, v) \<in> set m \<longleftrightarrow> map_of m k = Some v"
  by (auto simp: keys_ok_def)

lemma map_of_update [simp]: "map_of (AList.update k v m) = (map_of m)(k \<mapsto> v)"
  by (rule update_conv')

lemma map_of_delete [simp]: "map_of (AList.delete k m) = (map_of m)(k := None)"
  by (rule delete_conv')

end
