(* ===== verification/NetAddr.thy ===== *)
theory NetAddr
  imports Prelude
begin

text \<open>
  Network addresses as \<open>internal/p2p\<close> reads them: \<open>net.SplitHostPort\<close>, \<open>net.ParseIP\<close> and the tests on
  IP addresses of the standard library, and the three helpers \<open>hostOf\<close>, \<open>isUnspecifiedAddr\<close> and
  \<open>isPublicDialable\<close> made of them. An error of the library is \<open>None\<close>, an IP address its 16 bytes.
\<close>

subsection \<open>Host and port\<close>

fun index_of :: "char \<Rightarrow> string \<Rightarrow> nat option" where
  "index_of c [] = None"
| "index_of c (x # xs) = (if x = c then Some 0 else map_option Suc (index_of c xs))"

definition last_index_of :: "char \<Rightarrow> string \<Rightarrow> nat option" where
  "last_index_of c s = map_option (\<lambda>i. length s - 1 - i) (index_of c (rev s))"

definition SplitHostPort :: "string \<Rightarrow> (string \<times> string) option" where
  "SplitHostPort hp = (case last_index_of (CHR '':'') hp of None \<Rightarrow> None | Some i \<Rightarrow>
     let port = drop (Suc i) hp in
     if hd hp = CHR ''['' then
       (case index_of (CHR '']'') hp of None \<Rightarrow> None | Some e \<Rightarrow>
          if Suc e \<noteq> i then None
          else if List.member (drop 1 hp) (CHR ''['') \<or> List.member (drop (Suc e) hp) (CHR '']'') then None
          else Some (take (e - 1) (drop 1 hp), port))
     else if List.member (take i hp) (CHR '':'') then None
     else if List.member hp (CHR ''['') \<or> List.member hp (CHR '']'') then None
     else Some (take i hp, port))"

subsection \<open>IP addresses\<close>

definition dec_digit :: "char \<Rightarrow> bool" where
  "dec_digit c \<longleftrightarrow> (let k = of_char c :: nat in 48 \<le> k \<and> k \<le> 57)"

definition hex_value :: "char \<Rightarrow> nat option" where
  "hex_value c = (let k = of_char c :: nat in
     if 48 \<le> k \<and> k \<le> 57 then Some (k - 48)
     else if 97 \<le> k \<and> k \<le> 102 then Some (k - 87)
     else if 65 \<le> k \<and> k \<le> 70 then Some (k - 55) else None)"

definition dec_number :: "string \<Rightarrow> nat" where
  "dec_number = foldl (\<lambda>v c. v * 10 + (of_char c - 48)) 0"

definition hex_number :: "string \<Rightarrow> nat" where
  "hex_number = foldl (\<lambda>v c. v * 16 + the (hex_value c)) 0"

text \<open>The fields between the dots.\<close>

fun split_dots :: "string \<Rightarrow> string list" where
  "split_dots [] = [[]]"
| "split_dots (c # cs) = (if c = CHR ''.'' then [] # split_dots cs
     else case split_dots cs of f # fs \<Rightarrow> (c # f) # fs | [] \<Rightarrow> [[c]])"

definition octet_ok :: "string \<Rightarrow> bool" where
  "octet_ok f \<longleftrightarrow> f \<noteq> [] \<and> list_all dec_digit f \<and> (hd f = CHR ''0'' \<longrightarrow> length f = 1) \<and> dec_number f \<le> 255"

definition parse_v4 :: "string \<Rightarrow> nat list option" where
  "parse_v4 s = (let fs = split_dots s in
     if length fs = 4 \<and> list_all octet_ok fs then Some (map dec_number fs) else None)"

text \<open>
  The loop of the IPv6 parser: at most \<open>k\<close> more groups, the bytes so far, where the ellipsis was,
  what is left of the string. A dotted tail stands for the last four bytes.
\<close>

primrec v6_loop :: "nat \<Rightarrow> nat list \<Rightarrow> nat option \<Rightarrow> string \<Rightarrow> (nat list \<times> nat option \<times> string) option" where
  "v6_loop 0 ip ell s = Some (ip, ell, s)"
| "v6_loop (Suc k) ip ell s = (let
     digits = takeWhile (\<lambda>c. hex_value c \<noteq> None) s; off = length digits
   in if off = 0 \<or> off > 4 then None
   else if off < length s \<and> s ! off = CHR ''.'' then
     (if (ell = None \<and> length ip \<noteq> 12) \<or> length ip + 4 > 16 then None
      else case parse_v4 s of None \<Rightarrow> None | Some f \<Rightarrow> Some (ip @ f, ell, []))
   else let ip = ip @ [hex_number digits div 256, hex_number digits mod 256]; s = drop off s in
     if s = [] then Some (ip, ell, [])
     else if hd s \<noteq> CHR '':'' \<or> length s = 1 then None
     else let s = tl s in
       if hd s \<noteq> CHR '':'' then v6_loop k ip ell s
       else if ell \<noteq> None then None
       else let s = tl s in if s = [] then Some (ip, Some (length ip), []) else v6_loop k ip (Some (length ip)) s)"

definition parse_v6 :: "string \<Rightarrow> nat list option" where
  "parse_v6 s = (
     if s = ''::'' then Some (replicate 16 0)
     else case (if take 2 s = ''::'' then v6_loop 8 [] (Some 0) (drop 2 s) else v6_loop 8 [] None s) of
       None \<Rightarrow> None
     | Some (ip, ell, rest) \<Rightarrow>
         if rest \<noteq> [] then None
         else if length ip < 16 then (case ell of None \<Rightarrow> None
           | Some e \<Rightarrow> Some (take e ip @ replicate (16 - length ip) 0 @ drop e ip))
         else if ell \<noteq> None then None else Some ip)"

text \<open>
  \<open>ParseIP\<close>: the first of \<open>.\<close>, \<open>:\<close> and \<open>%\<close> decides. An address with a zone is never accepted.
\<close>

definition ParseIP :: "string \<Rightarrow> nat list option" where
  "ParseIP s = (if List.member s (CHR ''%'') then None
     else case find (\<lambda>c. c = CHR ''.'' \<or> c = CHR '':'') s of
       None \<Rightarrow> None
     | Some c \<Rightarrow> if c = CHR ''.'' then map_option (\<lambda>f. replicate 10 0 @ [255, 255] @ f) (parse_v4 s)
                 else parse_v6 s)"

definition To4 :: "nat list \<Rightarrow> nat list option" where
  "To4 ip = (if take 12 ip = replicate 10 0 @ [255, 255] then Some (drop 12 ip) else None)"

definition IsUnspecified :: "nat list \<Rightarrow> bool" where
  "IsUnspecified ip \<longleftrightarrow> To4 ip = Some [0, 0, 0, 0] \<or> ip = replicate 16 0"

definition IsLoopback :: "nat list \<Rightarrow> bool" where
  "IsLoopback ip = (case To4 ip of Some f \<Rightarrow> f ! 0 = 127 | None \<Rightarrow> ip = replicate 15 0 @ [1])"

definition IsPrivate :: "nat list \<Rightarrow> bool" where
  "IsPrivate ip = (case To4 ip of
     Some f \<Rightarrow> f ! 0 = 10 \<or> (f ! 0 = 172 \<and> f ! 1 div 16 = 1) \<or> (f ! 0 = 192 \<and> f ! 1 = 168)
   | None \<Rightarrow> ip ! 0 div 2 = 126)"

definition IsLinkLocalUnicast :: "nat list \<Rightarrow> bool" where
  "IsLinkLocalUnicast ip = (case To4 ip of Some f \<Rightarrow> f ! 0 = 169 \<and> f ! 1 = 254
   | None \<Rightarrow> ip ! 0 = 254 \<and> ip ! 1 div 64 = 2)"

definition IsMulticast :: "nat list \<Rightarrow> bool" where
  "IsMulticast ip = (case To4 ip of Some f \<Rightarrow> f ! 0 div 16 = 14 | None \<Rightarrow> ip ! 0 = 255)"

subsection \<open>The helpers\<close>

definition hostOf :: "string \<Rightarrow> string" where
  "hostOf addr = (case SplitHostPort addr of None \<Rightarrow> '''' | Some (host, port) \<Rightarrow> host)"

definition isUnspecifiedAddr :: "string \<Rightarrow> bool" where
  "isUnspecifiedAddr addr = (let host = hostOf addr in
     if host = '''' then True
     else case ParseIP host of None \<Rightarrow> False | Some ip \<Rightarrow> IsUnspecified ip)"

definition isPublicDialable :: "string \<Rightarrow> bool" where
  "isPublicDialable addr = (let host = hostOf addr in
     if host = '''' then False
     else case ParseIP host of None \<Rightarrow> True
     | Some ip \<Rightarrow> \<not> IsUnspecified ip \<and> \<not> IsLoopback ip \<and> \<not> IsPrivate ip \<and> \<not> IsLinkLocalUnicast ip \<and> \<not> IsMulticast ip)"

subsection \<open>Facts\<close>

text \<open>A publicly dialable address is never one \<open>AddKnown\<close> refuses as unspecified.\<close>

lemma public_not_unspecified: "isPublicDialable addr \<Longrightarrow> \<not> isUnspecifiedAddr addr"
  by (auto simp: isPublicDialable_def isUnspecifiedAddr_def Let_def split: option.splits if_splits)

lemmas address_defs = isPublicDialable_def isUnspecifiedAddr_def hostOf_def SplitHostPort_def last_index_of_def
  ParseIP_def parse_v4_def parse_v6_def octet_ok_def dec_digit_def hex_value_def dec_number_def hex_number_def
  IsUnspecified_def IsLoopback_def IsPrivate_def IsLinkLocalUnicast_def IsMulticast_def To4_def

text \<open>The forms the documentation and the tests use.\<close>

lemma zeros:
  "replicate 10 (0 :: nat) = [0, 0, 0, 0, 0, 0, 0, 0, 0, 0]"
  "replicate 15 (0 :: nat) = [0, 0, 0, 0, 0, 0, 0, 0, 0, 0, 0, 0, 0, 0, 0]"
  "replicate 16 (0 :: nat) = [0, 0, 0, 0, 0, 0, 0, 0, 0, 0, 0, 0, 0, 0, 0, 0]"
  by (simp_all add: numeral_nat)

lemma v4_forms:
  "ParseIP ''0.0.0.0'' = Some (replicate 10 0 @ [255, 255, 0, 0, 0, 0])"
  "ParseIP ''192.168.1.5'' = Some (replicate 10 0 @ [255, 255, 192, 168, 1, 5])"
  "ParseIP ''8.8.8.8'' = Some (replicate 10 0 @ [255, 255, 8, 8, 8, 8])"
  "ParseIP ''08.8.8.8'' = None"
  by (simp_all add: ParseIP_def parse_v4_def octet_ok_def dec_digit_def dec_number_def)

lemma host_forms:
  "hostOf '':7007'' = ''''" "hostOf ''0.0.0.0:7007'' = ''0.0.0.0''" "hostOf ''[::]:7007'' = ''::''"
  "hostOf ''192.168.1.5:7007'' = ''192.168.1.5''" "hostOf ''8.8.8.8:7007'' = ''8.8.8.8''" "hostOf ''::1:80'' = ''''"
  by (simp_all add: hostOf_def SplitHostPort_def last_index_of_def)

lemma address_forms:
  "isUnspecifiedAddr '':7007''" "isUnspecifiedAddr ''0.0.0.0:7007''" "isUnspecifiedAddr ''[::]:7007''"
  "\<not> isUnspecifiedAddr ''192.168.1.5:7007''" "\<not> isPublicDialable ''192.168.1.5:7007''" "isPublicDialable ''8.8.8.8:7007''"
  by (simp_all add: isUnspecifiedAddr_def isPublicDialable_def host_forms v4_forms ParseIP_def[of "''::''"] parse_v6_def
      IsUnspecified_def IsLoopback_def IsPrivate_def IsLinkLocalUnicast_def IsMulticast_def To4_def zeros)

end
