(* ===== verification/Switch.thy ===== *)
theory Switch
  imports NetAddr
begin

text \<open>
  The peer-to-peer switch, \<open>internal/p2p/p2p.go\<close>: the address book, the table of peers, and what a
  connection does with each frame it reads - the handshake first, then the dispatch. Connections
  are goroutines; every one of their steps takes the switch's mutex, and the runs of the switch
  interleave them in any order. Sockets, timers and callbacks are events of a log.
\<close>

subsection \<open>State\<close>

definition ProtocolVersion :: int where "ProtocolVersion = 2"

record version =
  v_Protocol :: int
  v_ListenAddr :: string
  v_Height :: u64
  v_Nonce :: u64

text \<open>
  A frame: its type, and its payload read as a version message and as a list of addresses
  (\<open>None\<close> where \<open>json.Unmarshal\<close> fails).
\<close>

record frame =
  f_Type :: string
  f_version :: "version option"
  f_addrs :: "string list option"

text \<open>\<open>Peer\<close>; \<open>l_id\<close> is the identity of the pointer and of its connection.\<close>

record link =
  l_id :: nat
  l_Dial :: string
  l_Advert :: string
  l_Nonce :: u64
  l_Height :: u64
  l_handshook :: bool

datatype sw_event =
    SentVersion nat version | Connected nat | Disconnected nat | Dispatched nat frame
  | ConnClosed nat | Persisted "string list"

record switch =
  sw_Listen :: string
  sw_Advertise :: string
  sw_Nonce :: u64
  sw_MaxPeers :: int
  sw_peers :: "(string \<times> link) list"
  sw_known :: "string list"
  sw_ln :: "string option"
  sw_closed :: bool
  sw_persist :: bool
  sw_log :: "sw_event list"

definition log_event :: "sw_event \<Rightarrow> switch \<Rightarrow> switch" where
  "log_event ev s = s\<lparr>sw_log := sw_log s @ [ev]\<rparr>"

subsection \<open>Creation\<close>

text \<open>Eight random bytes, or the clock when there are none; never zero.\<close>

definition newNonce :: "bytes option \<Rightarrow> u64 \<Rightarrow> u64" where
  "newNonce random clock = (case random of
     None \<Rightarrow> if clock = 0 then 1 else clock
   | Some b \<Rightarrow> let n = word_rcat (rev b) in if n = 0 then 1 else n)"

fun add_seeds :: "string \<Rightarrow> string \<Rightarrow> string list \<Rightarrow> string list \<Rightarrow> string list" where
  "add_seeds listen advertise [] known = known"
| "add_seeds listen advertise (seed # seeds) known = add_seeds listen advertise seeds
     (if seed = '''' \<or> seed = listen \<or> seed = advertise then known else List.insert seed known)"

definition switch_New :: "string \<Rightarrow> string \<Rightarrow> string list \<Rightarrow> u64 \<Rightarrow> switch" where
  "switch_New listen advertise seeds nonce = (let advertise = (if advertise = '''' then listen else advertise) in
     \<lparr> sw_Listen = listen, sw_Advertise = advertise, sw_Nonce = nonce, sw_MaxPeers = 32, sw_peers = [],
       sw_known = add_seeds listen advertise seeds [], sw_ln = None, sw_closed = False, sw_persist = False, sw_log = [] \<rparr>)"

text \<open>\<open>Start\<close>; the argument is the address the listener got, \<open>None\<close> when listening failed.\<close>

definition switch_Start :: "string option \<Rightarrow> switch \<Rightarrow> switch option" where
  "switch_Start ln s = (case ln of None \<Rightarrow> None | Some a \<Rightarrow>
     Some (s\<lparr>sw_Advertise := (if sw_Advertise s = sw_Listen s then a else sw_Advertise s), sw_ln := Some a\<rparr>))"

definition switch_Addr :: "switch \<Rightarrow> string" where
  "switch_Addr s = (case sw_ln s of None \<Rightarrow> sw_Listen s | Some a \<Rightarrow> a)"

subsection \<open>The address book\<close>

definition AddKnown :: "string \<Rightarrow> switch \<Rightarrow> bool \<times> switch" where
  "AddKnown addr s =
     (if addr = '''' \<or> sw_closed s then (False, s)
      else if isUnspecifiedAddr addr then (False, s)
      else if addr = sw_Advertise s \<or> addr = sw_Listen s then (False, s)
      else if sw_ln s = Some addr then (False, s)
      else if List.member (sw_known s) addr then (False, s)
      else (True, s\<lparr>sw_known := sw_known s @ [addr]\<rparr>))"

definition KnownAddrs :: "switch \<Rightarrow> string list" where
  "KnownAddrs s = sw_known s"

definition persistPeers :: "switch \<Rightarrow> switch" where
  "persistPeers s = (if sw_persist s then log_event (Persisted (KnownAddrs s)) s else s)"

definition addKnownFromPeer :: "string \<Rightarrow> switch \<Rightarrow> switch" where
  "addKnownFromPeer advert s = (case AddKnown advert s of (added, s) \<Rightarrow> if added then persistPeers s else s)"

fun add_all :: "string list \<Rightarrow> bool \<Rightarrow> switch \<Rightarrow> bool \<times> switch" where
  "add_all [] added s = (added, s)"
| "add_all (a # as) added s = (case AddKnown a s of (ok, s) \<Rightarrow> add_all as (added \<or> ok) s)"

definition handlePeersMsg :: "frame \<Rightarrow> switch \<Rightarrow> switch" where
  "handlePeersMsg fr s = (case f_addrs fr of None \<Rightarrow> s
   | Some addrs \<Rightarrow> (case add_all addrs False s of (added, s) \<Rightarrow> if added then persistPeers s else s))"

subsection \<open>The table of peers\<close>

definition PeerCount :: "switch \<Rightarrow> nat" where
  "PeerCount s = length (sw_peers s)"

definition full :: "switch \<Rightarrow> bool" where
  "full s \<longleftrightarrow> int (length (sw_peers s)) \<ge> sw_MaxPeers s"

definition isSelfAddr :: "string \<Rightarrow> switch \<Rightarrow> bool" where
  "isSelfAddr addr s \<longleftrightarrow> addr = sw_Advertise s \<or> addr = sw_Listen s \<or> sw_ln s = Some addr"

definition isSelf :: "version \<Rightarrow> switch \<Rightarrow> bool" where
  "isSelf v s = (if v_Nonce v \<noteq> 0 then v_Nonce v = sw_Nonce s else isSelfAddr (v_ListenAddr v) s)"

definition register :: "link \<Rightarrow> switch \<Rightarrow> bool \<times> switch" where
  "register p s =
     (if sw_closed s then (False, s)
      else if (if l_Nonce p \<noteq> 0 then list_ex (\<lambda>(d, q). l_Nonce q = l_Nonce p) (sw_peers s)
               else l_Advert p \<noteq> '''' \<and> isPublicDialable (l_Advert p)
                    \<and> list_ex (\<lambda>(d, q). l_Advert q = l_Advert p) (sw_peers s)) then (False, s)
      else if map_of (sw_peers s) (l_Dial p) \<noteq> None then (False, s)
      else (True, s\<lparr>sw_peers := AList.update (l_Dial p) p (sw_peers s)\<rparr>))"

text \<open>Only the connection that is in the table takes its entry out.\<close>

definition dropPeer :: "link \<Rightarrow> switch \<Rightarrow> switch" where
  "dropPeer p s = (let
     s = log_event (ConnClosed (l_id p)) s;
     had = (case map_of (sw_peers s) (l_Dial p) of None \<Rightarrow> False | Some q \<Rightarrow> l_id q = l_id p)
   in if had then log_event (Disconnected (l_id p)) (s\<lparr>sw_peers := AList.delete (l_Dial p) (sw_peers s)\<rparr>) else s)"

definition Stop_switch :: "switch \<Rightarrow> switch" where
  "Stop_switch s = (if sw_closed s then s
     else s\<lparr>sw_closed := True, sw_log := sw_log s @ map (\<lambda>(d, p). ConnClosed (l_id p)) (sw_peers s)\<rparr>)"

text \<open>The peers a broadcast is sent to.\<close>

definition broadcast_to :: "string \<Rightarrow> switch \<Rightarrow> link list" where
  "broadcast_to exceptDial s = filter (\<lambda>p. \<not> (l_Dial p = exceptDial \<or> \<not> l_handshook p)) (map snd (sw_peers s))"

fun best_height :: "link list \<Rightarrow> u64 \<Rightarrow> link option \<Rightarrow> u64 \<times> link option" where
  "best_height [] h best = (h, best)"
| "best_height (p # ps) h best = (if \<not> l_handshook p then best_height ps h best
     else if l_Height p > h then best_height ps (l_Height p) (Some p) else best_height ps h best)"

definition BestPeerHeight :: "switch \<Rightarrow> u64 \<times> link option" where
  "BestPeerHeight s = best_height (map snd (sw_peers s)) 0 None"

text \<open>The addresses a pass of the dial loop tries, before they are shuffled, and those the peers loop sends.\<close>

definition dial_candidates :: "switch \<Rightarrow> string list" where
  "dial_candidates s = (if full s then [] else filter (\<lambda>a. map_of (sw_peers s) a = None) (sw_known s))"

definition gossip_addrs :: "switch \<Rightarrow> string list" where
  "gossip_addrs s = (let addrs = KnownAddrs s in if length addrs > 64 then take 64 addrs else addrs)"

subsection \<open>A connection\<close>

text \<open>
  The start of \<open>serveConn\<close>: the peer, and our version message; when it cannot be sent the
  connection is closed at once (\<open>None\<close>).
\<close>

definition open_conn :: "nat \<Rightarrow> string \<Rightarrow> string \<Rightarrow> u64 \<Rightarrow> bool \<Rightarrow> switch \<Rightarrow> link option \<times> switch" where
  "open_conn k remote dialAddr height sends s = (let
     p = \<lparr> l_id = k, l_Dial = (if dialAddr = '''' then remote else dialAddr), l_Advert = '''', l_Nonce = 0,
           l_Height = 0, l_handshook = False \<rparr>;
     v = \<lparr> v_Protocol = ProtocolVersion, v_ListenAddr = sw_Advertise s, v_Height = height, v_Nonce = sw_Nonce s \<rparr>
   in if sends then (Some p, log_event (SentVersion k v) s) else (None, log_event (ConnClosed k) s))"

text \<open>
  One turn of its loop on the result of \<open>ReadFrame\<close>; \<open>None\<close> for the peer when the loop returned.
\<close>

definition serve_frame :: "frame option \<Rightarrow> link \<Rightarrow> switch \<Rightarrow> link option \<times> switch" where
  "serve_frame read p s = (case read of None \<Rightarrow> (None, dropPeer p s) | Some fr \<Rightarrow>
     if \<not> l_handshook p then
       (if f_Type fr \<noteq> ''version'' then (None, dropPeer p s)
        else case f_version fr of None \<Rightarrow> (None, dropPeer p s) | Some v \<Rightarrow>
          if v_Protocol v \<noteq> ProtocolVersion then (None, dropPeer p s)
          else if isSelf v s then (None, dropPeer p s)
          else let p = p\<lparr>l_Advert := v_ListenAddr v, l_Nonce := v_Nonce v, l_Height := v_Height v, l_handshook := True\<rparr> in
            (case register p s of (ok, s) \<Rightarrow>
               if \<not> ok then (None, dropPeer p s)
               else (Some p, log_event (Connected (l_id p)) (addKnownFromPeer (v_ListenAddr v) s))))
     else if f_Type fr = ''peers'' then (Some p, handlePeersMsg fr s)
     else (Some p, log_event (Dispatched (l_id p) fr) s))"

end
