(* ===== verification/SwitchRun.thy ===== *)
theory SwitchRun
  imports Switch
begin

text \<open>
  The runs of a switch: connections are opened by the accept loop and the dial loop, read frames and
  end, in any interleaving. The invariant of the table of peers holds in all of them.
\<close>

subsection \<open>Runs\<close>

text \<open>A configuration: the switch, the connections whose goroutine is running, the next identity.\<close>

type_synonym config = "switch \<times> link list \<times> nat"

definition without :: "nat \<Rightarrow> link list \<Rightarrow> link list" where
  "without k cs = filter (\<lambda>c. l_id c \<noteq> k) cs"

definition after_frame :: "link \<Rightarrow> link option \<times> switch \<Rightarrow> link list \<Rightarrow> nat \<Rightarrow> config" where
  "after_frame p r cs k = (case r of (None, s) \<Rightarrow> (s, without (l_id p) cs, k)
     | (Some p', s) \<Rightarrow> (s, p' # without (l_id p) cs, k))"

inductive sw_run :: "switch \<Rightarrow> config \<Rightarrow> bool" for s0 where
  start: "sw_run s0 (s0, [], 0)"
| opened: "sw_run s0 (s, cs, k) \<Longrightarrow> \<not> full s \<Longrightarrow> open_conn k remote dialAddr height sends s = (p, s')
    \<Longrightarrow> sw_run s0 (s', (case p of None \<Rightarrow> cs | Some p \<Rightarrow> p # cs), Suc k)"
| frame: "sw_run s0 (s, cs, k) \<Longrightarrow> p \<in> set cs \<Longrightarrow> sw_run s0 (after_frame p (serve_frame read p s) cs k)"
| stop: "sw_run s0 (s, cs, k) \<Longrightarrow> sw_run s0 (Stop_switch s, cs, k)"

inductive_cases sw_runE: "sw_run s0 c"

subsection \<open>The address book\<close>

lemma AddKnown_table [simp]: "AddKnown a s = (b, s') \<Longrightarrow> sw_peers s' = sw_peers s \<and> sw_Nonce s' = sw_Nonce s \<and> sw_log s' = sw_log s"
  by (auto simp: AddKnown_def split: if_splits)

lemma add_all_table: "add_all as b s = (b', s') \<Longrightarrow> sw_peers s' = sw_peers s \<and> sw_Nonce s' = sw_Nonce s \<and> sw_log s' = sw_log s"
proof (induction "as" arbitrary: b s)
  case (Cons a "as")
  obtain ok s1 where a: "AddKnown a s = (ok, s1)" by fastforce
  from Cons.IH[of "b \<or> ok" s1] Cons.prems AddKnown_table[OF a] a show ?case by simp
qed simp

text \<open>The events of the two callbacks for a connection; the invariant looks at no other event.\<close>

definition connected :: "switch \<Rightarrow> nat set" where
  "connected s = {k. Connected k \<in> set (sw_log s)}"

definition dispatched :: "switch \<Rightarrow> nat set" where
  "dispatched s = {k. \<exists>fr. Dispatched k fr \<in> set (sw_log s)}"

lemma log_events [simp]:
  "connected (log_event ev s) = (case ev of Connected k \<Rightarrow> insert k (connected s) | _ \<Rightarrow> connected s)"
  "dispatched (log_event ev s) = (case ev of Dispatched k fr \<Rightarrow> insert k (dispatched s) | _ \<Rightarrow> dispatched s)"
  "sw_peers (log_event ev s) = sw_peers s" "sw_Nonce (log_event ev s) = sw_Nonce s"
  by (auto simp: log_event_def connected_def dispatched_def split: sw_event.split)

lemma addKnownFromPeer_table [simp]:
  "sw_peers (addKnownFromPeer a s) = sw_peers s" "sw_Nonce (addKnownFromPeer a s) = sw_Nonce s"
  "connected (addKnownFromPeer a s) = connected s" "dispatched (addKnownFromPeer a s) = dispatched s"
proof -
  obtain b s1 where a: "AddKnown a s = (b, s1)" by fastforce
  have "connected s1 = connected s" "dispatched s1 = dispatched s"
    using AddKnown_table[OF a] by (simp_all add: connected_def dispatched_def)
  with AddKnown_table[OF a] a show "sw_peers (addKnownFromPeer a s) = sw_peers s" "sw_Nonce (addKnownFromPeer a s) = sw_Nonce s"
    "connected (addKnownFromPeer a s) = connected s" "dispatched (addKnownFromPeer a s) = dispatched s"
    by (simp_all add: addKnownFromPeer_def persistPeers_def)
qed

lemma handlePeersMsg_table [simp]:
  "sw_peers (handlePeersMsg fr s) = sw_peers s" "sw_Nonce (handlePeersMsg fr s) = sw_Nonce s"
  "connected (handlePeersMsg fr s) = connected s" "dispatched (handlePeersMsg fr s) = dispatched s"
proof -
  have "sw_peers (handlePeersMsg fr s) = sw_peers s \<and> sw_Nonce (handlePeersMsg fr s) = sw_Nonce s
    \<and> connected (handlePeersMsg fr s) = connected s \<and> dispatched (handlePeersMsg fr s) = dispatched s"
  proof (cases "f_addrs fr")
    case (Some addrs)
    obtain b s1 where a: "add_all addrs False s = (b, s1)" by fastforce
    have "connected s1 = connected s" "dispatched s1 = dispatched s"
      using add_all_table[OF a] by (simp_all add: connected_def dispatched_def)
    with Some add_all_table[OF a] a show ?thesis by (simp add: handlePeersMsg_def persistPeers_def)
  qed (simp add: handlePeersMsg_def)
  then show "sw_peers (handlePeersMsg fr s) = sw_peers s" "sw_Nonce (handlePeersMsg fr s) = sw_Nonce s"
    "connected (handlePeersMsg fr s) = connected s" "dispatched (handlePeersMsg fr s) = dispatched s" by simp_all
qed

subsection \<open>The invariant\<close>

text \<open>What \<open>register\<close> can tell about two peers: the nonce they announced, or without one the publicly
  dialable address.\<close>

definition same_identity :: "link \<Rightarrow> link \<Rightarrow> bool" where
  "same_identity p q \<longleftrightarrow> l_Nonce p = l_Nonce q
     \<and> (l_Nonce p \<noteq> 0 \<or> l_Advert p = l_Advert q \<and> l_Advert p \<noteq> '''' \<and> isPublicDialable (l_Advert p))"

lemma same_identity_sym: "same_identity p q \<longleftrightarrow> same_identity q p"
  by (auto simp: same_identity_def)

text \<open>
  Every entry of the table is a running connection that has shaken hands, under its dial key; two
  entries never have the same identity, and none has our nonce. A connection that has shaken hands is in
  the table. Messages are dispatched for connected peers only.
\<close>

definition sw_inv :: "config \<Rightarrow> bool" where
  "sw_inv c \<longleftrightarrow> (case c of (s, cs, k) \<Rightarrow> keys_ok (sw_peers s) \<and> distinct (map l_id cs) \<and> (\<forall>c \<in> set cs. l_id c < k)
     \<and> (\<forall>d p. map_of (sw_peers s) d = Some p \<longrightarrow> l_Dial p = d \<and> l_handshook p \<and> p \<in> set cs \<and> l_Nonce p \<noteq> sw_Nonce s)
     \<and> (\<forall>c \<in> set cs. l_handshook c \<longrightarrow> map_of (sw_peers s) (l_Dial c) = Some c \<and> l_id c \<in> connected s)
     \<and> (\<forall>d e p q. map_of (sw_peers s) d = Some p \<longrightarrow> map_of (sw_peers s) e = Some q \<longrightarrow> same_identity p q \<longrightarrow> d = e)
     \<and> dispatched s \<subseteq> connected s)"

lemma sw_invD:
  assumes "sw_inv (s, cs, k)"
  shows "keys_ok (sw_peers s)" and "distinct (map l_id cs)" and "c \<in> set cs \<Longrightarrow> l_id c < k"
    and "map_of (sw_peers s) d = Some p \<Longrightarrow> l_Dial p = d \<and> l_handshook p \<and> p \<in> set cs \<and> l_Nonce p \<noteq> sw_Nonce s"
    and "c \<in> set cs \<Longrightarrow> l_handshook c \<Longrightarrow> map_of (sw_peers s) (l_Dial c) = Some c \<and> l_id c \<in> connected s"
    and "map_of (sw_peers s) d = Some p \<Longrightarrow> map_of (sw_peers s) e = Some q \<Longrightarrow> same_identity p q \<Longrightarrow> d = e"
    and "dispatched s \<subseteq> connected s"
  using assms unfolding sw_inv_def by blast+

lemma sw_invI:
  assumes "keys_ok (sw_peers s)" and "distinct (map l_id cs)" and "\<And>c. c \<in> set cs \<Longrightarrow> l_id c < k"
    and "\<And>d p. map_of (sw_peers s) d = Some p \<Longrightarrow> l_Dial p = d \<and> l_handshook p \<and> p \<in> set cs \<and> l_Nonce p \<noteq> sw_Nonce s"
    and "\<And>c. c \<in> set cs \<Longrightarrow> l_handshook c \<Longrightarrow> map_of (sw_peers s) (l_Dial c) = Some c \<and> l_id c \<in> connected s"
    and "\<And>d e p q. map_of (sw_peers s) d = Some p \<Longrightarrow> map_of (sw_peers s) e = Some q \<Longrightarrow> same_identity p q \<Longrightarrow> d = e"
    and "dispatched s \<subseteq> connected s"
  shows "sw_inv (s, cs, k)"
  using assms unfolding sw_inv_def by blast

lemma without_set [simp]: "set (without k cs) = {c \<in> set cs. l_id c \<noteq> k}"
  by (auto simp: without_def)

lemma distinct_without: "distinct (map l_id cs) \<Longrightarrow> distinct (map l_id (without k cs))"
  by (simp add: without_def distinct_map_filter)

lemma distinct_id: "distinct (map l_id cs) \<Longrightarrow> p \<in> set cs \<Longrightarrow> q \<in> set cs \<Longrightarrow> l_id p = l_id q \<Longrightarrow> p = q"
  by (metis distinct_map inj_on_eq_iff)

lemma deleted:
  assumes "map_of (AList.delete k m) d = Some x"
  shows "map_of m d = Some x" and "d \<noteq> k"
  using assms by (simp_all split: if_splits)

text \<open>A connection that ends.\<close>

lemma drop_entry_inv:
  assumes inv: "sw_inv (s, cs, k)" and p: "map_of (sw_peers s) (l_Dial p) = Some p"
    and s': "sw_peers s' = AList.delete (l_Dial p) (sw_peers s)" "sw_Nonce s' = sw_Nonce s"
      "connected s' = connected s" "dispatched s' = dispatched s"
  shows "sw_inv (s', without (l_id p) cs, k)"
proof (rule sw_invI)
  note D = sw_invD[OF inv]
  have pin: "p \<in> set cs" using D(4)[OF p] by simp
  show "keys_ok (sw_peers s')" using D(1) by (simp add: s')
  show "distinct (map l_id (without (l_id p) cs))" by (rule distinct_without[OF D(2)])
  show "l_id c < k" if "c \<in> set (without (l_id p) cs)" for c using that D(3) by simp
  show "l_Dial x = d \<and> l_handshook x \<and> x \<in> set (without (l_id p) cs) \<and> l_Nonce x \<noteq> sw_Nonce s'"
    if x: "map_of (sw_peers s') d = Some x" for d x
  proof -
    note x' = deleted[OF x[unfolded s'(1)]]
    have "l_id x \<noteq> l_id p" using D(4)[OF x'(1)] distinct_id[OF D(2) _ pin, of x] x'(2) by blast
    then show ?thesis using D(4)[OF x'(1)] by (simp add: s')
  qed
  show "map_of (sw_peers s') (l_Dial c) = Some c \<and> l_id c \<in> connected s'"
    if c: "c \<in> set (without (l_id p) cs)" "l_handshook c" for c
  proof -
    from c have c': "map_of (sw_peers s) (l_Dial c) = Some c" "l_id c \<in> connected s" "l_id c \<noteq> l_id p"
      using D(5)[of c] by simp_all
    have "l_Dial c \<noteq> l_Dial p"
    proof
      assume "l_Dial c = l_Dial p"
      with c'(1) have "map_of (sw_peers s) (l_Dial p) = Some c" by metis
      then have "c = p" by (metis p option.inject)
      with c'(3) show False by metis
    qed
    then have "map_of (sw_peers s') (l_Dial c) = map_of (sw_peers s) (l_Dial c)" by (simp add: s'(1))
    with c'(1,2) s'(3) show ?thesis by metis
  qed
  show "d = e" if "map_of (sw_peers s') d = Some x" "map_of (sw_peers s') e = Some y" "same_identity x y" for d e x y
    by (rule D(6)[OF deleted(1)[OF that(1)[unfolded s'(1)]] deleted(1)[OF that(2)[unfolded s'(1)]] that(3)])
  show "dispatched s' \<subseteq> connected s'" using D(7) by (simp add: s')
qed

lemma drop_other_inv:
  assumes inv: "sw_inv (s, cs, k)" and p: "p \<in> set cs" "\<not> l_handshook p"
    and s': "sw_peers s' = sw_peers s" "sw_Nonce s' = sw_Nonce s" "connected s' = connected s" "dispatched s' = dispatched s"
  shows "sw_inv (s', without (l_id p) cs, k)"
proof (rule sw_invI)
  note D = sw_invD[OF inv]
  show "l_Dial x = d \<and> l_handshook x \<and> x \<in> set (without (l_id p) cs) \<and> l_Nonce x \<noteq> sw_Nonce s'"
    if "map_of (sw_peers s') d = Some x" for d x
  proof -
    have x: "l_Dial x = d \<and> l_handshook x \<and> x \<in> set cs \<and> l_Nonce x \<noteq> sw_Nonce s" using that D(4) by (simp add: s')
    then have "l_id x \<noteq> l_id p" using distinct_id[OF D(2) _ p(1), of x] p(2) by auto
    with x show ?thesis by (simp add: s')
  qed
qed (use sw_invD[OF inv] distinct_without in \<open>simp_all add: s'\<close>)

lemma dropPeer_inv:
  assumes inv: "sw_inv (s, cs, k)" and p: "p \<in> set cs" and q: "l_id q = l_id p" "l_Dial q = l_Dial p"
  shows "sw_inv (dropPeer q s, without (l_id p) cs, k)"
proof (cases "map_of (sw_peers s) (l_Dial p) = Some p")
  case True
  then have d: "dropPeer q s = log_event (Disconnected (l_id p)) (log_event (ConnClosed (l_id p)) s\<lparr>sw_peers := AList.delete (l_Dial p) (sw_peers s)\<rparr>)"
    using q by (simp add: dropPeer_def Let_def log_event_def)
  show ?thesis unfolding d
    by (rule drop_entry_inv[OF inv True]) (simp_all add: log_event_def connected_def dispatched_def)
next
  case False
  have "r = p" if "map_of (sw_peers s) (l_Dial p) = Some r" "l_id r = l_id p" for r
    using distinct_id[OF sw_invD(2)[OF inv] _ p that(2)] sw_invD(4)[OF inv that(1)] by simp
  with False have d: "dropPeer q s = log_event (ConnClosed (l_id p)) s"
    using q by (auto simp: dropPeer_def Let_def split: option.split)
  have "\<not> l_handshook p" using sw_invD(5)[OF inv p] False by auto
  from drop_other_inv[OF inv p this] show ?thesis unfolding d by simp
qed

text \<open>The registration.\<close>

lemma register_refused: "register p s = (False, s') \<Longrightarrow> s' = s"
  by (auto simp: register_def split: if_splits)

lemma register_accepted:
  assumes "register p s = (True, s')"
  shows "s' = s\<lparr>sw_peers := AList.update (l_Dial p) p (sw_peers s)\<rparr>" and "map_of (sw_peers s) (l_Dial p) = None"
    and "map_of (sw_peers s) d = Some q \<Longrightarrow> \<not> same_identity p q"
proof -
  show "s' = s\<lparr>sw_peers := AList.update (l_Dial p) p (sw_peers s)\<rparr>" "map_of (sw_peers s) (l_Dial p) = None"
    using assms by (auto simp: register_def split: if_splits)
  assume "map_of (sw_peers s) d = Some q"
  then have q: "(d, q) \<in> set (sw_peers s)" by (rule map_of_SomeD)
  show "\<not> same_identity p q"
  proof (cases "l_Nonce p = 0")
    case False
    with assms have "\<not> list_ex (\<lambda>(d, q). l_Nonce q = l_Nonce p) (sw_peers s)" by (auto simp: register_def split: if_splits)
    with q show ?thesis by (fastforce simp: list_ex_iff same_identity_def)
  next
    case True
    with assms have "l_Advert p \<noteq> '''' \<and> isPublicDialable (l_Advert p) \<longrightarrow> \<not> list_ex (\<lambda>(d, q). l_Advert q = l_Advert p) (sw_peers s)"
      by (auto simp: register_def split: if_splits)
    with q True show ?thesis by (fastforce simp: list_ex_iff same_identity_def)
  qed
qed

lemma register_inv:
  assumes inv: "sw_inv (s, cs, k)" and p: "p \<in> set cs" "\<not> l_handshook p"
    and q: "l_id q = l_id p" "l_Dial q = l_Dial p" "l_handshook q" "l_Nonce q \<noteq> sw_Nonce s"
    and reg: "register q s = (True, s1)"
    and s': "sw_peers s' = sw_peers s1" "sw_Nonce s' = sw_Nonce s1" "connected s' = insert (l_id q) (connected s1)"
      "dispatched s' = dispatched s1"
  shows "sw_inv (s', q # without (l_id p) cs, k)"
proof (rule sw_invI)
  note D = sw_invD[OF inv] and r = register_accepted[OF reg]
  have peers: "sw_peers s' = AList.update (l_Dial q) q (sw_peers s)" by (simp add: s' r(1))
  have "connected s1 = connected s" "dispatched s1 = dispatched s" by (simp_all add: r(1) connected_def dispatched_def)
  with s' have eqs: "sw_Nonce s' = sw_Nonce s" "connected s' = insert (l_id q) (connected s)" "dispatched s' = dispatched s"
    by (simp_all add: r(1))
  show "keys_ok (sw_peers s')" using D(1) by (simp add: peers)
  show "distinct (map l_id (q # without (l_id p) cs))" using distinct_without[OF D(2)] q(1) by auto
  show "l_id c < k" if "c \<in> set (q # without (l_id p) cs)" for c using that D(3) p(1) q(1) by auto
  show "l_Dial x = d \<and> l_handshook x \<and> x \<in> set (q # without (l_id p) cs) \<and> l_Nonce x \<noteq> sw_Nonce s'"
    if x: "map_of (sw_peers s') d = Some x" for d x
  proof (cases "d = l_Dial q")
    case True
    with x q show ?thesis by (simp add: peers eqs)
  next
    case False
    then have x': "l_Dial x = d \<and> l_handshook x \<and> x \<in> set cs \<and> l_Nonce x \<noteq> sw_Nonce s" using x D(4) by (simp add: peers)
    then have "l_id x \<noteq> l_id p" using distinct_id[OF D(2) _ p(1), of x] p(2) by auto
    with x' show ?thesis by (simp add: eqs)
  qed
  show "map_of (sw_peers s') (l_Dial c) = Some c \<and> l_id c \<in> connected s'"
    if c: "c \<in> set (q # without (l_id p) cs)" "l_handshook c" for c
  proof (cases "c = q")
    case False
    with c have c': "map_of (sw_peers s) (l_Dial c) = Some c" "l_id c \<in> connected s" using D(5)[of c] by simp_all
    then have "l_Dial c \<noteq> l_Dial q" by (metis r(2) option.distinct(1))
    then have "map_of (sw_peers s') (l_Dial c) = map_of (sw_peers s) (l_Dial c)" by (simp add: peers)
    with c' eqs(2) show ?thesis by (metis insertI2)
  qed (simp add: peers eqs)
  show "d = e" if "map_of (sw_peers s') d = Some x" "map_of (sw_peers s') e = Some y" "same_identity x y" for d e x y
  proof (cases "d = l_Dial q \<or> e = l_Dial q")
    case False
    then have "map_of (sw_peers s) d = Some x" "map_of (sw_peers s) e = Some y" using that(1,2) by (simp_all add: peers)
    from D(6)[OF this that(3)] show ?thesis .
  next
    case True
    show ?thesis
    proof (rule ccontr)
      assume "d \<noteq> e"
      with True that consider "x = q" "map_of (sw_peers s) e = Some y" | "y = q" "map_of (sw_peers s) d = Some x"
        by (auto simp: peers split: if_splits)
      then show False
      proof cases
        case 1
        with r(3)[OF 1(2)] that(3) show False by simp
      next
        case 2
        with r(3)[OF 2(2)] that(3) show False by (simp add: same_identity_sym)
      qed
    qed
  qed
  show "dispatched s' \<subseteq> connected s'" using D(7) by (auto simp: eqs)
qed

subsection \<open>Every run\<close>

lemma same_table_inv:
  assumes "sw_inv (s, cs, k)" and "sw_peers s' = sw_peers s" and "sw_Nonce s' = sw_Nonce s"
    and "connected s \<subseteq> connected s'" and "dispatched s' \<subseteq> connected s'"
  shows "sw_inv (s', cs, k)"
proof (rule sw_invI)
  note D = sw_invD[OF assms(1)]
  show "map_of (sw_peers s') (l_Dial c) = Some c \<and> l_id c \<in> connected s'" if "c \<in> set cs" "l_handshook c" for c
    using D(5)[OF that] assms(2,4) by auto
qed (use sw_invD[OF assms(1)] assms(2,3,5) in auto)

lemma isSelf_nonce: "\<not> isSelf v s \<Longrightarrow> sw_Nonce s \<noteq> 0 \<Longrightarrow> v_Nonce v \<noteq> sw_Nonce s"
  by (auto simp: isSelf_def split: if_splits)

lemma same_conns: "sw_inv (s, cs, k) \<Longrightarrow> p \<in> set cs \<Longrightarrow> sw_inv (s, p # without (l_id p) cs, k)"
proof -
  assume inv: "sw_inv (s, cs, k)" and p: "p \<in> set cs"
  note D = sw_invD[OF inv]
  have set_eq: "set (p # without (l_id p) cs) = set cs" using p distinct_id[OF D(2) _ p] by auto
  have "distinct (map l_id (p # without (l_id p) cs))" using distinct_without[OF D(2)] by auto
  with inv show ?thesis unfolding sw_inv_def prod.case set_eq by blast
qed

lemma serve_frame_inv:
  assumes inv: "sw_inv (s, cs, k)" and p: "p \<in> set cs" and nonce: "sw_Nonce s \<noteq> 0"
  shows "sw_inv (after_frame p (serve_frame read p s) cs k)"
proof (cases "l_handshook p")
  case True
  have conn: "l_id p \<in> connected s" using sw_invD(5)[OF inv p True] by simp
  note c = same_conns[OF inv p]
  show ?thesis
  proof (cases read)
    case None
    with dropPeer_inv[OF inv p] show ?thesis by (simp add: serve_frame_def after_frame_def)
  next
    case (Some fr)
    have "sw_inv (handlePeersMsg fr s, p # without (l_id p) cs, k)"
      by (rule same_table_inv[OF c]) (use sw_invD(7)[OF inv] in simp_all)
    moreover have "sw_inv (log_event (Dispatched (l_id p) fr) s, p # without (l_id p) cs, k)"
      by (rule same_table_inv[OF c]) (use sw_invD(7)[OF inv] conn in simp_all)
    ultimately show ?thesis using Some True by (simp add: serve_frame_def after_frame_def)
  qed
next
  case False
  have dropped: "sw_inv (after_frame p (None, dropPeer q s) cs k)" if "l_id q = l_id p" "l_Dial q = l_Dial p" for q
    using dropPeer_inv[OF inv p that] by (simp add: after_frame_def)
  show ?thesis
  proof (cases "\<exists>fr v. read = Some fr \<and> f_Type fr = ''version'' \<and> f_version fr = Some v \<and> v_Protocol v = ProtocolVersion \<and> \<not> isSelf v s")
    case False
    with dropped[of p] \<open>\<not> l_handshook p\<close> show ?thesis by (auto simp: serve_frame_def split: option.split)
  next
    case True
    then obtain fr v where fr: "read = Some fr" "f_Type fr = ''version''" "f_version fr = Some v" "v_Protocol v = ProtocolVersion" "\<not> isSelf v s"
      by blast
    define q where "q = p\<lparr>l_Advert := v_ListenAddr v, l_Nonce := v_Nonce v, l_Height := v_Height v, l_handshook := True\<rparr>"
    have q: "l_id q = l_id p" "l_Dial q = l_Dial p" "l_handshook q" "l_Nonce q \<noteq> sw_Nonce s"
      using isSelf_nonce[OF fr(5) nonce] by (simp_all add: q_def)
    obtain ok s1 where reg: "register q s = (ok, s1)" by fastforce
    have sf: "serve_frame read p s = (if \<not> ok then (None, dropPeer q s1)
        else (Some q, log_event (Connected (l_id q)) (addKnownFromPeer (v_ListenAddr v) s1)))"
      using fr False reg by (simp add: serve_frame_def q_def Let_def)
    show ?thesis
    proof (cases ok)
      case False
      with register_refused[of q s s1] reg dropped[OF q(1,2)] show ?thesis by (simp add: sf)
    next
      case True
      with reg have "register q s = (True, s1)" by simp
      from register_inv[OF inv p False q this, of "log_event (Connected (l_id q)) (addKnownFromPeer (v_ListenAddr v) s1)"] True
      show ?thesis by (simp add: sf after_frame_def)
    qed
  qed
qed


lemma open_conn_cases:
  assumes "open_conn k remote dialAddr height sends s = (p, s')"
  obtains ev where "s' = log_event ev s" "\<forall>j. ev \<noteq> Connected j" "\<forall>j fr. ev \<noteq> Dispatched j fr"
    and "p = None \<or> (\<exists>q. p = Some q \<and> l_id q = k \<and> \<not> l_handshook q)"
  using assms by (fastforce simp: open_conn_def Let_def split: if_splits)

lemma opened_inv:
  assumes inv: "sw_inv (s, cs, k)" and op: "open_conn k remote dialAddr height sends s = (p, s')"
  shows "sw_inv (s', (case p of None \<Rightarrow> cs | Some p \<Rightarrow> p # cs), Suc k)" and "sw_Nonce s' = sw_Nonce s"
proof -
  obtain ev where ev: "s' = log_event ev s" "\<forall>j. ev \<noteq> Connected j" "\<forall>j fr. ev \<noteq> Dispatched j fr"
    and p: "p = None \<or> (\<exists>q. p = Some q \<and> l_id q = k \<and> \<not> l_handshook q)"
    using open_conn_cases[OF op] by metis
  have eqs: "sw_peers s' = sw_peers s" "sw_Nonce s' = sw_Nonce s" "connected s' = connected s" "dispatched s' = dispatched s"
    using ev by (auto split: sw_event.splits)
  then show "sw_Nonce s' = sw_Nonce s" by simp
  have base: "sw_inv (s', cs, Suc k)"
    using inv unfolding sw_inv_def prod.case eqs by (meson less_Suc_eq)
  show "sw_inv (s', (case p of None \<Rightarrow> cs | Some p \<Rightarrow> p # cs), Suc k)"
  proof (cases p)
    case (Some q)
    with p have q: "l_id q = k" "\<not> l_handshook q" by auto
    have lt: "l_id c < k" if "c \<in> set cs" for c using sw_invD(3)[OF inv that] .
    have "sw_inv (s', q # cs, Suc k)"
    proof (rule sw_invI)
      note D = sw_invD[OF base]
      show "distinct (map l_id (q # cs))" using D(2) lt q(1) by force
      show "l_id c < Suc k" if "c \<in> set (q # cs)" for c using that D(3) q(1) by auto
      show "l_Dial x = d \<and> l_handshook x \<and> x \<in> set (q # cs) \<and> l_Nonce x \<noteq> sw_Nonce s'"
        if "map_of (sw_peers s') d = Some x" for d x using D(4)[OF that] by simp
      show "map_of (sw_peers s') (l_Dial c) = Some c \<and> l_id c \<in> connected s'" if "c \<in> set (q # cs)" "l_handshook c" for c
        using D(5)[of c] that q(2) by auto
    qed (use sw_invD(1,6,7)[OF base] in blast)+
    with Some show ?thesis by simp
  qed (use base in simp)
qed

lemma Stop_table [simp]:
  "sw_peers (Stop_switch s) = sw_peers s" "sw_Nonce (Stop_switch s) = sw_Nonce s"
  "connected (Stop_switch s) = connected s" "dispatched (Stop_switch s) = dispatched s"
  by (auto simp: Stop_switch_def connected_def dispatched_def)

lemma dropPeer_nonce [simp]: "sw_Nonce (dropPeer p s) = sw_Nonce s"
  by (simp add: dropPeer_def Let_def)

lemma register_nonce: "register p s = (ok, s') \<Longrightarrow> sw_Nonce s' = sw_Nonce s"
  by (auto simp: register_def split: if_splits)

lemma serve_frame_nonce: "sw_Nonce (snd (serve_frame read p s)) = sw_Nonce s"
  by (auto simp: serve_frame_def Let_def register_nonce split: option.split prod.split)

lemma after_frame_nonce: "after_frame p r cs k = (s', cs', k') \<Longrightarrow> s' = snd r"
  by (auto simp: after_frame_def split: prod.splits option.splits)

lemma sw_run_inv:
  assumes "sw_run s0 c" and "sw_peers s0 = []" and "sw_log s0 = []" and "sw_Nonce s0 \<noteq> 0"
  shows "sw_inv c \<and> sw_Nonce (fst c) = sw_Nonce s0"
  using assms
proof (induction rule: sw_run.induct)
  case start
  then show ?case by (simp add: sw_inv_def dispatched_def)
next
  case (opened s cs k remote dialAddr height sends p s')
  then have inv: "sw_inv (s, cs, k)" "sw_Nonce s = sw_Nonce s0" by simp_all
  with opened_inv[OF inv(1) opened.hyps(3)] show ?case by simp
next
  case (frame s cs k p read)
  then have inv: "sw_inv (s, cs, k)" "sw_Nonce s = sw_Nonce s0" by simp_all
  with frame.prems have "sw_Nonce s \<noteq> 0" by simp
  from serve_frame_inv[OF inv(1) frame.hyps(2) this] have "sw_inv (after_frame p (serve_frame read p s) cs k)" .
  moreover have "fst (after_frame p (serve_frame read p s) cs k) = snd (serve_frame read p s)"
    by (auto simp: after_frame_def split: prod.splits option.splits)
  ultimately show ?case using inv(2) serve_frame_nonce[of read p s] by simp
next
  case (stop s cs k)
  then have inv: "sw_inv (s, cs, k)" "sw_Nonce s = sw_Nonce s0" by simp_all
  have "sw_inv (Stop_switch s, cs, k)"
    by (rule same_table_inv[OF inv(1)]) (use sw_invD(7)[OF inv(1)] in simp_all)
  with inv show ?case by simp
qed


subsection \<open>The order of the events\<close>

text \<open>Steps that append to the log no dispatched message, and leave the configuration of the switch.\<close>

definition quiet :: "switch \<Rightarrow> switch \<Rightarrow> bool" where
  "quiet s s' \<longleftrightarrow> (\<exists>evs. sw_log s' = sw_log s @ evs \<and> (\<forall>k fr. Dispatched k fr \<notin> set evs))"

lemma quiet_refl [simp]: "sw_log s' = sw_log s \<Longrightarrow> quiet s s'"
  by (simp add: quiet_def)

lemma quiet_trans: "quiet s s' \<Longrightarrow> quiet s' s'' \<Longrightarrow> quiet s s''"
  unfolding quiet_def by (metis Un_iff append_assoc set_append)

lemma quiet_event: "quiet s t \<Longrightarrow> \<forall>k fr. ev \<noteq> Dispatched k fr \<Longrightarrow> quiet s (log_event ev t)"
  by (rule quiet_trans[of s t]) (auto simp: quiet_def log_event_def)

lemma quiet_persist: "quiet s t \<Longrightarrow> quiet s (persistPeers t)"
  by (simp add: persistPeers_def quiet_event)

lemma quiet_known: "quiet s (addKnownFromPeer a s)"
proof -
  obtain b t where a: "AddKnown a s = (b, t)" by fastforce
  then have "quiet s t" using AddKnown_table[OF a] by simp
  with a quiet_persist[OF this] show ?thesis by (simp add: addKnownFromPeer_def)
qed

lemma quiet_peers_msg: "quiet s (handlePeersMsg fr s)"
proof (cases "f_addrs fr")
  case (Some addrs)
  obtain b t where a: "add_all addrs False s = (b, t)" by fastforce
  then have "quiet s t" using add_all_table[OF a] by simp
  with a Some quiet_persist[OF this] show ?thesis by (simp add: handlePeersMsg_def)
qed (simp add: handlePeersMsg_def)

lemma quiet_drop: "quiet s (dropPeer p s)"
proof -
  have "sw_log (dropPeer p s) = sw_log s @ [ConnClosed (l_id p)]
      \<or> sw_log (dropPeer p s) = sw_log s @ [ConnClosed (l_id p), Disconnected (l_id p)]"
    by (simp add: dropPeer_def Let_def log_event_def)
  then show ?thesis by (fastforce simp: quiet_def)
qed

lemma quiet_register: "register p s = (ok, t) \<Longrightarrow> quiet s t"
  by (auto simp: register_def split: if_splits)

lemma register_step_quiet:
  assumes "register p s = (ok, t)"
  shows "quiet s (dropPeer p t)" and "quiet s (log_event (Connected (l_id p)) (addKnownFromPeer a t))"
  using quiet_trans[OF quiet_register[OF assms] quiet_drop] quiet_trans[OF quiet_register[OF assms] quiet_known]
  by (simp_all add: quiet_event)

lemma serve_frame_quiet:
  "quiet s (snd (serve_frame read p s))
    \<or> (\<exists>fr. l_handshook p \<and> snd (serve_frame read p s) = log_event (Dispatched (l_id p) fr) s)"
proof (cases read)
  case (Some fr)
  show ?thesis
  proof (cases "l_handshook p")
    case True
    with Some quiet_peers_msg[of s fr] show ?thesis by (auto simp: serve_frame_def)
  next
    case False
    define q where "q v = p\<lparr>l_Advert := v_ListenAddr v, l_Nonce := v_Nonce v, l_Height := v_Height v, l_handshook := True\<rparr>" for v :: version
    have "quiet s (snd (serve_frame read p s))"
    proof (cases "f_version fr")
      case (Some v)
      obtain ok t where reg: "register (q v) s = (ok, t)" by fastforce
      with False Some \<open>read = Some fr\<close> quiet_drop[of s p] register_step_quiet[OF reg] show ?thesis
        by (simp add: serve_frame_def q_def Let_def)
    qed (use False Some quiet_drop in \<open>simp add: serve_frame_def\<close>)
    then show ?thesis ..
  qed
qed (use quiet_drop in \<open>simp add: serve_frame_def\<close>)

text \<open>In an ordered log a message is dispatched only after its connection completed the handshake.\<close>

definition ordered_log :: "sw_event list \<Rightarrow> bool" where
  "ordered_log es \<longleftrightarrow> (\<forall>i < length es. \<forall>k fr. es ! i = Dispatched k fr \<longrightarrow> Connected k \<in> set (take i es))"

lemma ordered_log_append:
  assumes "ordered_log es" and "\<And>k fr. Dispatched k fr \<in> set fs \<Longrightarrow> Connected k \<in> set es"
  shows "ordered_log (es @ fs)"
  unfolding ordered_log_def
proof (intro allI impI)
  fix i k fr assume i: "i < length (es @ fs)" "(es @ fs) ! i = Dispatched k fr"
  show "Connected k \<in> set (take i (es @ fs))"
  proof (cases "i < length es")
    case True
    with i assms(1) show ?thesis by (simp add: ordered_log_def nth_append)
  next
    case False
    with i have "i - length es < length fs" "fs ! (i - length es) = Dispatched k fr" by (simp_all add: nth_append)
    then have "Dispatched k fr \<in> set fs" by (metis nth_mem)
    from assms(2)[OF this] False show ?thesis by simp
  qed
qed

lemma ordered_quiet: "quiet s t \<Longrightarrow> ordered_log (sw_log s) \<Longrightarrow> ordered_log (sw_log t)"
  unfolding quiet_def by (metis ordered_log_append)

lemma sw_run_ordered:
  assumes "sw_run s0 c" and "sw_peers s0 = []" and "sw_log s0 = []" and "sw_Nonce s0 \<noteq> 0"
  shows "ordered_log (sw_log (fst c))"
  using assms
proof (induction rule: sw_run.induct)
  case start
  then show ?case by (simp add: ordered_log_def)
next
  case (opened s cs k remote dialAddr height sends p s')
  have "quiet s s'" using open_conn_cases[OF opened.hyps(3)] quiet_event[of s s] by (metis quiet_refl)
  with opened ordered_quiet show ?case by simp
next
  case (frame s cs k p read)
  have inv: "sw_inv (s, cs, k)" using sw_run_inv[OF frame.hyps(1) frame.prems] by simp
  have "ordered_log (sw_log s)" using frame by simp
  moreover have "Connected (l_id p) \<in> set (sw_log s)" if "l_handshook p"
    using sw_invD(5)[OF inv frame.hyps(2) that] by (simp add: connected_def)
  ultimately have "ordered_log (sw_log (snd (serve_frame read p s)))"
    using serve_frame_quiet[of s read p] ordered_quiet[of s] ordered_log_append[of "sw_log s" "[Dispatched (l_id p) _]"]
    by (auto simp: log_event_def)
  moreover have "fst (after_frame p (serve_frame read p s) cs k) = snd (serve_frame read p s)"
    by (auto simp: after_frame_def split: prod.splits option.splits)
  ultimately show ?case by simp
next
  case (stop s cs k)
  have "quiet s (Stop_switch s)" by (auto simp: quiet_def Stop_switch_def)
  with stop ordered_quiet show ?case by simp
qed

subsection \<open>The learned addresses\<close>

definition same_config :: "switch \<Rightarrow> switch \<Rightarrow> bool" where
  "same_config s s' \<longleftrightarrow> sw_Listen s' = sw_Listen s \<and> sw_Advertise s' = sw_Advertise s \<and> sw_ln s' = sw_ln s \<and> sw_MaxPeers s' = sw_MaxPeers s"

definition book_ok :: "switch \<Rightarrow> switch \<Rightarrow> bool" where
  "book_ok s s' \<longleftrightarrow> same_config s s' \<and> (distinct (sw_known s) \<longrightarrow> distinct (sw_known s'))
     \<and> (\<forall>a \<in> set (sw_known s') - set (sw_known s). a \<noteq> '''' \<and> \<not> isUnspecifiedAddr a \<and> \<not> isSelfAddr a s)"

lemma book_same [simp]:
  "sw_Listen s' = sw_Listen s \<Longrightarrow> sw_Advertise s' = sw_Advertise s \<Longrightarrow> sw_ln s' = sw_ln s \<Longrightarrow> sw_MaxPeers s' = sw_MaxPeers s
    \<Longrightarrow> sw_known s' = sw_known s \<Longrightarrow> book_ok s s'"
  by (simp add: book_ok_def same_config_def)

lemma book_trans: "book_ok s t \<Longrightarrow> book_ok t u \<Longrightarrow> book_ok s u"
  unfolding book_ok_def same_config_def isSelfAddr_def by auto

lemma book_event [simp]: "book_ok s (log_event ev s)"
  by (rule book_same) (simp_all add: log_event_def)

lemma book_AddKnown: "AddKnown a s = (b, t) \<Longrightarrow> book_ok s t"
  by (auto simp: AddKnown_def book_ok_def same_config_def isSelfAddr_def split: if_splits)

lemma book_persist [simp]: "book_ok s (persistPeers s)"
  by (simp add: persistPeers_def)

lemma book_add_all: "add_all as b s = (b', t) \<Longrightarrow> book_ok s t"
proof (induction "as" arbitrary: b s)
  case (Cons a "as")
  obtain ok s1 where a: "AddKnown a s = (ok, s1)" by fastforce
  from Cons.IH[of "b \<or> ok" s1] Cons.prems a book_trans[OF book_AddKnown[OF a]] show ?case by simp
qed simp

lemma book_known: "book_ok s (addKnownFromPeer a s)"
  using book_AddKnown book_trans[OF book_AddKnown book_persist] by (auto simp: addKnownFromPeer_def split: prod.split)

lemma book_peers_msg: "book_ok s (handlePeersMsg fr s)"
  using book_add_all book_trans[OF book_add_all book_persist] by (auto simp: handlePeersMsg_def split: prod.split option.split)

lemma book_drop: "book_ok s (dropPeer p s)"
  by (rule book_same) (simp_all add: dropPeer_def Let_def log_event_def)

lemma book_register: "register p s = (ok, t) \<Longrightarrow> book_ok s t"
  by (auto simp: register_def split: if_splits)

lemma book_serve_frame: "book_ok s (snd (serve_frame read p s))"
  using book_drop[of s] book_peers_msg[of s] book_trans[OF book_register book_drop]
    book_trans[OF book_register book_trans[OF book_known book_event]]
  by (auto simp: serve_frame_def Let_def split: option.split prod.split)

lemma sw_run_book: "sw_run s0 c \<Longrightarrow> book_ok s0 (fst c)"
proof (induction rule: sw_run.induct)
  case start
  show ?case by simp
next
  case (opened s cs k remote dialAddr height sends p s')
  obtain ev where "s' = log_event ev s" using open_conn_cases[OF opened.hyps(3)] by metis
  with opened.IH book_trans[of s0 s s'] show ?case by simp
next
  case (frame s cs k p read)
  have "fst (after_frame p (serve_frame read p s) cs k) = snd (serve_frame read p s)"
    by (auto simp: after_frame_def split: prod.splits option.splits)
  with book_trans[OF _ book_serve_frame[of s read p], of s0] frame.IH show ?case by simp
next
  case (stop s cs k)
  have "book_ok s (Stop_switch s)" by (rule book_same) (simp_all add: Stop_switch_def)
  from book_trans[OF _ this, of s0] stop.IH show ?case by simp
qed


subsection \<open>What holds of a running switch\<close>

lemma newNonce_nonzero: "newNonce random clock \<noteq> 0"
  by (simp add: newNonce_def Let_def split: option.split)

lemma fresh_switch:
  assumes "switch_Start ln (switch_New listen advertise seeds nonce) = Some s0"
  shows "sw_peers s0 = []" and "sw_log s0 = []" and "sw_Nonce s0 = nonce" and "sw_MaxPeers s0 = 32" and "\<not> sw_closed s0"
    and "sw_known s0 = sw_known (switch_New listen advertise seeds nonce)"
  using assms by (auto simp: switch_Start_def switch_New_def Let_def split: option.splits)

lemma add_seeds_distinct: "distinct known \<Longrightarrow> distinct (add_seeds listen advertise seeds known)"
  by (induction seeds arbitrary: known) simp_all

text \<open>C14: in every run of a switch, whatever its connections do and in whatever order, the table of
  peers holds only running connections that completed the handshake, each under its own dial
  address; none of them announced this process's own nonce; no two announced the same nonzero nonce; and no
  two without a nonce announced the same publicly dialable address. Peers that announce neither a nonce nor a
  publicly dialable address are told apart by their dial address alone, as \<open>register\<close> does, so one process may
  then be in the table more than once.\<close>

theorem peers_are_distinct:
  assumes "switch_Start ln (switch_New listen advertise seeds (newNonce random clock)) = Some s0"
    and "sw_run s0 (s, cs, k)" and "map_of (sw_peers s) d = Some p"
  shows "l_Dial p = d \<and> l_handshook p \<and> p \<in> set cs \<and> l_Nonce p \<noteq> newNonce random clock
    \<and> (\<forall>e q. map_of (sw_peers s) e = Some q \<and> l_Nonce q = l_Nonce p \<and> l_Nonce p \<noteq> 0 \<longrightarrow> q = p)
    \<and> (\<forall>e q. map_of (sw_peers s) e = Some q \<and> l_Nonce q = 0 \<and> l_Nonce p = 0
          \<and> l_Advert q = l_Advert p \<and> l_Advert p \<noteq> '''' \<and> isPublicDialable (l_Advert p) \<longrightarrow> q = p)"
proof -
  note f = fresh_switch[OF assms(1)]
  have inv: "sw_inv (s, cs, k)" "sw_Nonce s = newNonce random clock"
    using sw_run_inv[OF assms(2) f(1,2)] f(3) by (simp_all add: newNonce_nonzero)
  note D = sw_invD[OF inv(1)]
  have one: "q = p" if q: "map_of (sw_peers s) e = Some q" "same_identity p q" for e q
    using D(6)[OF assms(3) q] q(1) assms(3) by simp
  have "q = p" if "map_of (sw_peers s) e = Some q" "l_Nonce q = l_Nonce p" "l_Nonce p \<noteq> 0" for e q
    by (rule one[OF that(1)]) (simp add: same_identity_def that)
  moreover have "q = p" if "map_of (sw_peers s) e = Some q" "l_Nonce q = 0" "l_Nonce p = 0" "l_Advert q = l_Advert p"
    "l_Advert p \<noteq> ''''" "isPublicDialable (l_Advert p)" for e q
    by (rule one[OF that(1)]) (use that in \<open>simp_all add: same_identity_def\<close>)
  ultimately show ?thesis using D(4)[OF assms(3)] unfolding inv(2) by blast
qed

text \<open>C15: the handshake comes first: before any message of a connection reaches the node, that
  connection was announced as connected.\<close>

theorem handshake_first:
  assumes "switch_Start ln (switch_New listen advertise seeds (newNonce random clock)) = Some s0"
    and "sw_run s0 (s, cs, k)" and "i < length (sw_log s)" and "sw_log s ! i = Dispatched j fr"
  shows "Connected j \<in> set (take i (sw_log s))"
proof -
  note f = fresh_switch[OF assms(1)]
  have "ordered_log (sw_log s)" using sw_run_ordered[OF assms(2) f(1,2)] f(3) by (simp add: newNonce_nonzero)
  with assms(3,4) show ?thesis by (simp add: ordered_log_def)
qed

text \<open>C36: the address book of a running switch has no duplicates, and every address it learned after
  the start is dialable: not empty, not the unspecified host, not our own.\<close>

theorem learned_addresses:
  assumes "switch_Start ln (switch_New listen advertise seeds nonce) = Some s0" and "sw_run s0 (s, cs, k)"
  shows "distinct (KnownAddrs s) \<and> (\<forall>a \<in> set (KnownAddrs s) - set (KnownAddrs s0).
    a \<noteq> '''' \<and> \<not> isUnspecifiedAddr a \<and> \<not> isSelfAddr a s)"
proof -
  have "distinct (sw_known s0)"
    unfolding fresh_switch(6)[OF assms(1)] by (simp add: switch_New_def Let_def add_seeds_distinct)
  with sw_run_book[OF assms(2)] show ?thesis by (auto simp: KnownAddrs_def book_ok_def same_config_def isSelfAddr_def)
qed

end
