(* ===== verification/Positional.thy ===== *)
theory Positional
  imports Prelude "HOL-Library.List_Lexorder" "HOL-Library.Char_ord"
begin

text \<open>
  Positional notation, most significant digit first: what \<open>big.Int.SetBytes\<close>,
  \<open>big.Int.FillBytes\<close>, hex, base32 and decimal printing have in common. The main facts are the
  two round trips between a number and its digits, and that strings of digits of one length are
  ordered as the numbers they denote.
\<close>

subsection \<open>Digits and values\<close>

primrec base_digits :: "nat \<Rightarrow> nat \<Rightarrow> nat \<Rightarrow> nat list" where
  "base_digits b 0 n = []"
| "base_digits b (Suc k) n = base_digits b k (n div b) @ [n mod b]"

definition base_val :: "nat \<Rightarrow> nat list \<Rightarrow> nat" where
  "base_val b ds = foldl (\<lambda>a d. a * b + d) 0 ds"

lemma base_val_Nil [simp]: "base_val b [] = 0"
  by (simp add: base_val_def)

lemma base_val_snoc [simp]: "base_val b (ds @ [d]) = base_val b ds * b + d"
  by (simp add: base_val_def)

lemma base_val_append: "base_val b (xs @ ys) = base_val b xs * b ^ length ys + base_val b ys"
proof (induction ys rule: rev_induct)
  case (snoc y ys)
  then show ?case by (simp add: algebra_simps flip: append_assoc)
qed simp

lemma base_val_Cons: "base_val b (x # xs) = x * b ^ length xs + base_val b xs"
  using base_val_append[of b "[x]" xs] by (simp add: base_val_def)

lemma base_val_less: "\<forall>d \<in> set ds. d < b \<Longrightarrow> base_val b ds < b ^ length ds"
proof (induction ds rule: rev_induct)
  case (snoc d ds)
  then have "base_val b ds * b + d < (base_val b ds + 1) * b" by simp
  also have "\<dots> \<le> b ^ length ds * b" using snoc by (intro mult_right_mono) auto
  finally show ?case by (simp add: mult.commute)
qed simp

lemma length_base_digits [simp]: "length (base_digits b k n) = k"
  by (induction k arbitrary: n) simp_all

lemma base_digits_less: "0 < b \<Longrightarrow> d \<in> set (base_digits b k n) \<Longrightarrow> d < b"
  by (induction k arbitrary: n) auto

lemma base_val_digits: "base_val b (base_digits b k n) = n mod b ^ k"
proof (induction k arbitrary: n)
  case (Suc k)
  then show ?case by (simp add: mod_mult2_eq mult.commute)
qed simp

lemma base_digits_val:
  "\<forall>d \<in> set ds. d < b \<Longrightarrow> base_digits b (length ds) (base_val b ds) = ds"
  by (induction ds rule: rev_induct) auto

lemma base_digits_inject:
  "n < b ^ k \<Longrightarrow> m < b ^ k \<Longrightarrow> base_digits b k n = base_digits b k m \<Longrightarrow> n = m"
  by (metis base_val_digits mod_less)

lemma nth_base_digits: "i < k \<Longrightarrow> base_digits b k n ! i = n div b ^ (k - Suc i) mod b"
proof (induction k arbitrary: n)
  case (Suc k)
  show ?case
  proof (cases "i = k")
    case False
    with Suc.prems have "i < k" by simp
    then have "k - i = Suc (k - Suc i)" by simp
    with Suc.IH[OF \<open>i < k\<close>, of "n div b"] \<open>i < k\<close> show ?thesis
      by (simp add: nth_append div_mult2_eq)
  qed (simp add: nth_append)
qed simp

text \<open>Digits of one length compare as their values.\<close>

lemma base_val_less_iff:
  assumes "length xs = length ys" and "\<forall>d \<in> set xs. d < b" and "\<forall>d \<in> set ys. d < b"
  shows "base_val b xs < base_val b ys \<longleftrightarrow> xs < ys"
  using assms
proof (induction xs ys rule: list_induct2)
  case (Cons x xs y ys)
  have bounds: "base_val b xs < b ^ length ys" "base_val b ys < b ^ length ys"
    using base_val_less[of xs b] base_val_less[of ys b] Cons by simp_all
  have less: "x' * b ^ length ys + v < y' * b ^ length ys + w"
    if "x' < y'" "v < b ^ length ys" for x' y' v w
  proof -
    have "x' * b ^ length ys + v < Suc x' * b ^ length ys" using that(2) by simp
    also have "\<dots> \<le> y' * b ^ length ys" using that(1) by (intro mult_right_mono) auto
    finally show ?thesis by simp
  qed
  consider "x < y" | "y < x" | "x = y" by linarith
  then show ?case
  proof cases
    case 1
    then show ?thesis using less[of x y] bounds Cons(1) by (simp add: base_val_Cons)
  next
    case 2
    then have "\<not> base_val b (x # xs) < base_val b (y # ys)"
      using less[of y x "base_val b ys" "base_val b xs"] bounds Cons(1)
      by (simp add: base_val_Cons)
    with 2 show ?thesis by simp
  next
    case 3
    with Cons show ?thesis by (simp add: base_val_Cons)
  qed
qed simp

text \<open>A strictly monotone rendering of the digits keeps the order.\<close>

lemma map_less_iff:
  assumes "\<And>x y. x \<in> A \<Longrightarrow> y \<in> A \<Longrightarrow> f x < f y \<longleftrightarrow> x < (y :: 'a :: linorder)"
    and "length xs = length ys" and "set xs \<subseteq> A" and "set ys \<subseteq> A"
  shows "map f xs < (map f ys :: 'b :: linorder list) \<longleftrightarrow> xs < ys"
  using assms(2-)
proof (induction xs ys rule: list_induct2)
  case (Cons x xs y ys)
  have "f x = f y \<longleftrightarrow> x = y"
    using assms(1)[of x y] assms(1)[of y x] Cons.prems by (metis antisym_conv3 insert_subset list.simps(15) order_less_irrefl)
  with Cons assms(1)[of x y] show ?case by auto
qed simp

subsection \<open>Bytes as digits\<close>

text \<open>\<open>big.Int.SetBytes\<close> reads big-endian bytes, \<open>big.Int.FillBytes\<close> writes them.\<close>

definition SetBytes :: "bytes \<Rightarrow> nat" where
  "SetBytes bs = base_val 256 (map unat bs)"

definition FillBytes :: "nat \<Rightarrow> nat \<Rightarrow> bytes" where
  "FillBytes k n = map of_nat (base_digits 256 k n)"

lemma unat_byte_less: "unat (b :: byte) < 256"
proof -
  have "unat b < 2 ^ LENGTH(8)" by (rule unsigned_less)
  then show ?thesis by simp
qed

lemma map_unat_eq_iff: "map unat xs = map unat (ys :: 'a::len word list) \<longleftrightarrow> xs = ys"
  by (rule inj_map_eq_map) (auto intro: injI simp: word_unat_eq_iff)

lemma map_unat_less: "\<forall>d \<in> set (map unat (bs :: bytes)). d < 256"
  by (auto simp: unat_byte_less)

lemma length_FillBytes [simp]: "length (FillBytes k n) = k"
  by (simp add: FillBytes_def)

lemma map_unat_FillBytes [simp]: "map unat (FillBytes k n) = base_digits 256 k n"
proof -
  have "unat (of_nat d :: byte) = d" if "d \<in> set (base_digits 256 k n)" for d
    using that base_digits_less[of 256 d k n] by (simp add: unat_of_nat)
  then have "map (unat \<circ> (of_nat :: nat \<Rightarrow> byte)) (base_digits 256 k n) = map id (base_digits 256 k n)"
    by (intro map_cong) auto
  then show ?thesis by (simp add: FillBytes_def)
qed

lemma SetBytes_FillBytes: "SetBytes (FillBytes k n) = n mod 256 ^ k"
  by (simp add: SetBytes_def base_val_digits)

lemma FillBytes_SetBytes: "FillBytes (length bs) (SetBytes bs) = bs"
proof -
  have "map unat (FillBytes (length bs) (SetBytes bs)) = map unat bs"
    using base_digits_val[OF map_unat_less[of bs]] by (simp add: SetBytes_def)
  then show ?thesis by (simp only: map_unat_eq_iff)
qed

lemma SetBytes_less: "SetBytes bs < 256 ^ length bs"
  using base_val_less[OF map_unat_less, of bs] by (simp add: SetBytes_def)

lemma SetBytes_inject: "length xs = length ys \<Longrightarrow> SetBytes xs = SetBytes ys \<Longrightarrow> xs = ys"
  by (metis FillBytes_SetBytes)

lemma be_bytes_FillBytes:
  fixes w :: "'a::len word"
  shows "be_bytes n w = FillBytes n (unat w)"
proof (rule nth_equalityI)
  fix i
  assume "i < length (be_bytes n w)"
  then have i: "i < n" by simp
  have "unat (be_bytes n w ! i) = unat w div 2 ^ (8 * (n - Suc i)) mod 256"
    using i by (simp add: unsigned_ucast_eq unat_drop_bit_eq take_bit_eq_mod del: drop_bit_eq_div)
      (simp add: drop_bit_eq_div)
  also have "\<dots> = base_digits 256 n (unat w) ! i"
    using i by (simp add: nth_base_digits power_mult)
  also have "\<dots> = map unat (FillBytes n (unat w)) ! i" by simp
  also have "\<dots> = unat (FillBytes n (unat w) ! i)" using i by (simp del: map_unat_FillBytes)
  finally show "be_bytes n w ! i = FillBytes n (unat w) ! i" by (simp add: word_unat_eq_iff)
qed simp

lemma SetBytes_be_bytes: "SetBytes (be_bytes n (w :: 'a::len word)) = unat w mod 256 ^ n"
  by (simp add: be_bytes_FillBytes SetBytes_FillBytes)

text \<open>A hash as a number: \<open>new(big.Int).SetBytes(h[:])\<close> is the word itself.\<close>

lemma SetBytes_hash [simp]: "SetBytes (hash_bytes h) = unat h"
proof -
  have "unat h < 2 ^ LENGTH(256)" by (rule unsigned_less)
  then have "unat h < 256 ^ 32" by simp
  then show ?thesis unfolding hash_bytes_def SetBytes_be_bytes by (rule mod_less)
qed

definition hash_of_bytes :: "bytes \<Rightarrow> hash" where
  "hash_of_bytes bs = of_nat (SetBytes bs)"

lemma hash_of_bytes_hash_bytes [simp]: "hash_of_bytes (hash_bytes h) = h"
  by (simp add: hash_of_bytes_def)

lemma hash_bytes_of_bytes: "length bs = 32 \<Longrightarrow> hash_bytes (hash_of_bytes bs) = bs"
proof -
  assume l: "length bs = 32"
  then have "SetBytes bs < 2 ^ 256" using SetBytes_less[of bs] by simp
  then have "unat (hash_of_bytes bs) = SetBytes bs"
    by (simp add: hash_of_bytes_def unat_of_nat)
  then have "SetBytes (hash_bytes (hash_of_bytes bs)) = SetBytes bs" by simp
  then show ?thesis using l by (intro SetBytes_inject) simp_all
qed

end
