(* ===== verification/Amount.thy ===== *)
theory Amount
  imports Positional
begin

text \<open>
  \<open>FormatAmount\<close> and \<open>ParseAmount\<close> of \<open>internal/chain/params.go\<close>: bluglets to a decimal BLG
  string and back. The string functions of Go's library that they use (\<open>TrimSpace\<close>,
  \<open>ContainsAny\<close>, \<open>Cut\<close>, \<open>ParseUint\<close>, \<open>Sprintf\<close> of \<open>%d\<close> and \<open>%08d\<close>) are modelled on the bytes
  of the string.
\<close>

definition Bluglets :: u64 where
  "Bluglets = 100000000"

subsection \<open>Decimal digits\<close>

definition digit_char :: "nat \<Rightarrow> char" where
  "digit_char d = char_of (48 + d)"

definition is_digit :: "char \<Rightarrow> bool" where
  "is_digit c \<longleftrightarrow> (let n = of_char c :: nat in 48 \<le> n \<and> n \<le> 57)"

definition digit_val :: "char \<Rightarrow> nat" where
  "digit_val c = of_char c - 48"

fun dec_digits :: "nat \<Rightarrow> nat list" where
  "dec_digits n = (if n < 10 then [n] else dec_digits (n div 10) @ [n mod 10])"

declare dec_digits.simps [simp del]

text \<open>\<open>%d\<close> and \<open>%08d\<close>.\<close>

definition fmt_d :: "nat \<Rightarrow> string" where
  "fmt_d n = map digit_char (dec_digits n)"

definition fmt_08d :: "nat \<Rightarrow> string" where
  "fmt_08d n = replicate (8 - length (fmt_d n)) (CHR ''0'') @ fmt_d n"

definition FormatAmount :: "u64 \<Rightarrow> string" where
  "FormatAmount a = fmt_d (unat (a div Bluglets)) @ ''.'' @ fmt_08d (unat (a mod Bluglets))"

subsection \<open>Parsing\<close>

text \<open>The UTF-8 encodings of the white space of \<open>unicode.IsSpace\<close>.\<close>

definition space_runes :: "string list" where
  "space_runes = map (map char_of) ([[9], [10], [11], [12], [13], [32], [194, 133], [194, 160],
     [225, 154, 128]] @ map (\<lambda>k. [226, 128, 128 + k]) [0..<11] @
     [[226, 128, 168], [226, 128, 169], [226, 128, 175], [226, 129, 159], [227, 128, 128 :: nat]])"

function trim_prefix :: "string list \<Rightarrow> string \<Rightarrow> string" where
  "trim_prefix rs s = (case find (\<lambda>r. r \<noteq> [] \<and> s \<noteq> [] \<and> take (length r) s = r) rs of
     None \<Rightarrow> s
   | Some r \<Rightarrow> trim_prefix rs (drop (length r) s))"
  by pat_completeness auto
termination
  by (relation "measure (\<lambda>(rs, s). length s)") (auto dest!: find_Some_iff[THEN iffD1])

declare trim_prefix.simps [simp del]

definition TrimSpace :: "string \<Rightarrow> string" where
  "TrimSpace s = rev (trim_prefix (map rev space_runes) (rev (trim_prefix space_runes s)))"

definition ContainsAny :: "string \<Rightarrow> string \<Rightarrow> bool" where
  "ContainsAny s chars \<longleftrightarrow> list_ex (\<lambda>c. List.member chars c) s"

definition Cut :: "string \<Rightarrow> char \<Rightarrow> string \<times> string \<times> bool" where
  "Cut s sep = (takeWhile (\<lambda>c. c \<noteq> sep) s, drop 1 (dropWhile (\<lambda>c. c \<noteq> sep) s), List.member s sep)"

text \<open>\<open>strconv.ParseUint(s, 10, 64)\<close>; \<open>None\<close> is a syntax or a range error.\<close>

definition ParseUint :: "string \<Rightarrow> u64 option" where
  "ParseUint s = (if s = [] \<or> \<not> list_all is_digit s then None
     else let n = base_val 10 (map digit_val s) in if n < 2 ^ 64 then Some (of_nat n) else None)"

datatype amount_error = InvalidAmount | TooManyDecimals | AmountOverflow

definition ParseAmount :: "string \<Rightarrow> amount_error + u64" where
  "ParseAmount s0 = (let s = TrimSpace s0 in
     if s = '''' \<or> ContainsAny s ''-+eE'' then Inl InvalidAmount
     else case Cut s (CHR ''.'') of (wholePart, fracPart, hasFrac) \<Rightarrow>
       if hasFrac \<and> length fracPart > 8 then Inl TooManyDecimals
       else case ParseUint wholePart of
         None \<Rightarrow> Inl InvalidAmount
       | Some whole \<Rightarrow>
           (case (if hasFrac then ParseUint (fracPart @ replicate (8 - length fracPart) (CHR ''0''))
                  else Some 0) of
              None \<Rightarrow> Inl InvalidAmount
            | Some frac \<Rightarrow>
                if whole > (0xFFFFFFFFFFFFFFFF - frac) div Bluglets then Inl AmountOverflow
                else Inr (whole * Bluglets + frac)))"

subsection \<open>Digits of a number\<close>

lemma dec_digits_less: "d \<in> set (dec_digits n) \<Longrightarrow> d < 10"
proof (induction n rule: dec_digits.induct)
  case (1 n)
  then show ?case by (cases "n < 10") (auto simp: dec_digits.simps[of n])
qed

lemma base_val_dec_digits: "base_val 10 (dec_digits n) = n"
proof (induction n rule: dec_digits.induct)
  case (1 n)
  show ?case
  proof (cases "n < 10")
    case True
    then show ?thesis by (simp add: dec_digits.simps[of n] base_val_Cons)
  next
    case False
    with 1 show ?thesis by (simp add: dec_digits.simps[of n])
  qed
qed

lemma dec_digits_nonempty [simp]: "dec_digits n \<noteq> []"
  by (subst dec_digits.simps) simp

lemma length_dec_digits: "n < 10 ^ Suc k \<Longrightarrow> length (dec_digits n) \<le> Suc k"
proof (induction k arbitrary: n)
  case 0
  then show ?case by (simp add: dec_digits.simps[of n])
next
  case (Suc k)
  then have "n div 10 < 10 ^ Suc k" by (simp add: less_mult_imp_div_less mult.commute)
  with Suc.IH[of "n div 10"] show ?case by (simp add: dec_digits.simps[of n])
qed

lemma digit_char_facts: "d < 10 \<Longrightarrow> is_digit (digit_char d) \<and> digit_val (digit_char d) = d"
  by (simp add: is_digit_def digit_char_def digit_val_def)

lemma fmt_d_digits: "list_all is_digit (fmt_d n)"
  using dec_digits_less digit_char_facts by (auto simp: fmt_d_def list_all_iff)

lemma fmt_d_val: "map digit_val (fmt_d n) = dec_digits n"
  using dec_digits_less digit_char_facts by (auto simp: fmt_d_def intro!: map_idI)

lemma base_val_zeros: "base_val b (replicate k 0 @ ds) = base_val b ds"
  by (induction k) (simp_all add: base_val_Cons)

lemma fmt_08d_facts:
  assumes "n < 10 ^ 8"
  shows "length (fmt_08d n) = 8" and "list_all is_digit (fmt_08d n)"
    and "base_val 10 (map digit_val (fmt_08d n)) = n"
proof -
  have "length (fmt_d n) \<le> 8" using length_dec_digits[of n 7] assms by (simp add: fmt_d_def)
  then show "length (fmt_08d n) = 8" by (simp add: fmt_08d_def)
  have zero: "is_digit (CHR ''0'')" "digit_val (CHR ''0'') = 0"
    by (simp_all add: is_digit_def digit_val_def)
  show "list_all is_digit (fmt_08d n)"
    using fmt_d_digits zero by (auto simp: fmt_08d_def list_all_iff)
  show "base_val 10 (map digit_val (fmt_08d n)) = n"
    by (simp add: fmt_08d_def zero fmt_d_val base_val_zeros base_val_dec_digits)
qed

subsection \<open>Round trip\<close>

text \<open>No white space starts or ends with a digit, so a formatted amount is not trimmed.\<close>

lemma trim_prefix_digit:
  assumes "list_all (\<lambda>r. r = [] \<or> \<not> is_digit (hd r)) rs" and "is_digit (hd s)" and "s \<noteq> []"
  shows "trim_prefix rs s = s"
proof -
  have "find (\<lambda>r. r \<noteq> [] \<and> s \<noteq> [] \<and> take (length r) s = r) rs = None"
  proof (unfold find_None_iff, rule notI, elim exE conjE)
    fix r
    assume r: "r \<in> set rs" "r \<noteq> []" "take (length r) s = r"
    then have "hd r = hd s" by (metis hd_take length_greater_0_conv)
    with assms r show False by (auto simp: list_all_iff)
  qed
  then show ?thesis by (simp add: trim_prefix.simps[of rs s])
qed

lemma space_runes_no_digit:
  "list_all (\<lambda>r. r = [] \<or> \<not> is_digit (hd r)) space_runes"
  "list_all (\<lambda>r. r = [] \<or> \<not> is_digit (hd r)) (map rev space_runes)"
  by (simp_all add: space_runes_def is_digit_def upt_rec)

lemma TrimSpace_digits:
  "s \<noteq> [] \<Longrightarrow> is_digit (hd s) \<Longrightarrow> is_digit (last s) \<Longrightarrow> TrimSpace s = s"
  by (simp add: TrimSpace_def trim_prefix_digit space_runes_no_digit hd_rev)

lemma not_digit_chars: "\<not> is_digit (CHR ''.'')" "\<not> is_digit (CHR ''-'')" "\<not> is_digit (CHR ''+'')"
  "\<not> is_digit (CHR ''e'')" "\<not> is_digit (CHR ''E'')"
  by (simp_all add: is_digit_def)

lemma Cut_digits:
  "list_all is_digit w \<Longrightarrow> Cut (w @ CHR ''.'' # f) (CHR ''.'') = (w, f, True)"
proof -
  assume "list_all is_digit w"
  then have "\<forall>c \<in> set w. c \<noteq> CHR ''.''" using not_digit_chars by (auto simp: list_all_iff)
  then show ?thesis
    by (simp add: Cut_def takeWhile_append2 dropWhile_append2 takeWhile_tail)
qed

lemma ParseUint_value:
  "s \<noteq> [] \<Longrightarrow> list_all is_digit s \<Longrightarrow> base_val 10 (map digit_val s) = unat (n :: u64) \<Longrightarrow> ParseUint s = Some n"
proof -
  have "unat n < 2 ^ LENGTH(64)" by (rule unsigned_less)
  then show "s \<noteq> [] \<Longrightarrow> list_all is_digit s \<Longrightarrow> base_val 10 (map digit_val s) = unat n \<Longrightarrow> ParseUint s = Some n"
    by (simp add: ParseUint_def)
qed

lemma amount_split:
  fixes a :: u64
  shows "a div Bluglets * Bluglets + a mod Bluglets = a"
    and "a div Bluglets \<le> (0xFFFFFFFFFFFFFFFF - a mod Bluglets) div Bluglets"
    and "unat (a mod Bluglets) < 10 ^ 8"
proof -
  show "a div Bluglets * Bluglets + a mod Bluglets = a" by (rule word_mod_div_equality)
  have m: "unat (a mod Bluglets) = unat a mod 100000000"
    and d: "unat (a div Bluglets) = unat a div 100000000"
    by (simp_all add: Bluglets_def unat_mod unat_div)
  then show "unat (a mod Bluglets) < 10 ^ 8" by simp
  have "unat a < 2 ^ LENGTH(64)" by (rule unsigned_less)
  then have a: "unat a \<le> 18446744073709551615" by simp
  have "unat (0xFFFFFFFFFFFFFFFF - a mod Bluglets) = 18446744073709551615 - unat a mod 100000000"
    using m by (subst unat_sub) (simp_all add: word_le_nat_alt)
  moreover have "unat a div 100000000 * 100000000 \<le> 18446744073709551615 - unat a mod 100000000"
    using a div_mult_mod_eq[of "unat a" 100000000] by linarith
  then have "unat a div 100000000 \<le> (18446744073709551615 - unat a mod 100000000) div 100000000"
    by (simp add: less_eq_div_iff_mult_less_eq)
  ultimately show "a div Bluglets \<le> (0xFFFFFFFFFFFFFFFF - a mod Bluglets) div Bluglets"
    by (simp add: word_le_nat_alt d unat_div) (simp add: Bluglets_def)
qed

lemma ParseAmount_round: "ParseAmount (FormatAmount a) = Inr a"
proof -
  let ?w = "fmt_d (unat (a div Bluglets))" and ?f = "fmt_08d (unat (a mod Bluglets))"
  note f = fmt_08d_facts[OF amount_split(3)[of a]]
  have w: "?w \<noteq> []" "list_all is_digit ?w" by (simp_all add: fmt_d_def) (simp flip: fmt_d_def add: fmt_d_digits)
  have fne: "?f \<noteq> []" using f(1) by auto
  have "is_digit (hd ?w)" using w by (cases ?w) simp_all
  moreover have "is_digit (last ?f)" using f(2) fne by (simp add: list_all_iff)
  ultimately have trim: "TrimSpace (FormatAmount a) = ?w @ CHR ''.'' # ?f"
    using w(1) fne by (subst TrimSpace_digits) (simp_all add: FormatAmount_def)
  have "\<not> ContainsAny (?w @ CHR ''.'' # ?f) ''-+eE''"
    using w(2) f(2) not_digit_chars by (auto simp: ContainsAny_def list_ex_iff list_all_iff)
  moreover have "ParseUint ?w = Some (a div Bluglets)"
    using w by (intro ParseUint_value) (simp_all add: fmt_d_val base_val_dec_digits)
  moreover have "ParseUint ?f = Some (a mod Bluglets)"
    using f fne by (intro ParseUint_value) simp_all
  ultimately show ?thesis
    using amount_split[of a] f(1) w(1)
    by (simp add: ParseAmount_def trim Cut_digits[OF w(2)] Let_def not_less)
qed

text \<open>C37: amounts survive the trip through text: what \<open>FormatAmount\<close> prints, \<open>ParseAmount\<close> reads back, for every
  64-bit amount, so that no two amounts are printed alike.\<close>

theorem ParseAmount_FormatAmount: "ParseAmount (FormatAmount a) = Inr a \<and> inj FormatAmount"
proof (intro conjI injI ParseAmount_round)
  fix b c assume "FormatAmount b = FormatAmount c"
  then have "ParseAmount (FormatAmount b) = ParseAmount (FormatAmount c)" by (rule arg_cong)
  then show "b = c" unfolding ParseAmount_round by (rule sum.inject(2)[THEN iffD1])
qed

end
