(* ===== verification/SwitchLimit.thy ===== *)
theory SwitchLimit
  imports SwitchRun Amount
begin

text \<open>
  Runs of the switch on concrete connections: the witnesses of its properties, and the run in which
  connections accepted before any of them has registered outnumber \<open>MaxPeers\<close>.
\<close>

subsection \<open>Many connections at once\<close>

text \<open>Ports of one host, and the connections accepted from them before their handshake.\<close>

definition client_addr :: "nat \<Rightarrow> string" where
  "client_addr k = ''198.51.100.7:'' @ fmt_d k"

definition client :: "nat \<Rightarrow> link" where
  "client k = \<lparr> l_id = k, l_Dial = client_addr k, l_Advert = '''', l_Nonce = 0, l_Height = 0, l_handshook = False \<rparr>"

text \<open>The handshake of a client that gives no nonce and no address.\<close>

definition anonymous :: frame where
  "anonymous = \<lparr> f_Type = ''version'', f_version = Some \<lparr> v_Protocol = ProtocolVersion, v_ListenAddr = '''', v_Height = 0, v_Nonce = 0 \<rparr>,
     f_addrs = None \<rparr>"

lemma client_addr_inject [simp]: "client_addr j = client_addr k \<longleftrightarrow> j = k"
  unfolding client_addr_def by (metis append_eq_conv_conj base_val_dec_digits fmt_d_val)

lemma clients_accepted:
  assumes "sw_peers s0 = []" and "sw_MaxPeers s0 = 32"
  shows "\<exists>s. sw_run s0 (s, map client (rev [0..<n]), n) \<and> s\<lparr>sw_log := []\<rparr> = s0\<lparr>sw_log := []\<rparr>"
proof (induction n)
  case 0
  show ?case using sw_run.start by auto
next
  case (Suc n)
  then obtain s where s: "sw_run s0 (s, map client (rev [0..<n]), n)" "s\<lparr>sw_log := []\<rparr> = s0\<lparr>sw_log := []\<rparr>" by blast
  then have eqs: "sw_peers s = []" "sw_MaxPeers s = 32" using assms by (metis switch.select_convs switch.update_convs(10) switch.surjective)+
  then have "\<not> full s" by (simp add: full_def)
  moreover obtain s' where op: "open_conn n (client_addr n) '''' 0 True s = (Some (client n), s')" and s': "s' = log_event (SentVersion n
      \<lparr> v_Protocol = ProtocolVersion, v_ListenAddr = sw_Advertise s, v_Height = 0, v_Nonce = sw_Nonce s \<rparr>) s"
    by (simp add: open_conn_def client_def)
  ultimately have "sw_run s0 (s', client n # map client (rev [0..<n]), Suc n)"
    using sw_run.opened[OF s(1) _ op] by simp
  moreover have "s'\<lparr>sw_log := []\<rparr> = s0\<lparr>sw_log := []\<rparr>" using s(2) by (simp add: s' log_event_def)
  ultimately show ?case by auto
qed

lemma update_fresh: "d \<notin> set (map fst m) \<Longrightarrow> AList.update d p m = m @ [(d, p)]"
  by (induction m) auto

lemma nothing_learned: "addKnownFromPeer [] s = s"
  by (simp add: addKnownFromPeer_def AddKnown_def)

text \<open>The handshake of a waiting client, when no other peer has its address.\<close>

lemma anonymous_joins:
  assumes "client_addr k \<notin> set (map fst (sw_peers s))" and "\<not> sw_closed s"
    and "sw_Advertise s \<noteq> ''''" and "sw_Listen s \<noteq> ''''" and "sw_ln s \<noteq> Some ''''"
  shows "serve_frame (Some anonymous) (client k) s =
    (Some (client k\<lparr>l_handshook := True\<rparr>), log_event (Connected k)
      (s\<lparr>sw_peers := sw_peers s @ [(client_addr k, client k\<lparr>l_handshook := True\<rparr>)]\<rparr>))"
proof -
  have self: "\<not> isSelf \<lparr> v_Protocol = ProtocolVersion, v_ListenAddr = '''', v_Height = 0, v_Nonce = 0 \<rparr> s"
    using assms(3-5) by (auto simp: isSelf_def isSelfAddr_def)
  have "map_of (sw_peers s) (client_addr k) = None" using assms(1) by (metis map_of_eq_None_iff list.set_map)
  moreover have "AList.update (client_addr k) p (sw_peers s) = sw_peers s @ [(client_addr k, p)]" for p
    by (rule update_fresh[OF assms(1)])
  ultimately have reg: "register (client k\<lparr>l_handshook := True\<rparr>) s =
      (True, s\<lparr>sw_peers := sw_peers s @ [(client_addr k, client k\<lparr>l_handshook := True\<rparr>)]\<rparr>)"
    using assms(2) by (simp add: register_def client_def)
  have cl: "\<not> l_handshook (client k)" "l_id (client k\<lparr>l_handshook := True\<rparr>) = k"
    "client k\<lparr>l_Advert := '''', l_Nonce := 0, l_Height := 0, l_handshook := True\<rparr> = client k\<lparr>l_handshook := True\<rparr>"
    by (simp_all add: client_def)
  have "serve_frame (Some anonymous) (client k) s = (case register (client k\<lparr>l_handshook := True\<rparr>) s of (ok, s) \<Rightarrow>
      if \<not> ok then (None, dropPeer (client k\<lparr>l_handshook := True\<rparr>) s)
      else (Some (client k\<lparr>l_handshook := True\<rparr>), log_event (Connected (l_id (client k\<lparr>l_handshook := True\<rparr>)))
        (addKnownFromPeer (v_ListenAddr \<lparr> v_Protocol = ProtocolVersion, v_ListenAddr = '''', v_Height = 0, v_Nonce = 0 \<rparr>) s)))"
    using cl self by (simp add: serve_frame_def anonymous_def Let_def)
  then show ?thesis unfolding reg prod.case version.select_convs nothing_learned by (simp only: simp_thms if_True if_False cl(2))
qed

lemma same_rest:
  assumes "s\<lparr>sw_peers := [], sw_log := []\<rparr> = s0\<lparr>sw_log := []\<rparr>"
  shows "sw_closed s = sw_closed s0" and "sw_Advertise s = sw_Advertise s0" and "sw_Listen s = sw_Listen s0"
    and "sw_ln s = sw_ln s0" and "sw_MaxPeers s = sw_MaxPeers s0"
  using arg_cong[OF assms, of sw_closed] arg_cong[OF assms, of sw_Advertise] arg_cong[OF assms, of sw_Listen]
    arg_cong[OF assms, of sw_ln] arg_cong[OF assms, of sw_MaxPeers] by simp_all

lemma clients_join:
  assumes s0: "sw_peers s0 = []" "sw_MaxPeers s0 = 32" "\<not> sw_closed s0"
      "sw_Advertise s0 \<noteq> ''''" "sw_Listen s0 \<noteq> ''''" "sw_ln s0 \<noteq> Some ''''" and "i \<le> n"
  shows "\<exists>s cs. sw_run s0 (s, cs, n) \<and> map fst (sw_peers s) = map client_addr [0..<i]
    \<and> s\<lparr>sw_peers := [], sw_log := []\<rparr> = s0\<lparr>sw_log := []\<rparr> \<and> (\<forall>k. i \<le> k \<and> k < n \<longrightarrow> client k \<in> set cs)"
  using \<open>i \<le> n\<close>
proof (induction i)
  case 0
  obtain s where s: "sw_run s0 (s, map client (rev [0..<n]), n)" "s\<lparr>sw_log := []\<rparr> = s0\<lparr>sw_log := []\<rparr>"
    using clients_accepted[OF s0(1,2)] by blast
  then have "sw_peers s = []" using s0(1) by (metis switch.select_convs(5) switch.update_convs(10) switch.surjective)
  then have "s\<lparr>sw_peers := [], sw_log := []\<rparr> = s\<lparr>sw_log := []\<rparr>" by (cases s) simp
  with s \<open>sw_peers s = []\<close> show ?case by (intro exI[of _ s] exI[of _ "map client (rev [0..<n])"]) auto
next
  case (Suc i)
  from Suc.IH[OF Suc_leD[OF Suc.prems]] obtain s cs where s: "sw_run s0 (s, cs, n)" "map fst (sw_peers s) = map client_addr [0..<i]"
    "s\<lparr>sw_peers := [], sw_log := []\<rparr> = s0\<lparr>sw_log := []\<rparr>" "\<forall>k. i \<le> k \<and> k < n \<longrightarrow> client k \<in> set cs" by blast
  have eqs: "\<not> sw_closed s" "sw_Advertise s \<noteq> ''''" "sw_Listen s \<noteq> ''''" "sw_ln s \<noteq> Some ''''"
    using s0(3-6) by (simp_all add: same_rest[OF s(3)])
  have free: "client_addr i \<notin> set (map fst (sw_peers s))" by (auto simp: s(2))
  have "client i \<in> set cs" using s(4) Suc.prems by simp
  from sw_run.frame[OF s(1) this, of "Some anonymous"] anonymous_joins[OF free eqs]
  have "sw_run s0 (log_event (Connected i) (s\<lparr>sw_peers := sw_peers s @ [(client_addr i, client i\<lparr>l_handshook := True\<rparr>)]\<rparr>),
      client i\<lparr>l_handshook := True\<rparr> # without i cs, n)"
    by (simp add: after_frame_def client_def)
  moreover have "client k \<in> set (without i cs)" if "Suc i \<le> k" "k < n" for k
    using s(4) that by (simp add: client_def)
  ultimately show ?case using s(2,3) s0(1)
    by (intro exI[of _ "log_event (Connected i) (s\<lparr>sw_peers := sw_peers s @ [(client_addr i, client i\<lparr>l_handshook := True\<rparr>)]\<rparr>)"]
          exI[of _ "client i\<lparr>l_handshook := True\<rparr> # without i cs"]) (simp add: log_event_def)
qed

subsection \<open>A switch of the main network\<close>

definition demo_switch :: switch where
  "demo_switch = the (switch_Start (Some ''0.0.0.0:9333'')
     (switch_New ''0.0.0.0:9333'' ''203.0.113.5:9333'' [''seed.example:9333''] (newNonce None 7)))"

lemma demo_switch_starts:
  "switch_Start (Some ''0.0.0.0:9333'') (switch_New ''0.0.0.0:9333'' ''203.0.113.5:9333'' [''seed.example:9333''] (newNonce None 7))
    = Some demo_switch"
  by (simp add: demo_switch_def switch_Start_def)

lemma demo_switch_fields:
  "sw_peers demo_switch = []" "sw_MaxPeers demo_switch = 32" "\<not> sw_closed demo_switch" "sw_Nonce demo_switch = 7"
  "sw_Advertise demo_switch = ''203.0.113.5:9333''" "sw_Listen demo_switch = ''0.0.0.0:9333''"
  "sw_ln demo_switch = Some ''0.0.0.0:9333''" "sw_log demo_switch = []" "sw_known demo_switch = [''seed.example:9333'']"
  by (simp_all add: demo_switch_def switch_Start_def switch_New_def newNonce_def Let_def)

text \<open>C40: \<open>MaxPeers\<close> is no bound: the accept loop and the dial loop look at the table before the
  handshake and \<open>register\<close> does not look again, so connections accepted together can all join; here
  33 peers share a table of 32.\<close>

theorem MaxPeers_exceeded:
  "\<exists>s cs k. sw_run demo_switch (s, cs, k) \<and> int (PeerCount s) > sw_MaxPeers s"
proof -
  obtain s cs where s: "sw_run demo_switch (s, cs, 33)" "map fst (sw_peers s) = map client_addr [0..<33]"
    "s\<lparr>sw_peers := [], sw_log := []\<rparr> = demo_switch\<lparr>sw_log := []\<rparr>"
    using clients_join[of demo_switch 33 33] demo_switch_fields by auto
  have "length (map fst (sw_peers s)) = 33" unfolding s(2) by simp
  moreover have "sw_MaxPeers s = sw_MaxPeers demo_switch" by (rule same_rest(5)[OF s(3)])
  ultimately show ?thesis using s(1) demo_switch_fields(2) unfolding PeerCount_def
    by (intro exI[of _ s] exI[of _ cs] exI[of _ 33]) simp
qed

text \<open>A run with one peer whose second frame is a message for the node.\<close>

definition hello :: frame where
  "hello = \<lparr> f_Type = ''version'', f_version = Some \<lparr> v_Protocol = 2, v_ListenAddr = ''198.51.100.9:9333'', v_Height = 5, v_Nonce = 9 \<rparr>,
     f_addrs = None \<rparr>"

definition mempool_request :: frame where
  "mempool_request = \<lparr> f_Type = ''getmempool'', f_version = None, f_addrs = None \<rparr>"

definition demo_peer :: link where
  "demo_peer = \<lparr> l_id = 0, l_Dial = ''198.51.100.9:50000'', l_Advert = ''198.51.100.9:9333'', l_Nonce = 9, l_Height = 5,
     l_handshook = True \<rparr>"


definition demo_waiting :: link where
  "demo_waiting = \<lparr> l_id = 0, l_Dial = ''198.51.100.9:50000'', l_Advert = '''', l_Nonce = 0, l_Height = 0, l_handshook = False \<rparr>"

definition demo_opened :: switch where
  "demo_opened = snd (open_conn 0 ''198.51.100.9:50000'' '''' 0 True demo_switch)"

definition demo_joined :: switch where
  "demo_joined = snd (serve_frame (Some hello) demo_waiting demo_opened)"

definition demo_served :: switch where
  "demo_served = snd (serve_frame (Some mempool_request) demo_peer demo_joined)"

lemma demo_steps:
  "\<not> full demo_switch" "fst (open_conn 0 ''198.51.100.9:50000'' '''' 0 True demo_switch) = Some demo_waiting"
  "fst (serve_frame (Some hello) demo_waiting demo_opened) = Some demo_peer"
  "fst (serve_frame (Some mempool_request) demo_peer demo_joined) = Some demo_peer"
  by code_simp+

lemma demo_run: "sw_run demo_switch (demo_served, [demo_peer], 1)"
proof -
  have "open_conn 0 ''198.51.100.9:50000'' '''' 0 True demo_switch = (Some demo_waiting, demo_opened)"
    using demo_steps(2) by (simp add: demo_opened_def prod_eq_iff)
  from sw_run.opened[OF sw_run.start demo_steps(1) this]
  have "sw_run demo_switch (demo_opened, [demo_waiting], 1)" by simp
  from sw_run.frame[OF this, of demo_waiting "Some hello"] demo_steps(3)
  have "sw_run demo_switch (demo_joined, [demo_peer], 1)"
    by (simp add: after_frame_def demo_joined_def without_def demo_waiting_def split: prod.splits)
  from sw_run.frame[OF this, of demo_peer "Some mempool_request"] demo_steps(4)
  show ?thesis by (simp add: after_frame_def demo_served_def without_def demo_peer_def split: prod.splits)
qed

lemma demo_served_facts:
  "map_of (sw_peers demo_served) ''198.51.100.9:50000'' = Some demo_peer"
  "length (sw_log demo_served) = 3" "sw_log demo_served ! 2 = Dispatched 0 mempool_request"
  "KnownAddrs demo_served = [''seed.example:9333'', ''198.51.100.9:9333'']"
  by code_simp+


theorem peers_are_distinct_witness:
  "l_Dial demo_peer = ''198.51.100.9:50000'' \<and> l_handshook demo_peer \<and> demo_peer \<in> set [demo_peer]
    \<and> l_Nonce demo_peer \<noteq> newNonce None 7"
  using peers_are_distinct[OF demo_switch_starts demo_run demo_served_facts(1)] by blast

theorem handshake_first_witness: "Connected 0 \<in> set (take 2 (sw_log demo_served))"
  by (rule handshake_first[OF demo_switch_starts demo_run _ demo_served_facts(3)]) (simp add: demo_served_facts(2))

theorem learned_addresses_witness:
  "distinct (KnownAddrs demo_served) \<and> \<not> isUnspecifiedAddr ''198.51.100.9:9333''
    \<and> \<not> isSelfAddr ''198.51.100.9:9333'' demo_served"
proof -
  have "''198.51.100.9:9333'' \<in> set (KnownAddrs demo_served) - set (KnownAddrs demo_switch)"
    unfolding demo_served_facts(4) by (simp add: KnownAddrs_def demo_switch_fields)
  with learned_addresses[OF demo_switch_starts demo_run] show ?thesis by blast
qed

end
