(* ===== verification/Sha256.thy ===== *)
theory Sha256
  imports Positional
begin

text \<open>
  SHA-256. \<open>sha256K\<close>, \<open>sha256IV\<close> and \<open>sha256Compress\<close> are the compressor of
  \<open>internal/miner/sha256mid.go\<close>. \<open>sha256_Sum256\<close> is Go's \<open>crypto/sha256\<close>, that is FIPS 180-4:
  pad the message, compress block after block, write out the eight words. Every hash of the
  chain goes through \<open>HashBytes\<close> of \<open>internal/chain/hash.go\<close>.
\<close>

subsection \<open>The compressor\<close>

definition sha256K :: "u32 list" where
  "sha256K = [
     0x428A2F98, 0x71374491, 0xB5C0FBCF, 0xE9B5DBA5, 0x3956C25B, 0x59F111F1, 0x923F82A4, 0xAB1C5ED5,
     0xD807AA98, 0x12835B01, 0x243185BE, 0x550C7DC3, 0x72BE5D74, 0x80DEB1FE, 0x9BDC06A7, 0xC19BF174,
     0xE49B69C1, 0xEFBE4786, 0x0FC19DC6, 0x240CA1CC, 0x2DE92C6F, 0x4A7484AA, 0x5CB0A9DC, 0x76F988DA,
     0x983E5152, 0xA831C66D, 0xB00327C8, 0xBF597FC7, 0xC6E00BF3, 0xD5A79147, 0x06CA6351, 0x14292967,
     0x27B70A85, 0x2E1B2138, 0x4D2C6DFC, 0x53380D13, 0x650A7354, 0x766A0ABB, 0x81C2C92E, 0x92722C85,
     0xA2BFE8A1, 0xA81A664B, 0xC24B8B70, 0xC76C51A3, 0xD192E819, 0xD6990624, 0xF40E3585, 0x106AA070,
     0x19A4C116, 0x1E376C08, 0x2748774C, 0x34B0BCB5, 0x391C0CB3, 0x4ED8AA4A, 0x5B9CCA4F, 0x682E6FF3,
     0x748F82EE, 0x78A5636F, 0x84C87814, 0x8CC70208, 0x90BEFFFA, 0xA4506CEB, 0xBEF9A3F7, 0xC67178F2]"

definition sha256IV :: "u32 list" where
  "sha256IV = [0x6A09E667, 0xBB67AE85, 0x3C6EF372, 0xA54FF53A,
               0x510E527F, 0x9B05688C, 0x1F83D9AB, 0x5BE0CD19]"

text \<open>\<open>bits.RotateLeft32\<close>: \<open>s = k & 31; x << s | x >> (32 - s)\<close>.\<close>

definition RotateLeft32 :: "u32 \<Rightarrow> int \<Rightarrow> u32" where
  "RotateLeft32 x k = (let s = nat (k mod 32) in push_bit s x OR drop_bit (32 - s) x)"

text \<open>\<open>binary.BigEndian.Uint32\<close>.\<close>

definition be_Uint32 :: "bytes \<Rightarrow> u32" where
  "be_Uint32 b = ucast (b ! 3) OR push_bit 8 (ucast (b ! 2)) OR push_bit 16 (ucast (b ! 1))
     OR push_bit 24 (ucast (b ! 0))"

text \<open>The sixteen words of a 64-byte block, \<open>binary.BigEndian.Uint32(block[i*4 : i*4+4])\<close>.\<close>

definition block_words :: "bytes \<Rightarrow> u32 list" where
  "block_words block = map (\<lambda>i. be_Uint32 (take 4 (drop (i * 4) block))) [0..<16]"

definition schedule_step :: "u32 list \<Rightarrow> nat \<Rightarrow> u32 list" where
  "schedule_step w i = (let
     s0 = RotateLeft32 (w ! (i - 15)) (- 7) XOR RotateLeft32 (w ! (i - 15)) (- 18)
            XOR drop_bit 3 (w ! (i - 15));
     s1 = RotateLeft32 (w ! (i - 2)) (- 17) XOR RotateLeft32 (w ! (i - 2)) (- 19)
            XOR drop_bit 10 (w ! (i - 2))
   in w @ [w ! (i - 16) + s0 + w ! (i - 7) + s1])"

definition schedule_words :: "u32 list \<Rightarrow> u32 list" where
  "schedule_words w = foldl schedule_step w [16..<64]"

type_synonym regs = "u32 \<times> u32 \<times> u32 \<times> u32 \<times> u32 \<times> u32 \<times> u32 \<times> u32"

fun compress_round :: "u32 list \<Rightarrow> regs \<Rightarrow> nat \<Rightarrow> regs" where
  "compress_round w (a, b, c, d, e, f, g, hh) i = (let
     s1 = RotateLeft32 e (- 6) XOR RotateLeft32 e (- 11) XOR RotateLeft32 e (- 25);
     ch = (e AND f) XOR (NOT e AND g);
     t1 = hh + s1 + ch + sha256K ! i + w ! i;
     s0 = RotateLeft32 a (- 2) XOR RotateLeft32 a (- 13) XOR RotateLeft32 a (- 22);
     maj = (a AND b) XOR (a AND c) XOR (b AND c);
     t2 = s0 + maj
   in (t1 + t2, a, b, c, d + t1, e, f, g))"

definition compress_words :: "u32 list \<Rightarrow> u32 list \<Rightarrow> u32 list" where
  "compress_words h w =
     (case foldl (compress_round w) (h!0, h!1, h!2, h!3, h!4, h!5, h!6, h!7) [0..<64] of
        (a, b, c, d, e, f, g, hh) \<Rightarrow>
          [h!0 + a, h!1 + b, h!2 + c, h!3 + d, h!4 + e, h!5 + f, h!6 + g, h!7 + hh])"

definition sha256Compress :: "u32 list \<Rightarrow> bytes \<Rightarrow> u32 list" where
  "sha256Compress h block = compress_words h (schedule_words (block_words block))"

subsection \<open>The hash of a message\<close>

text \<open>FIPS 180-4, 5.1.1: a one bit, zeros up to 56 modulo 64, the length in bits.\<close>

definition sha256_pad :: "bytes \<Rightarrow> bytes" where
  "sha256_pad m = m @ [0x80] @ replicate ((119 - length m mod 64) mod 64) 0
     @ be_bytes 8 (of_nat (8 * length m) :: u64)"

function compress_blocks :: "u32 list \<Rightarrow> bytes \<Rightarrow> u32 list" where
  "compress_blocks h m = (if length m < 64 then h
     else compress_blocks (sha256Compress h (take 64 m)) (drop 64 m))"
  by pat_completeness auto
termination
  by (relation "measure (\<lambda>(h, m). length m)") auto

declare compress_blocks.simps [simp del]

text \<open>The digest: the eight words, big-endian, one after the other.\<close>

definition digest :: "u32 list \<Rightarrow> hash" where
  "digest h = hash_of_bytes (concat (map (be_bytes 4) h))"

definition sha256_Sum256 :: "bytes \<Rightarrow> hash" where
  "sha256_Sum256 m = digest (compress_blocks sha256IV (sha256_pad m))"

definition HashBytes :: "bytes \<Rightarrow> hash" where
  "HashBytes b = sha256_Sum256 b"

subsection \<open>Shape\<close>

lemma length_compress_words [simp]: "length (compress_words h w) = 8"
  by (simp add: compress_words_def split: prod.split)

lemma length_sha256Compress [simp]: "length (sha256Compress h b) = 8"
  by (simp add: sha256Compress_def)

lemma length_block_words [simp]: "length (block_words b) = 16"
  by (simp add: block_words_def)

lemma length_sha256IV [simp]: "length sha256IV = 8"
  by (simp add: sha256IV_def)

lemma length_sha256_pad: "length (sha256_pad m) mod 64 = 0"
proof -
  define r where "r = length m mod 64"
  have r: "r < 64" by (simp add: r_def)
  have "(r + 1 + (119 - r) mod 64 + 8) mod 64 = 0"
  proof (cases "r \<le> 55")
    case True
    then have "(119 - r) mod 64 = 55 - r" by (simp add: mod_if)
    with True show ?thesis by simp
  next
    case False
    with r have "(119 - r) mod 64 = 119 - r" by simp
    with False r show ?thesis by simp
  qed
  then have "(length m + 1 + (119 - length m mod 64) mod 64 + 8) mod 64 = 0"
    unfolding r_def by (metis (no_types, lifting) add.assoc mod_add_left_eq)
  then show ?thesis by (simp add: sha256_pad_def ac_simps)
qed

text \<open>Hashing a message whose first bytes fill whole blocks resumes from those blocks.\<close>

lemma compress_blocks_append:
  "length xs mod 64 = 0 \<Longrightarrow> compress_blocks h (xs @ ys) = compress_blocks (compress_blocks h xs) ys"
proof (induction h xs rule: compress_blocks.induct)
  case (1 h m)
  show ?case
  proof (cases "length m < 64")
    case True
    with 1(2) have "m = []" by simp
    then show ?thesis by (simp add: compress_blocks.simps[of h "[]"])
  next
    case False
    moreover have "length (drop 64 m) mod 64 = 0"
      using False 1(2) by (simp add: mod_if[of "length m" 64] le_mod_geq)
    ultimately show ?thesis
      using 1(1) by (simp add: compress_blocks.simps[of h m] compress_blocks.simps[of h "m @ ys"])
  qed
qed

lemma length_compress_blocks: "length h = 8 \<Longrightarrow> length (compress_blocks h m) = 8"
proof (induction h m rule: compress_blocks.induct)
  case (1 h m)
  then show ?case by (cases "length m < 64") (simp_all add: compress_blocks.simps[of h m])
qed

end
