(* ===== verification/Hashes.thy ===== *)
theory Hashes
  imports Sha256
begin

text \<open>
  \<open>internal/chain/hash.go\<close>: the hex form of a hash, its parser, and the order on hashes that
  the fork choice breaks ties with. That order compares the hex strings; \<open>hash_String_less\<close>
  shows that it is the order of the hashes as numbers.
\<close>

subsection \<open>Hex\<close>

definition hexAlphabet :: string where
  "hexAlphabet = ''0123456789abcdef''"

definition hex_EncodeToString :: "bytes \<Rightarrow> string" where
  "hex_EncodeToString bs =
     concat (map (\<lambda>b. [hexAlphabet ! (unat b div 16), hexAlphabet ! (unat b mod 16)]) bs)"

text \<open>\<open>hex.DecodeString\<close>: both cases of a digit, an error for another byte or an odd length.\<close>

definition fromHexChar :: "char \<Rightarrow> nat option" where
  "fromHexChar c = (let n = of_char c :: nat in
     if 48 \<le> n \<and> n \<le> 57 then Some (n - 48)
     else if 97 \<le> n \<and> n \<le> 102 then Some (n - 97 + 10)
     else if 65 \<le> n \<and> n \<le> 70 then Some (n - 65 + 10)
     else None)"

fun hex_DecodeString :: "string \<Rightarrow> bytes option" where
  "hex_DecodeString [] = Some []"
| "hex_DecodeString [c] = None"
| "hex_DecodeString (c # d # cs) =
     (case (fromHexChar c, fromHexChar d) of
        (Some hi, Some lo) \<Rightarrow> map_option (\<lambda>bs. of_nat (16 * hi + lo) # bs) (hex_DecodeString cs)
      | _ \<Rightarrow> None)"

subsection \<open>The methods of \<open>Hash\<close>\<close>

definition hash_String :: "hash \<Rightarrow> string" where
  "hash_String h = hex_EncodeToString (hash_bytes h)"

definition hash_Short :: "hash \<Rightarrow> string" where
  "hash_Short h = take 12 (hash_String h)"

definition hash_IsZero :: "hash \<Rightarrow> bool" where
  "hash_IsZero h \<longleftrightarrow> h = 0"

text \<open>
  \<open>UnmarshalJSON\<close> after the JSON string has been read: \<open>None\<close> is the error "invalid hash".
\<close>

definition hash_Unmarshal :: "string \<Rightarrow> hash option" where
  "hash_Unmarshal s =
     (case hex_DecodeString s of
        None \<Rightarrow> None
      | Some b \<Rightarrow> if length b \<noteq> 32 then None else Some (hash_of_bytes b))"

subsection \<open>Round trip\<close>

lemma length_hexAlphabet [simp]: "length hexAlphabet = 16"
  by (simp add: hexAlphabet_def)

lemma fromHexChar_hexAlphabet: "n < 16 \<Longrightarrow> fromHexChar (hexAlphabet ! n) = Some n"
proof -
  have "list_all (\<lambda>n. fromHexChar (hexAlphabet ! n) = Some n) [0..<16]"
    by code_simp
  then show "n < 16 \<Longrightarrow> fromHexChar (hexAlphabet ! n) = Some n" by (simp add: list_all_iff)
qed

lemma hex_decode_encode: "hex_DecodeString (hex_EncodeToString bs) = Some bs"
proof (induction bs)
  case (Cons b bs)
  have "unat b div 16 < 16" using unat_byte_less[of b] by simp
  moreover have "(of_nat (16 * (unat b div 16) + unat b mod 16) :: byte) = b"
    by (simp only: mult_div_mod_eq) simp
  ultimately show ?case
    using Cons by (simp add: hex_EncodeToString_def fromHexChar_hexAlphabet)
qed (simp add: hex_EncodeToString_def)

lemma length_hex_EncodeToString [simp]: "length (hex_EncodeToString bs) = 2 * length bs"
  by (induction bs) (simp_all add: hex_EncodeToString_def)

lemma length_hash_String [simp]: "length (hash_String h) = 64"
  by (simp add: hash_String_def)

lemma hash_unmarshal_String: "hash_Unmarshal (hash_String h) = Some h"
  by (simp add: hash_Unmarshal_def hash_String_def hex_decode_encode)

subsection \<open>The order of the hex strings\<close>

lemma hexAlphabet_less: "m < 16 \<Longrightarrow> n < 16 \<Longrightarrow> hexAlphabet ! m < hexAlphabet ! n \<longleftrightarrow> m < n"
proof -
  have "list_all (\<lambda>m. list_all (\<lambda>n. hexAlphabet ! m < hexAlphabet ! n \<longleftrightarrow> m < n) [0..<16]) [0..<16]"
    by code_simp
  then show "m < 16 \<Longrightarrow> n < 16 \<Longrightarrow> hexAlphabet ! m < hexAlphabet ! n \<longleftrightarrow> m < n"
    by (simp add: list_all_iff)
qed

lemma less_by_16:
  "(x :: nat) < y \<longleftrightarrow> x div 16 < y div 16 \<or> x div 16 = y div 16 \<and> x mod 16 < y mod 16"
  using div_mult_mod_eq[of x 16] div_mult_mod_eq[of y 16] mod_less_divisor[of 16 x] mod_less_divisor[of 16 y]
  by linarith

lemma hex_EncodeToString_less:
  "length xs = length ys \<Longrightarrow> hex_EncodeToString xs < hex_EncodeToString ys \<longleftrightarrow> map unat xs < map unat ys"
proof (induction xs ys rule: list_induct2)
  case (Cons x xs y ys)
  have b: "unat x div 16 < 16" "unat y div 16 < 16"
    using unat_byte_less[of x] unat_byte_less[of y] by simp_all
  have lt: "hexAlphabet ! m < hexAlphabet ! n \<longleftrightarrow> m < n"
    and eq: "hexAlphabet ! m = hexAlphabet ! n \<longleftrightarrow> m = n" if "m < 16" "n < 16" for m n
    using that hexAlphabet_less[of m n] hexAlphabet_less[of n m]
    by (simp_all, metis nat_neq_iff order_less_irrefl)
  note less_by_16[of "unat x" "unat y"]
  moreover have "unat x = unat y \<longleftrightarrow> unat x div 16 = unat y div 16 \<and> unat x mod 16 = unat y mod 16"
    by (metis div_mult_mod_eq)
  ultimately show ?case
    using Cons b by (auto simp: hex_EncodeToString_def lt eq)
qed (simp add: hex_EncodeToString_def)

lemma hash_String_less: "hash_String a < hash_String b \<longleftrightarrow> a < b"
proof -
  have "hash_String a < hash_String b \<longleftrightarrow> map unat (hash_bytes a) < map unat (hash_bytes b)"
    by (simp add: hash_String_def hex_EncodeToString_less)
  also have "\<dots> \<longleftrightarrow> SetBytes (hash_bytes a) < SetBytes (hash_bytes b)"
    unfolding SetBytes_def by (subst base_val_less_iff) (auto simp: unat_byte_less)
  also have "\<dots> \<longleftrightarrow> a < b" by (simp add: word_less_nat_alt)
  finally show ?thesis .
qed

lemma hash_String_inject [simp]: "hash_String a = hash_String b \<longleftrightarrow> a = b"
  by (metis hash_unmarshal_String option.inject)

end
