(* ===== verification/JsonText.thy ===== *)
theory JsonText
  imports Amount Hashes
begin

text \<open>
  JSON strings as Go's \<open>encoding/json\<close> writes and reads them: \<open>escape\<close> is the loop of its
  \<open>appendString\<close> (with the escapes for HTML that \<open>Marshal\<close> always makes), \<open>unquote\<close> the loop of its
  \<open>unquoteBytes\<close>. A string is its bytes, so both need \<open>unicode/utf8\<close>: the length of the encoding
  at the head of a string, and the encoding of a code point. The main fact is the round trip: a
  string of well-formed UTF-8 survives, and \<open>escape\<close> leaves nothing that would end the string early.
\<close>

subsection \<open>UTF-8\<close>

abbreviation code :: "char \<Rightarrow> nat" where
  "code c \<equiv> of_char c"

definition cont_byte :: "char \<Rightarrow> bool" where
  "cont_byte c \<longleftrightarrow> 128 \<le> code c \<and> code c \<le> 191"

text \<open>The range the second byte of an encoding must lie in, by its first byte.\<close>

definition second_ok :: "nat \<Rightarrow> nat \<Rightarrow> bool" where
  "second_ok a b \<longleftrightarrow> (if a = 224 then 160 \<le> b \<and> b \<le> 191 else if a = 237 then 128 \<le> b \<and> b \<le> 159
     else if a = 240 then 144 \<le> b \<and> b \<le> 191 else if a = 244 then 128 \<le> b \<and> b \<le> 143
     else 128 \<le> b \<and> b \<le> 191)"

text \<open>
  \<open>utf8.DecodeRune\<close>: the size of the encoding at the head of the string, \<open>None\<close> where it returns
  \<open>RuneError\<close> with size one.
\<close>

fun utf8_size :: "string \<Rightarrow> nat option" where
  "utf8_size [] = None"
| "utf8_size (a # s) = (let n = code a in
     if n < 128 then Some 1
     else if 194 \<le> n \<and> n \<le> 223 then (case s of b # _ \<Rightarrow> if second_ok n (code b) then Some 2 else None | _ \<Rightarrow> None)
     else if 224 \<le> n \<and> n \<le> 239 then (case s of b # c # _ \<Rightarrow> if second_ok n (code b) \<and> cont_byte c then Some 3 else None | _ \<Rightarrow> None)
     else if 240 \<le> n \<and> n \<le> 244 then
       (case s of b # c # d # _ \<Rightarrow> if second_ok n (code b) \<and> cont_byte c \<and> cont_byte d then Some 4 else None | _ \<Rightarrow> None)
     else None)"

text \<open>\<open>utf8.EncodeRune\<close> of a code point that is not a surrogate.\<close>

definition utf8_encode :: "nat \<Rightarrow> string" where
  "utf8_encode r = map char_of (if r < 128 then [r] else if r < 2048 then [192 + r div 64, 128 + r mod 64]
     else if r < 65536 then [224 + r div 4096, 128 + r div 64 mod 64, 128 + r mod 64]
     else [240 + r div 262144, 128 + r div 4096 mod 64, 128 + r div 64 mod 64, 128 + r mod 64])"

definition replacement :: string where
  "replacement = utf8_encode 65533"

lemma utf8_size_positive: "utf8_size s = Some k \<Longrightarrow> 0 < k \<and> k \<le> length s"
  by (cases s) (auto simp: Let_def split: if_splits list.splits)

fun utf8_ok :: "string \<Rightarrow> bool" where
  "utf8_ok [] = True"
| "utf8_ok (c # cs) = (case utf8_size (c # cs) of None \<Rightarrow> False | Some k \<Rightarrow> utf8_ok (drop (k - 1) cs))"

subsection \<open>Escaping\<close>

definition hex_digit :: "nat \<Rightarrow> char" where
  "hex_digit n = hexAlphabet ! n"

definition escape_ascii :: "char \<Rightarrow> string" where
  "escape_ascii c = (
     if c = CHR 0x22 \<or> c = CHR 0x5C then [CHR 0x5C, c]
     else if code c = 8 then [CHR 0x5C, CHR ''b'']
     else if code c = 12 then [CHR 0x5C, CHR ''f'']
     else if code c = 10 then [CHR 0x5C, CHR ''n'']
     else if code c = 13 then [CHR 0x5C, CHR ''r'']
     else if code c = 9 then [CHR 0x5C, CHR ''t'']
     else if code c < 32 \<or> c = CHR ''<'' \<or> c = CHR ''>'' \<or> c = CHR ''&''
       then [CHR 0x5C, CHR ''u'', CHR ''0'', CHR ''0'', hex_digit (code c div 16), hex_digit (code c mod 16)]
     else [c])"

definition line_separators :: "string list" where
  "line_separators = [utf8_encode 8232, utf8_encode 8233]"

fun escape :: "string \<Rightarrow> string" where
  "escape [] = []"
| "escape (c # cs) = (if code c < 128 then escape_ascii c @ escape cs else case utf8_size (c # cs) of
     None \<Rightarrow> CHR 0x5C # ''ufffd'' @ escape cs
   | Some k \<Rightarrow> let r = take k (c # cs) in
       (if r \<in> set line_separators then CHR 0x5C # ''u202'' @ [hex_digit (code (last r) mod 16)] else r)
       @ escape (drop (k - 1) cs))"

subsection \<open>Unquoting\<close>

text \<open>\<open>getu4\<close> of the four characters after \<open>\\u\<close>.\<close>

definition getu4 :: "string \<Rightarrow> nat option" where
  "getu4 s = (if length s < 4 then None else case map fromHexChar (take 4 s) of
     [Some a, Some b, Some c, Some d] \<Rightarrow> Some (((a * 16 + b) * 16 + c) * 16 + d) | _ \<Rightarrow> None)"

text \<open>The second half of a surrogate pair: \<open>\\u\<close> and a low surrogate.\<close>

definition low_surrogate :: "string \<Rightarrow> nat option" where
  "low_surrogate s = (if take 2 s = [CHR 0x5C, CHR ''u''] then
     (case getu4 (drop 2 s) of Some r \<Rightarrow> if 56320 \<le> r \<and> r < 57344 then Some r else None | None \<Rightarrow> None)
     else None)"

definition escape_value :: "char \<Rightarrow> char option" where
  "escape_value c = (if c = CHR 0x22 \<or> c = CHR 0x5C \<or> c = CHR ''/'' \<or> c = CHR 0x27 then Some c
     else if c = CHR ''b'' then Some (CHR 0x08) else if c = CHR ''f'' then Some (CHR 0x0C)
     else if c = CHR ''n'' then Some (CHR 0x0A) else if c = CHR ''r'' then Some (CHR 0x0D)
     else if c = CHR ''t'' then Some (CHR 0x09) else None)"

text \<open>One step: the bytes it writes and the number of characters it reads after the first.\<close>

definition unquote_u :: "string \<Rightarrow> (string \<times> nat) option" where
  "unquote_u s = (case getu4 s of None \<Rightarrow> None | Some r \<Rightarrow>
     if 55296 \<le> r \<and> r < 57344 then
       (if r < 56320 then (case low_surrogate (drop 4 s) of
          Some r' \<Rightarrow> Some (utf8_encode (65536 + (r - 55296) * 1024 + (r' - 56320)), 11)
        | None \<Rightarrow> Some (replacement, 5))
        else Some (replacement, 5))
     else Some (utf8_encode r, 5))"

definition unquote_step :: "char \<Rightarrow> string \<Rightarrow> (string \<times> nat) option" where
  "unquote_step c cs = (
     if c = CHR 0x5C then
       (case cs of [] \<Rightarrow> None | e # es \<Rightarrow> if e = CHR ''u'' then unquote_u es
          else (case escape_value e of None \<Rightarrow> None | Some x \<Rightarrow> Some ([x], 1)))
     else if c = CHR 0x22 \<or> code c < 32 then None
     else if code c < 128 then Some ([c], 0)
     else (case utf8_size (c # cs) of None \<Rightarrow> Some (replacement, 0) | Some k \<Rightarrow> Some (take k (c # cs), k - 1)))"

fun unquote :: "string \<Rightarrow> string option" where
  "unquote [] = Some []"
| "unquote (c # cs) = (case unquote_step c cs of None \<Rightarrow> None
     | Some (out, n) \<Rightarrow> map_option (\<lambda>s. out @ s) (unquote (drop n cs)))"

subsection \<open>Round trip\<close>

lemma utf8_size_take: "utf8_size s = Some k \<Longrightarrow> utf8_size (take k s @ rest) = Some k"
  by (cases s) (auto simp: Let_def split: if_splits list.splits)

lemma utf8_size_multi: "utf8_size (c # cs) = Some k \<Longrightarrow> 128 \<le> code c \<Longrightarrow> 2 \<le> k"
  by (auto simp: Let_def split: if_splits list.splits)

lemma fromHexChar_hex_digit: "n < 16 \<Longrightarrow> fromHexChar (hex_digit n) = Some n"
  by (simp add: hex_digit_def fromHexChar_hexAlphabet)

lemma fromHexChar_0 [simp]: "fromHexChar (CHR ''0'') = Some 0"
  by (simp add: fromHexChar_def)

lemma append_singleton [simp]: "(@) [c] = (#) c"
  by (rule ext) simp

lemma unquote_escape_ascii:
  assumes "code c < 128"
  shows "unquote (escape_ascii c @ rest) = map_option (\<lambda>s. c # s) (unquote rest)"
proof -
  have low: "escape_ascii c = [CHR 0x5C, CHR ''u'', CHR ''0'', CHR ''0'', hex_digit (code c div 16), hex_digit (code c mod 16)] \<Longrightarrow> ?thesis"
  proof -
    assume e: "escape_ascii c = [CHR 0x5C, CHR ''u'', CHR ''0'', CHR ''0'', hex_digit (code c div 16), hex_digit (code c mod 16)]"
    have "code c div 16 < 16" using assms by simp
    then have "getu4 (CHR ''0'' # CHR ''0'' # hex_digit (code c div 16) # hex_digit (code c mod 16) # rest) = Some (code c)"
      by (simp add: getu4_def fromHexChar_hex_digit)
    then show ?thesis using assms unfolding e by (cases "unquote rest") (simp_all add: unquote_step_def unquote_u_def utf8_encode_def)
  qed
  have special: "c = char_of (code c)" by simp
  show ?thesis
  proof (cases "code c \<in> {8, 9, 10, 12, 13}")
    case True
    have "(char_of (8 :: nat) :: char) = CHR 0x08" "(char_of (9 :: nat) :: char) = CHR 0x09" "(char_of (10 :: nat) :: char) = CHR 0x0A"
      "(char_of (12 :: nat) :: char) = CHR 0x0C" "(char_of (13 :: nat) :: char) = CHR 0x0D" by code_simp+
    moreover obtain n :: nat where "n \<in> {8, 9, 10, 12, 13}" "c = char_of n" using True special by metis
    ultimately have "c \<in> {CHR 0x08, CHR 0x09, CHR 0x0A, CHR 0x0C, CHR 0x0D}" by auto
    then show ?thesis by (elim insertE emptyE) (simp_all add: escape_ascii_def unquote_step_def escape_value_def)
  next
    case f: False
    show ?thesis
    proof (cases "code c < 32 \<or> c = CHR ''<'' \<or> c = CHR ''>'' \<or> c = CHR ''&''")
      case True
      with f low show ?thesis by (auto simp: escape_ascii_def)
    next
      case False
      with f assms show ?thesis by (auto simp: escape_ascii_def unquote_step_def escape_value_def)
    qed
  qed
qed

lemma unquote_separators:
  "r \<in> set line_separators \<Longrightarrow>
    unquote (CHR 0x5C # ''u202'' @ [hex_digit (code (last r) mod 16)] @ rest) = map_option (\<lambda>s. r @ s) (unquote rest)"
  by (cases "unquote rest") (auto simp: line_separators_def utf8_encode_def hex_digit_def hexAlphabet_def unquote_step_def unquote_u_def getu4_def fromHexChar_def)

lemma unquote_escape: "utf8_ok s \<Longrightarrow> unquote (escape s) = Some s"
proof (induction s rule: escape.induct)
  case (2 c cs)
  show ?case
  proof (cases "code c < 128")
    case True
    with 2 show ?thesis by (simp add: unquote_escape_ascii)
  next
    case False
    with 2(4) obtain k where k: "utf8_size (c # cs) = Some k" and ok: "utf8_ok (drop (k - 1) cs)"
      by (auto simp del: utf8_size.simps split: option.splits)
    let ?r = "take k (c # cs)" and ?s = "drop (k - 1) cs"
    have split: "?r @ ?s = c # cs" using utf8_size_positive[OF k] by (cases k) simp_all
    have IH: "unquote (escape ?s) = Some ?s" using 2(3)[OF False k refl ok] .
    show ?thesis
    proof (cases "?r \<in> set line_separators")
      case True
      then have "escape (c # cs) = CHR 0x5C # ''u202'' @ [hex_digit (code (last ?r) mod 16)] @ escape ?s"
        using False k by (simp del: utf8_size.simps add: Let_def)
      then show ?thesis using unquote_separators[OF True, of "escape ?s"] IH split by simp
    next
      case raw: False
      then have e: "escape (c # cs) = ?r @ escape ?s" using False k by (simp del: utf8_size.simps add: Let_def)
      obtain j where j: "k = Suc j" using utf8_size_positive[OF k] by (cases k) simp_all
      have l: "j \<le> length cs" using utf8_size_positive[OF k] j by simp
      have "utf8_size (c # take j cs @ escape ?s) = Some k" using utf8_size_take[OF k, of "escape ?s"] j by simp
      then have "unquote_step c (take j cs @ escape ?s) = Some (?r, j)"
        using False l by (auto simp: unquote_step_def j simp del: utf8_size.simps)
      then have "unquote (?r @ escape ?s) = map_option (\<lambda>s. ?r @ s) (unquote (escape ?s))"
        using l by (cases "unquote (escape ?s)") (simp_all add: j)
      then show ?thesis using IH split e by simp
    qed
  qed
qed simp

end
