(* ===== verification/Json.thy ===== *)
theory Json
  imports JsonText
begin

text \<open>
  JSON values, Go's \<open>json.Marshal\<close> of them without white space, and the reader: the scanner of
  \<open>encoding/json\<close>, a machine with a stack that takes one character at a time, which here builds the
  value as it goes. Numbers keep their text, which is read again when a field is decoded. The
  scanner is a fold over the input, so it always ends; nesting is limited to \<open>maxNestingDepth\<close>.
  The main fact is the round trip of a value through its text, with anything after it.
\<close>

subsection \<open>Values\<close>

datatype json = JNull | JBool bool | JNum string | JStr string | JArr "json list" | JObj "(string \<times> json) list"

definition quote :: "string \<Rightarrow> string" where
  "quote s = CHR 0x22 # escape s @ [CHR 0x22]"

fun print :: "json \<Rightarrow> string" and print_elems :: "json list \<Rightarrow> string"
  and print_members :: "(string \<times> json) list \<Rightarrow> string" where
  "print JNull = ''null''"
| "print (JBool b) = (if b then ''true'' else ''false'')"
| "print (JNum t) = t"
| "print (JStr s) = quote s"
| "print (JArr vs) = CHR ''['' # print_elems vs @ '']''"
| "print (JObj ms) = CHR ''{'' # print_members ms @ ''}''"
| "print_elems [] = ''''"
| "print_elems (v # vs) = print v @ (if vs = [] then '''' else CHR '','' # print_elems vs)"
| "print_members [] = ''''"
| "print_members ((k, v) # ms) = quote k @ CHR '':'' # print v @ (if ms = [] then '''' else CHR '','' # print_members ms)"

subsection \<open>Numbers\<close>

datatype numeral_state = NumNeg | NumZero | NumInt | NumDot | NumFrac | NumExp | NumExpSign | NumExpInt

definition num_start :: "char \<Rightarrow> numeral_state option" where
  "num_start c = (if c = CHR ''-'' then Some NumNeg else if c = CHR ''0'' then Some NumZero
     else if is_digit c then Some NumInt else None)"

definition exponent_char :: "char \<Rightarrow> bool" where
  "exponent_char c \<longleftrightarrow> c = CHR ''e'' \<or> c = CHR ''E''"

text \<open>\<open>None\<close>: the character does not continue the number.\<close>

definition num_step :: "numeral_state \<Rightarrow> char \<Rightarrow> numeral_state option" where
  "num_step ns c = (case ns of
     NumNeg \<Rightarrow> if c = CHR ''0'' then Some NumZero else if is_digit c then Some NumInt else None
   | NumZero \<Rightarrow> if c = CHR ''.'' then Some NumDot else if exponent_char c then Some NumExp else None
   | NumInt \<Rightarrow> if is_digit c then Some NumInt else if c = CHR ''.'' then Some NumDot else if exponent_char c then Some NumExp else None
   | NumDot \<Rightarrow> if is_digit c then Some NumFrac else None
   | NumFrac \<Rightarrow> if is_digit c then Some NumFrac else if exponent_char c then Some NumExp else None
   | NumExp \<Rightarrow> if c = CHR ''+'' \<or> c = CHR ''-'' then Some NumExpSign else if is_digit c then Some NumExpInt else None
   | NumExpSign \<Rightarrow> if is_digit c then Some NumExpInt else None
   | NumExpInt \<Rightarrow> if is_digit c then Some NumExpInt else None)"

definition num_final :: "numeral_state \<Rightarrow> bool" where
  "num_final ns \<longleftrightarrow> ns \<in> {NumZero, NumInt, NumFrac, NumExpInt}"

subsection \<open>The scanner\<close>

text \<open>What is open around the value being read: an array with the elements so far, last first; an object whose
  next key is being read; an object with the key whose value is being read.\<close>

datatype opened = InArr "json list" | InKey "(string \<times> json) list" | InVal "(string \<times> json) list" string

datatype scan = BeginValue | BeginValueOrEmpty | BeginString | BeginStringOrEmpty | EndValue json | AfterKey string
  | InString string | InEscape string | InHex nat string | InNumber numeral_state string | InLiteral string json

type_synonym scanner = "scan \<times> opened list"

definition maxNestingDepth :: nat where
  "maxNestingDepth = 10000"

definition isSpace :: "char \<Rightarrow> bool" where
  "isSpace c \<longleftrightarrow> c = CHR '' '' \<or> c = CHR 0x09 \<or> c = CHR 0x0D \<or> c = CHR 0x0A"

definition push :: "opened \<Rightarrow> scan \<Rightarrow> opened list \<Rightarrow> scanner option" where
  "push f next st = (if length st < maxNestingDepth then Some (next, f # st) else None)"

definition begin_value :: "char \<Rightarrow> opened list \<Rightarrow> scanner option" where
  "begin_value c st = (
     if c = CHR ''{'' then push (InKey []) BeginStringOrEmpty st
     else if c = CHR ''['' then push (InArr []) BeginValueOrEmpty st
     else if c = CHR 0x22 then Some (InString [], st)
     else if c = CHR ''t'' then Some (InLiteral ''rue'' (JBool True), st)
     else if c = CHR ''f'' then Some (InLiteral ''alse'' (JBool False), st)
     else if c = CHR ''n'' then Some (InLiteral ''ull'' JNull, st)
     else map_option (\<lambda>ns. (InNumber ns [c], st)) (num_start c))"

definition end_value :: "json \<Rightarrow> char \<Rightarrow> opened list \<Rightarrow> scanner option" where
  "end_value v c st = (if isSpace c then Some (EndValue v, st) else case st of
     [] \<Rightarrow> None
   | InArr vs # st' \<Rightarrow> if c = CHR '','' then Some (BeginValue, InArr (v # vs) # st')
       else if c = CHR '']'' then Some (EndValue (JArr (rev (v # vs))), st') else None
   | InKey ms # st' \<Rightarrow> None
   | InVal ms k # st' \<Rightarrow> if c = CHR '','' then Some (BeginString, InKey ((k, v) # ms) # st')
       else if c = CHR ''}'' then Some (EndValue (JObj (rev ((k, v) # ms))), st') else None)"

text \<open>The closing quote: a key or a value, by what is open. \<open>raw\<close> is the text between the quotes.\<close>

definition end_string :: "string \<Rightarrow> opened list \<Rightarrow> scanner option" where
  "end_string raw st = (case unquote raw of None \<Rightarrow> None | Some s \<Rightarrow>
     (case st of InKey ms # _ \<Rightarrow> Some (AfterKey s, st) | _ \<Rightarrow> Some (EndValue (JStr s), st)))"

definition is_escape :: "char \<Rightarrow> bool" where
  "is_escape c \<longleftrightarrow> c \<in> {CHR ''b'', CHR ''f'', CHR ''n'', CHR ''r'', CHR ''t'', CHR 0x5C, CHR ''/'', CHR 0x22}"

definition scan_step :: "scanner \<Rightarrow> char \<Rightarrow> scanner option" where
  "scan_step s c = (case s of (mode, st) \<Rightarrow> case mode of
     BeginValue \<Rightarrow> if isSpace c then Some (mode, st) else begin_value c st
   | BeginValueOrEmpty \<Rightarrow> if isSpace c then Some (mode, st)
       else if c = CHR '']'' then Some (EndValue (JArr []), tl st) else begin_value c st
   | BeginString \<Rightarrow> if isSpace c then Some (mode, st) else if c = CHR 0x22 then Some (InString [], st) else None
   | BeginStringOrEmpty \<Rightarrow> if isSpace c then Some (mode, st)
       else if c = CHR ''}'' then Some (EndValue (JObj []), tl st)
       else if c = CHR 0x22 then Some (InString [], st) else None
   | EndValue v \<Rightarrow> end_value v c st
   | AfterKey k \<Rightarrow> if isSpace c then Some (mode, st) else if c = CHR '':'' then
       (case st of InKey ms # st' \<Rightarrow> Some (BeginValue, InVal ms k # st') | _ \<Rightarrow> None) else None
   | InString acc \<Rightarrow> if c = CHR 0x22 then end_string (rev acc) st
       else if c = CHR 0x5C then Some (InEscape (c # acc), st)
       else if code c < 32 then None else Some (InString (c # acc), st)
   | InEscape acc \<Rightarrow> if is_escape c then Some (InString (c # acc), st)
       else if c = CHR ''u'' then Some (InHex 4 (c # acc), st) else None
   | InHex k acc \<Rightarrow> if fromHexChar c = None then None
       else Some (if k \<le> 1 then InString (c # acc) else InHex (k - 1) (c # acc), st)
   | InNumber ns acc \<Rightarrow> (case num_step ns c of Some ns' \<Rightarrow> Some (InNumber ns' (c # acc), st)
       | None \<Rightarrow> if num_final ns then end_value (JNum (rev acc)) c st else None)
   | InLiteral rest v \<Rightarrow> if rest \<noteq> [] \<and> c = hd rest
       then Some (if tl rest = [] then EndValue v else InLiteral (tl rest) v, st) else None)"

fun scan_all :: "string \<Rightarrow> scanner \<Rightarrow> scanner option" where
  "scan_all [] s = Some s"
| "scan_all (c # cs) s = (case scan_step s c of None \<Rightarrow> None | Some s' \<Rightarrow> scan_all cs s')"

definition scan_start :: scanner where
  "scan_start = (BeginValue, [])"

text \<open>The whole input is one value: at the end the scanner takes one more space.\<close>

definition parse :: "string \<Rightarrow> json option" where
  "parse s = (case scan_all (s @ '' '') scan_start of Some (EndValue v, []) \<Rightarrow> Some v | _ \<Rightarrow> None)"

text \<open>\<open>Decoder.Decode\<close>: the first value of the input; what follows it is not read.\<close>

fun scan_first :: "string \<Rightarrow> scanner \<Rightarrow> json option" where
  "scan_first [] s = None"
| "scan_first (c # cs) s = (case scan_step s c of None \<Rightarrow> None
     | Some (EndValue v, []) \<Rightarrow> Some v
     | Some s' \<Rightarrow> scan_first cs s')"

definition parse_first :: "string \<Rightarrow> json option" where
  "parse_first s = scan_first (s @ '' '') scan_start"

subsection \<open>Scanning a string\<close>

lemma scan_all_append:
  "scan_all (xs @ ys) s = (case scan_all xs s of None \<Rightarrow> None | Some s' \<Rightarrow> scan_all ys s')"
  by (induction xs arbitrary: s) (auto split: option.splits)

lemma scan_plain: "list_all (\<lambda>c. 32 \<le> code c \<and> c \<noteq> CHR 0x22 \<and> c \<noteq> CHR 0x5C) r \<Longrightarrow>
    scan_all (r @ rest) (InString acc, st) = scan_all rest (InString (rev r @ acc), st)"
  by (induction r arbitrary: acc) (auto simp: scan_step_def)

lemma scan_hex: "length r = 4 \<Longrightarrow> list_all (\<lambda>c. fromHexChar c \<noteq> None) r \<Longrightarrow>
    scan_all (CHR 0x5C # CHR ''u'' # r @ rest) (InString acc, st) = scan_all rest (InString (rev r @ CHR ''u'' # CHR 0x5C # acc), st)"
  by (auto simp: length_Suc_conv numeral_eq_Suc scan_step_def is_escape_def)

lemma escape_ascii_cases:
  "(\<exists>e. escape_ascii c = [CHR 0x5C, e] \<and> is_escape e)
   \<or> escape_ascii c = [CHR 0x5C, CHR ''u'', CHR ''0'', CHR ''0'', hex_digit (code c div 16), hex_digit (code c mod 16)]
   \<or> escape_ascii c = [c] \<and> 32 \<le> code c \<and> c \<noteq> CHR 0x22 \<and> c \<noteq> CHR 0x5C"
  by (auto simp: escape_ascii_def is_escape_def)

lemma scan_escape_ascii:
  assumes "code c < 128"
  shows "scan_all (escape_ascii c @ rest) (InString acc, st) = scan_all rest (InString (rev (escape_ascii c) @ acc), st)"
proof -
  have div: "code c div 16 < 16" using assms by simp
  consider (short) e where "escape_ascii c = [CHR 0x5C, e]" "is_escape e"
    | (hex) "escape_ascii c = [CHR 0x5C, CHR ''u'', CHR ''0'', CHR ''0'', hex_digit (code c div 16), hex_digit (code c mod 16)]"
    | (plain) "escape_ascii c = [c]" "32 \<le> code c" "c \<noteq> CHR 0x22" "c \<noteq> CHR 0x5C"
    using escape_ascii_cases[of c] by blast
  then show ?thesis
  proof cases
    case (short e)
    then show ?thesis by (simp add: scan_step_def)
  next
    case hex
    show ?thesis unfolding hex
      using scan_hex[of "[CHR ''0'', CHR ''0'', hex_digit (code c div 16), hex_digit (code c mod 16)]" rest acc st] div
      by (simp add: fromHexChar_hex_digit del: scan_all.simps)
  next
    case plain
    then show ?thesis using scan_plain[of "[c]" rest acc st] by simp
  qed
qed

lemma utf8_size_high:
  "utf8_size (c # cs) = Some k \<Longrightarrow> 128 \<le> code c \<Longrightarrow> list_all (\<lambda>c. 128 \<le> code c) (take k (c # cs))"
  by (auto simp: second_ok_def cont_byte_def Let_def split: if_splits list.splits)

lemma scan_escape: "scan_all (escape s @ rest) (InString acc, st) = scan_all rest (InString (rev (escape s) @ acc), st)"
proof (induction s arbitrary: acc rule: escape.induct)
  case (2 c cs)
  show ?case
  proof (cases "code c < 128")
    case True
    then show ?thesis using 2(1) by (simp add: scan_escape_ascii)
  next
    case False
    show ?thesis
    proof (cases "utf8_size (c # cs)")
      case None
      then have e: "escape (c # cs) = CHR 0x5C # CHR ''u'' # ''fffd'' @ escape cs" using False by (simp del: utf8_size.simps)
      show ?thesis unfolding e
        using scan_hex[of "''fffd''" "escape cs @ rest" acc st] 2(2)[OF False None] by (simp add: fromHexChar_def)
    next
      case (Some k)
      let ?r = "take k (c # cs)"
      note IH = 2(3)[OF False Some refl]
      show ?thesis
      proof (cases "?r \<in> set line_separators")
        case True
        let ?d = "hex_digit (code (last ?r) mod 16)"
        have two: "fromHexChar (CHR ''2'') = Some 2" by (simp add: fromHexChar_def)
        have e: "escape (c # cs) = CHR 0x5C # CHR ''u'' # (''202'' @ [?d]) @ escape (drop (k - 1) cs)"
          using True False Some by (simp del: utf8_size.simps add: Let_def)
        show ?thesis unfolding e
          using scan_hex[of "''202'' @ [?d]" "escape (drop (k - 1) cs) @ rest" acc st] IH two by (simp add: fromHexChar_hex_digit del: scan_all.simps)
      next
        case raw: False
        then have e: "escape (c # cs) = ?r @ escape (drop (k - 1) cs)" using False Some by (simp del: utf8_size.simps add: Let_def)
        have "list_all (\<lambda>c. 32 \<le> code c \<and> c \<noteq> CHR 0x22 \<and> c \<noteq> CHR 0x5C) ?r"
          using utf8_size_high[OF Some] False by (auto simp: list_all_iff)
        from scan_plain[OF this, of "escape (drop (k - 1) cs) @ rest" acc st] IH show ?thesis unfolding e by simp
      qed
    qed
  qed
qed simp

lemma scan_quote:
  assumes "utf8_ok s"
  shows "scan_all (quote s @ rest) (BeginString, st) = (case end_string (escape s) st of None \<Rightarrow> None | Some s' \<Rightarrow> scan_all rest s')"
    and "scan_all (quote s @ rest) (BeginValue, st) = (case end_string (escape s) st of None \<Rightarrow> None | Some s' \<Rightarrow> scan_all rest s')"
  using scan_escape[of s "CHR 0x22 # rest" "[]" st]
  by (simp_all add: quote_def scan_step_def isSpace_def begin_value_def)

subsection \<open>Scanning a number\<close>

fun num_run :: "numeral_state \<Rightarrow> string \<Rightarrow> numeral_state option" where
  "num_run ns [] = Some ns"
| "num_run ns (c # cs) = (case num_step ns c of None \<Rightarrow> None | Some ns' \<Rightarrow> num_run ns' cs)"

definition number_ok :: "string \<Rightarrow> bool" where
  "number_ok t \<longleftrightarrow> (case t of [] \<Rightarrow> False | c # cs \<Rightarrow> (case num_start c of None \<Rightarrow> False | Some ns \<Rightarrow>
     (case num_run ns cs of None \<Rightarrow> False | Some ns' \<Rightarrow> num_final ns')))"

text \<open>What may stand after a value.\<close>

definition closer :: "char \<Rightarrow> bool" where
  "closer c \<longleftrightarrow> c = CHR '','' \<or> c = CHR '']'' \<or> c = CHR ''}'' \<or> isSpace c"

lemma num_step_closer: "closer c \<Longrightarrow> num_step ns c = None"
  by (cases ns) (auto simp: num_step_def closer_def isSpace_def is_digit_def exponent_char_def)

lemma scan_num_run: "num_run ns t = Some ns' \<Longrightarrow>
    scan_all (t @ rest) (InNumber ns acc, st) = scan_all rest (InNumber ns' (rev t @ acc), st)"
  by (induction t arbitrary: ns acc) (auto simp: scan_step_def split: option.splits)

lemma num_start_first:
  assumes "num_start c = Some ns"
  shows "scan_step (BeginValue, st) c = Some (InNumber ns [c], st)"
proof -
  have "c = CHR ''-'' \<or> is_digit c" using assms by (auto simp: num_start_def is_digit_def split: if_splits)
  then have "\<not> isSpace c \<and> c \<noteq> CHR ''{'' \<and> c \<noteq> CHR ''['' \<and> c \<noteq> CHR 0x22 \<and> c \<noteq> CHR ''t'' \<and> c \<noteq> CHR ''f'' \<and> c \<noteq> CHR ''n''"
    by (auto simp: isSpace_def is_digit_def)
  then show ?thesis using assms by (simp add: scan_step_def begin_value_def)
qed

lemma scan_number:
  assumes "number_ok t" and "closer c"
  shows "scan_all (t @ c # rest) (BeginValue, st) = scan_all (c # rest) (EndValue (JNum t), st)"
proof -
  from assms(1) obtain d ds ns ns' where t: "t = d # ds" "num_start d = Some ns" "num_run ns ds = Some ns'" "num_final ns'"
    by (auto simp: number_ok_def split: list.splits option.splits)
  have "scan_step (InNumber ns' (rev t), st) c = scan_step (EndValue (JNum t), st) c"
    using num_step_closer[OF assms(2)] t(4) by (simp add: scan_step_def)
  then have "scan_all (c # rest) (InNumber ns' (rev t), st) = scan_all (c # rest) (EndValue (JNum t), st)" by simp
  moreover have "scan_all (t @ c # rest) (BeginValue, st) = scan_all (ds @ c # rest) (InNumber ns [d], st)"
    using num_start_first[OF t(2), of st] t(1) by simp
  moreover have "\<dots> = scan_all (c # rest) (InNumber ns' (rev t), st)"
    using scan_num_run[OF t(3), of "c # rest" "[d]" st] t(1) by simp
  ultimately show ?thesis by (simp only:)
qed

subsection \<open>Round trip of a value\<close>

text \<open>Well-formed values: the text of every number is a number, every string is UTF-8; and their nesting.\<close>

fun json_ok :: "json \<Rightarrow> bool" where
  "json_ok (JNum t) = number_ok t"
| "json_ok (JStr s) = utf8_ok s"
| "json_ok (JArr vs) = (\<forall>v \<in> set vs. json_ok v)"
| "json_ok (JObj ms) = (\<forall>(k, v) \<in> set ms. utf8_ok k \<and> json_ok v)"
| "json_ok _ = True"

fun depth :: "json \<Rightarrow> nat" where
  "depth (JArr vs) = Suc (fold max (map depth vs) 0)"
| "depth (JObj ms) = Suc (fold max (map (\<lambda>(k, v). depth v) ms) 0)"
| "depth _ = 0"

lemma fold_max_le: "fold max xs (a :: nat) \<le> b \<longleftrightarrow> a \<le> b \<and> (\<forall>x \<in> set xs. x \<le> b)"
  by (induction xs arbitrary: a) auto

lemma depth_le_Suc:
  "depth (JArr vs) \<le> Suc b \<longleftrightarrow> (\<forall>v \<in> set vs. depth v \<le> b)"
  "depth (JObj ms) \<le> Suc b \<longleftrightarrow> (\<forall>(k, v) \<in> set ms. depth v \<le> b)"
  by (auto simp: fold_max_le)

lemma num_start_simps: "\<not> is_digit c \<Longrightarrow> c \<noteq> CHR ''-'' \<Longrightarrow> num_start c = None"
  by (auto simp: num_start_def is_digit_def)

text \<open>The first character of a value does not close an array.\<close>

lemma print_first:
  assumes "json_ok v"
  obtains c cs where "print v = c # cs" "\<not> isSpace c" "c \<noteq> CHR '']''"
proof (cases v)
  case (JNum t)
  then obtain c cs where t: "t = c # cs" "num_start c \<noteq> None" using assms by (auto simp: number_ok_def split: list.splits option.splits)
  then have "c = CHR ''-'' \<or> is_digit c" by (auto simp: num_start_def is_digit_def split: if_splits)
  then have "\<not> isSpace c \<and> c \<noteq> CHR '']''" by (auto simp: isSpace_def is_digit_def)
  then show ?thesis using that[of c cs] t JNum by simp
next
  case (JBool b)
  then show ?thesis using that by (cases b) (auto simp: isSpace_def)
qed (use that in \<open>auto simp: isSpace_def quote_def\<close>)

lemma scan_first_elem:
  assumes "json_ok v"
  shows "scan_all (print v @ rest) (BeginValueOrEmpty, st) = scan_all (print v @ rest) (BeginValue, st)"
proof -
  obtain c cs where "print v = c # cs" "\<not> isSpace c" "c \<noteq> CHR '']''" using print_first[OF assms] .
  then show ?thesis by (simp add: scan_step_def)
qed

lemma scan_first_member: "scan_all (quote k @ rest) (BeginStringOrEmpty, st) = scan_all (quote k @ rest) (BeginString, st)"
  by (simp add: quote_def scan_step_def isSpace_def)

lemma end_value_closers:
  "end_value v (CHR '','') (InArr vs # st) = Some (BeginValue, InArr (v # vs) # st)"
  "end_value v (CHR '']'') (InArr vs # st) = Some (EndValue (JArr (rev (v # vs))), st)"
  "end_value v (CHR '','') (InVal ms k # st) = Some (BeginString, InKey ((k, v) # ms) # st)"
  "end_value v (CHR ''}'') (InVal ms k # st) = Some (EndValue (JObj (rev ((k, v) # ms))), st)"
  by (simp_all add: end_value_def isSpace_def)

lemma scan_step_end [simp]: "scan_step (EndValue v, st) c = end_value v c st"
  by (simp add: scan_step_def)

lemma scan_key:
  assumes "utf8_ok k"
  shows "scan_all (quote k @ CHR '':'' # rest) (BeginString, InKey ms # st) = scan_all rest (BeginValue, InVal ms k # st)"
  using scan_quote(1)[OF assms, of "CHR '':'' # rest" "InKey ms # st"] unquote_escape[OF assms]
  by (simp add: end_string_def scan_step_def isSpace_def)

text \<open>A value is being read where no key is.\<close>

definition value_place :: "opened list \<Rightarrow> bool" where
  "value_place st \<longleftrightarrow> (case st of InKey _ # _ \<Rightarrow> False | _ \<Rightarrow> True)"

lemma value_place_simps [simp]: "value_place []" "value_place (InArr vs # st)" "value_place (InVal ms k # st)"
  by (simp_all add: value_place_def)

lemma scan_print:
  "json_ok v \<Longrightarrow> depth v + length st \<le> maxNestingDepth \<Longrightarrow> value_place st \<Longrightarrow> closer c \<Longrightarrow>
    scan_all (print v @ c # rest) (BeginValue, st) = scan_all (c # rest) (EndValue v, st)"
  "vs \<noteq> [] \<Longrightarrow> (\<forall>v \<in> set vs. json_ok v \<and> depth v + Suc (length st) \<le> maxNestingDepth) \<Longrightarrow>
    scan_all (print_elems vs @ CHR '']'' # rest) (BeginValue, InArr acc # st) = scan_all rest (EndValue (JArr (rev acc @ vs)), st)"
  "ms \<noteq> [] \<Longrightarrow> (\<forall>(k, v) \<in> set ms. utf8_ok k \<and> json_ok v \<and> depth v + Suc (length st) \<le> maxNestingDepth) \<Longrightarrow>
    scan_all (print_members ms @ CHR ''}'' # rest) (BeginString, InKey acc' # st) = scan_all rest (EndValue (JObj (rev acc' @ ms)), st)"
proof (induction v and vs and ms arbitrary: c rest st and rest st acc and rest st acc' rule: print_print_elems_print_members.induct)
  case (4 s)
  have "end_string (escape s) st = Some (EndValue (JStr s), st)"
    using 4 unquote_escape[of s] by (auto simp: end_string_def value_place_def split: list.splits opened.splits)
  then show ?case using scan_quote(2)[of s "c # rest" st] 4(1) by simp
next
  case (5 vs)
  have st: "length st < maxNestingDepth" using 5(3) by simp
  have open_arr: "scan_all (CHR ''['' # r) (BeginValue, st) = scan_all r (BeginValueOrEmpty, InArr [] # st)" for r
    using st by (simp add: scan_step_def begin_value_def push_def isSpace_def)
  show ?case
  proof (cases vs)
    case Nil
    then show ?thesis using open_arr by (simp add: scan_step_def isSpace_def)
  next
    case (Cons w ws)
    have ok: "\<forall>v \<in> set vs. json_ok v \<and> depth v + Suc (length st) \<le> maxNestingDepth"
      using 5(2,3) depth_le_Suc(1)[of vs "maxNestingDepth - Suc (length st)"] st by (auto simp: Suc_diff_Suc)
    have first: "scan_all (print_elems vs @ r) (BeginValueOrEmpty, InArr [] # st) = scan_all (print_elems vs @ r) (BeginValue, InArr [] # st)" for r
      using scan_first_elem[of w "(if ws = [] then '''' else CHR '','' # print_elems ws) @ r" "InArr [] # st"] ok Cons by simp
    show ?thesis using 5(1)[OF _ ok, of "c # rest" "[]"] open_arr[of "print_elems vs @ CHR '']'' # c # rest"] first Cons by simp
  qed
next
  case (6 ms)
  have st: "length st < maxNestingDepth" using 6(3) by simp
  have open_obj: "scan_all (CHR ''{'' # r) (BeginValue, st) = scan_all r (BeginStringOrEmpty, InKey [] # st)" for r
    using st by (simp add: scan_step_def begin_value_def push_def isSpace_def)
  show ?case
  proof (cases ms)
    case Nil
    then show ?thesis using open_obj by (simp add: scan_step_def isSpace_def)
  next
    case (Cons m ns)
    obtain k v where m: "m = (k, v)" by fastforce
    have ok: "\<forall>(k, v) \<in> set ms. utf8_ok k \<and> json_ok v \<and> depth v + Suc (length st) \<le> maxNestingDepth"
      using 6(2,3) depth_le_Suc(2)[of ms "maxNestingDepth - Suc (length st)"] st by (auto simp: Suc_diff_Suc)
    have first: "scan_all (print_members ms @ r) (BeginStringOrEmpty, InKey [] # st) = scan_all (print_members ms @ r) (BeginString, InKey [] # st)" for r
      using scan_first_member[of k "CHR '':'' # print v @ (if ns = [] then '''' else CHR '','' # print_members ns) @ r" "InKey [] # st"] Cons m by simp
    show ?thesis using 6(1)[OF _ ok, of "c # rest" "[]"] open_obj[of "print_members ms @ CHR ''}'' # c # rest"] first Cons by simp
  qed
next
  case (8 v vs)
  show ?case
  proof (cases "vs = []")
    case True
    then show ?thesis using 8(1)[of "InArr acc # st" "CHR '']''" rest] 8(4) by (simp add: closer_def end_value_closers)
  next
    case False
    then show ?thesis
      using 8(1)[of "InArr acc # st" "CHR '',''" "print_elems vs @ CHR '']'' # rest"] 8(2)[OF False, of st rest "v # acc"] 8(4)
      by (simp add: closer_def end_value_closers)
  qed
next
  case (10 k v ms)
  show ?case
  proof (cases "ms = []")
    case True
    then show ?thesis using 10(1)[of "InVal acc' k # st" "CHR ''}''" rest] 10(4) by (simp add: scan_key closer_def end_value_closers)
  next
    case False
    then show ?thesis
      using 10(1)[of "InVal acc' k # st" "CHR '',''" "print_members ms @ CHR ''}'' # rest"] 10(2)[OF False, of st rest "(k, v) # acc'"] 10(4)
      by (simp add: scan_key closer_def end_value_closers)
  qed
qed (auto simp: scan_number scan_step_def begin_value_def isSpace_def)

lemma parse_print:
  assumes "json_ok v" and "depth v \<le> maxNestingDepth"
  shows "parse (print v) = Some v"
  using scan_print(1)[OF assms(1), of "[]" "CHR '' ''" "[]"] assms(2)
  by (simp add: parse_def scan_start_def closer_def isSpace_def end_value_def)

end
