(* ===== verification/JsonTypes.thy ===== *)
theory JsonTypes
  imports Json
begin

text \<open>
  How \<open>encoding/json\<close> writes and reads the types the repository sends and stores: the integers,
  strings, hashes, byte slices (in base 64), pointers, slices and structs. A decoder takes the value
  the variable has before, since null leaves it alone and an object changes only the fields it
  names; \<open>None\<close> is any error of \<open>Unmarshal\<close>, after which every caller drops the variable. The
  locale \<open>json_codec\<close> is what an encoder and a decoder owe each other.
\<close>

subsection \<open>Numbers\<close>

definition fmt_i :: "int \<Rightarrow> string" where
  "fmt_i i = (if i < 0 then CHR ''-'' # fmt_d (nat (- i)) else fmt_d (nat i))"

text \<open>\<open>strconv.ParseInt(s, 10, 64)\<close>, on the text of a JSON number.\<close>

definition ParseInt :: "string \<Rightarrow> int option" where
  "ParseInt s = (case s of [] \<Rightarrow> None | c # cs \<Rightarrow>
     let neg = (c = CHR ''-''); ds = (if neg \<or> c = CHR ''+'' then cs else s) in
     case ParseUint ds of None \<Rightarrow> None | Some n \<Rightarrow>
       if neg then (if unat n \<le> 2 ^ 63 then Some (- uint n) else None)
       else (if unat n < 2 ^ 63 then Some (uint n) else None))"

definition enc_u64 :: "u64 \<Rightarrow> json" where
  "enc_u64 n = JNum (fmt_d (unat n))"

definition dec_u64 :: "json \<Rightarrow> u64 \<Rightarrow> u64 option" where
  "dec_u64 v old = (case v of JNum t \<Rightarrow> ParseUint t | JNull \<Rightarrow> Some old | _ \<Rightarrow> None)"

definition enc_int :: "int \<Rightarrow> json" where
  "enc_int i = JNum (fmt_i i)"

definition dec_int :: "json \<Rightarrow> int \<Rightarrow> int option" where
  "dec_int v old = (case v of JNum t \<Rightarrow> ParseInt t | JNull \<Rightarrow> Some old | _ \<Rightarrow> None)"

definition enc_i64 :: "i64 \<Rightarrow> json" where
  "enc_i64 n = enc_int (sint n)"

definition dec_i64 :: "json \<Rightarrow> i64 \<Rightarrow> i64 option" where
  "dec_i64 v old = map_option of_int (dec_int v (sint old))"

subsection \<open>Strings and hashes\<close>

definition enc_string :: "string \<Rightarrow> json" where
  "enc_string s = JStr s"

definition dec_string :: "json \<Rightarrow> string \<Rightarrow> string option" where
  "dec_string v old = (case v of JStr s \<Rightarrow> Some s | JNull \<Rightarrow> Some old | _ \<Rightarrow> None)"

text \<open>\<open>Hash.MarshalJSON\<close> and \<open>Hash.UnmarshalJSON\<close>, which is called for null too and reads it as an empty string.\<close>

definition enc_hash :: "hash \<Rightarrow> json" where
  "enc_hash h = JStr (hash_String h)"

definition dec_hash :: "json \<Rightarrow> hash \<Rightarrow> hash option" where
  "dec_hash v old = (case dec_string v '''' of None \<Rightarrow> None | Some s \<Rightarrow> hash_Unmarshal s)"

subsection \<open>Base 64\<close>

definition b64Alphabet :: string where
  "b64Alphabet = ''ABCDEFGHIJKLMNOPQRSTUVWXYZabcdefghijklmnopqrstuvwxyz0123456789+/''"

definition b64_char :: "nat \<Rightarrow> char" where
  "b64_char n = b64Alphabet ! n"

definition b64_value :: "char \<Rightarrow> nat option" where
  "b64_value c = (let n = code c in
     if 65 \<le> n \<and> n \<le> 90 then Some (n - 65) else if 97 \<le> n \<and> n \<le> 122 then Some (n - 71)
     else if 48 \<le> n \<and> n \<le> 57 then Some (n + 4) else if c = CHR ''+'' then Some 62
     else if c = CHR ''/'' then Some 63 else None)"

fun b64_encode :: "bytes \<Rightarrow> string" where
  "b64_encode [] = []"
| "b64_encode [a] = [b64_char (unat a div 4), b64_char (unat a mod 4 * 16), CHR ''='', CHR ''='']"
| "b64_encode [a, b] = [b64_char (unat a div 4), b64_char (unat a mod 4 * 16 + unat b div 16), b64_char (unat b mod 16 * 4), CHR ''='']"
| "b64_encode (a # b # c # bs) = b64_char (unat a div 4) # b64_char (unat a mod 4 * 16 + unat b div 16)
     # b64_char (unat b mod 16 * 4 + unat c div 64) # b64_char (unat c mod 64) # b64_encode bs"

text \<open>The groups of four characters; padding ends the input.\<close>

fun b64_groups :: "string \<Rightarrow> bytes option" where
  "b64_groups [] = Some []"
| "b64_groups (p # q # r # s # cs) = (case (b64_value p, b64_value q) of (Some w, Some x) \<Rightarrow>
     let a = of_nat (w * 4 + x div 16) in
     (case b64_value r of
       None \<Rightarrow> if r = CHR ''='' \<and> s = CHR ''='' \<and> cs = [] then Some [a] else None
     | Some y \<Rightarrow> let b = of_nat (x mod 16 * 16 + y div 4) in
         (case b64_value s of
           None \<Rightarrow> if s = CHR ''='' \<and> cs = [] then Some [a, b] else None
         | Some z \<Rightarrow> map_option (\<lambda>bs. a # b # of_nat (y mod 4 * 64 + z) # bs) (b64_groups cs)))
   | _ \<Rightarrow> None)"
| "b64_groups _ = None"

definition b64_decode :: "string \<Rightarrow> bytes option" where
  "b64_decode s = b64_groups (filter (\<lambda>c. c \<noteq> CHR 0x0D \<and> c \<noteq> CHR 0x0A) s)"

subsection \<open>Slices, pointers and structs\<close>

text \<open>The elements of an array are decoded into the elements the slice has, and into zero values after them.\<close>

fun dec_elems :: "(json \<Rightarrow> 'a \<Rightarrow> 'a option) \<Rightarrow> 'a \<Rightarrow> json list \<Rightarrow> 'a list \<Rightarrow> 'a list option" where
  "dec_elems dec zero [] old = Some []"
| "dec_elems dec zero (v # vs) old =
     (case dec v (case old of [] \<Rightarrow> zero | x # _ \<Rightarrow> x) of None \<Rightarrow> None
      | Some x \<Rightarrow> map_option (\<lambda>xs. x # xs) (dec_elems dec zero vs (drop 1 old)))"

text \<open>An empty list is the nil slice, which is written as null; where the code makes an empty slice, \<open>enc_array\<close>.\<close>

definition enc_array :: "('a \<Rightarrow> json) \<Rightarrow> 'a list \<Rightarrow> json" where
  "enc_array enc xs = JArr (map enc xs)"

definition enc_slice :: "('a \<Rightarrow> json) \<Rightarrow> 'a list \<Rightarrow> json" where
  "enc_slice enc xs = (if xs = [] then JNull else JArr (map enc xs))"

definition dec_slice :: "(json \<Rightarrow> 'a \<Rightarrow> 'a option) \<Rightarrow> 'a \<Rightarrow> json \<Rightarrow> 'a list \<Rightarrow> 'a list option" where
  "dec_slice dec zero v old = (case v of JArr vs \<Rightarrow> dec_elems dec zero vs old | JNull \<Rightarrow> Some [] | _ \<Rightarrow> None)"

definition dec_byte :: "json \<Rightarrow> byte \<Rightarrow> byte option" where
  "dec_byte v old = (case v of JNum t \<Rightarrow> (case ParseUint t of None \<Rightarrow> None
     | Some n \<Rightarrow> if unat n < 256 then Some (ucast n) else None) | JNull \<Rightarrow> Some old | _ \<Rightarrow> None)"

definition enc_bytes :: "bytes option \<Rightarrow> json" where
  "enc_bytes bs = (case bs of None \<Rightarrow> JNull | Some bs \<Rightarrow> JStr (b64_encode bs))"

definition dec_bytes :: "json \<Rightarrow> bytes option \<Rightarrow> bytes option option" where
  "dec_bytes v old = (case v of JStr s \<Rightarrow> map_option Some (b64_decode s) | JNull \<Rightarrow> Some None
     | JArr vs \<Rightarrow> map_option Some (dec_elems dec_byte 0 vs (case old of None \<Rightarrow> [] | Some bs \<Rightarrow> bs)) | _ \<Rightarrow> None)"

definition enc_pointer :: "('a \<Rightarrow> json) \<Rightarrow> 'a option \<Rightarrow> json" where
  "enc_pointer enc p = (case p of None \<Rightarrow> JNull | Some x \<Rightarrow> enc x)"

definition dec_pointer :: "(json \<Rightarrow> 'a \<Rightarrow> 'a option) \<Rightarrow> 'a \<Rightarrow> json \<Rightarrow> 'a option \<Rightarrow> 'a option option" where
  "dec_pointer dec zero v old = (case v of JNull \<Rightarrow> Some None
     | _ \<Rightarrow> map_option Some (dec v (case old of None \<Rightarrow> zero | Some x \<Rightarrow> x)))"

lemma dec_pointer_value: "v \<noteq> JNull \<Longrightarrow> dec_pointer dec zero v None = map_option Some (dec v zero)"
  by (cases v) (simp_all add: dec_pointer_def)

text \<open>
  A key names the field it equals up to case: the folding maps ASCII letters to capitals and the two
  runes beyond ASCII that fold to a letter (U+017F and U+212A). Unknown keys are skipped.
\<close>

fun fold_name :: "string \<Rightarrow> string" where
  "fold_name [] = []"
| "fold_name (c # cs) = (
     if code c = 197 \<and> take 1 (map code cs) = [191] then CHR ''S'' # fold_name (drop 1 cs)
     else if code c = 226 \<and> take 2 (map code cs) = [132, 170] then CHR ''K'' # fold_name (drop 2 cs)
     else (if 97 \<le> code c \<and> code c \<le> 122 then char_of (code c - 32) else c) # fold_name cs)"

type_synonym 'a field = "string \<times> (json \<Rightarrow> 'a \<Rightarrow> 'a option)"

fun dec_members :: "'a field list \<Rightarrow> (string \<times> json) list \<Rightarrow> 'a \<Rightarrow> 'a option" where
  "dec_members fs [] x = Some x"
| "dec_members fs ((k, v) # ms) x = (case find (\<lambda>(n, dec). fold_name n = fold_name k) fs of
     None \<Rightarrow> dec_members fs ms x
   | Some (n, dec) \<Rightarrow> (case dec v x of None \<Rightarrow> None | Some x \<Rightarrow> dec_members fs ms x))"

definition dec_struct :: "'a field list \<Rightarrow> json \<Rightarrow> 'a \<Rightarrow> 'a option" where
  "dec_struct fs v old = (case v of JObj ms \<Rightarrow> dec_members fs ms old | JNull \<Rightarrow> Some old | _ \<Rightarrow> None)"

text \<open>A field of a struct: how to read it and how to set it.\<close>

definition field :: "string \<Rightarrow> (json \<Rightarrow> 'b \<Rightarrow> 'b option) \<Rightarrow> ('a \<Rightarrow> 'b) \<Rightarrow> ('b \<Rightarrow> 'a \<Rightarrow> 'a) \<Rightarrow> 'a field" where
  "field n dec get set' = (n, \<lambda>v x. map_option (\<lambda>y. set' y x) (dec v (get x)))"

subsection \<open>Whole texts\<close>

definition Marshal :: "('a \<Rightarrow> json) \<Rightarrow> 'a \<Rightarrow> string" where
  "Marshal enc x = print (enc x)"

definition Unmarshal :: "(json \<Rightarrow> 'a \<Rightarrow> 'a option) \<Rightarrow> 'a \<Rightarrow> string \<Rightarrow> 'a option" where
  "Unmarshal dec old s = (case parse s of None \<Rightarrow> None | Some v \<Rightarrow> dec v old)"

subsection \<open>The interface of a codec\<close>

text \<open>\<open>ok\<close> are the values that survive, \<open>d\<close> bounds the nesting of what is written.\<close>

locale json_codec =
  fixes enc :: "'a \<Rightarrow> json" and dec :: "json \<Rightarrow> 'a \<Rightarrow> 'a option" and zero :: 'a and ok :: "'a \<Rightarrow> bool" and d :: nat
  assumes dec_enc: "ok x \<Longrightarrow> dec (enc x) zero = Some x"
    and enc_ok: "ok x \<Longrightarrow> json_ok (enc x) \<and> depth (enc x) \<le> d"
begin

lemma Unmarshal_Marshal: "d \<le> maxNestingDepth \<Longrightarrow> ok x \<Longrightarrow> Unmarshal dec zero (Marshal enc x) = Some x"
  using enc_ok[of x] dec_enc[of x] parse_print[of "enc x"] by (simp add: Unmarshal_def Marshal_def)

lemma dec_elems_map: "list_all ok xs \<Longrightarrow> dec_elems dec zero (map enc xs) [] = Some xs"
  by (induction xs) (simp_all add: dec_enc)

lemma array: "json_codec (enc_array enc) (dec_slice dec zero) [] (list_all ok) (Suc d)"
  using enc_ok by unfold_locales (auto simp: enc_array_def dec_slice_def dec_elems_map depth_le_Suc list_all_iff simp del: depth.simps)

lemma slice: "json_codec (enc_slice enc) (dec_slice dec zero) [] (list_all ok) (Suc d)"
proof unfold_locales
  fix xs assume "list_all ok xs"
  with json_codec.dec_enc[OF array] json_codec.enc_ok[OF array]
  show "dec_slice dec zero (enc_slice enc xs) [] = Some xs" "json_ok (enc_slice enc xs) \<and> depth (enc_slice enc xs) \<le> Suc d"
    by (cases "xs = []"; force simp: enc_slice_def enc_array_def dec_slice_def)+
qed

lemma pointer:
  assumes "\<And>x. enc x \<noteq> JNull"
  shows "json_codec (enc_pointer enc) (dec_pointer dec zero) None (\<lambda>p. case p of None \<Rightarrow> True | Some x \<Rightarrow> ok x) d"
  using dec_enc enc_ok assms
  by unfold_locales (auto simp: enc_pointer_def dec_pointer_value dec_pointer_def[of _ _ JNull] split: option.splits)

end

subsection \<open>The codecs of the basic types\<close>

lemma is_digit_code: "is_digit c \<longleftrightarrow> 48 \<le> code c \<and> code c \<le> 57"
  by (simp add: is_digit_def Let_def)

lemma num_run_digits: "list_all is_digit ds \<Longrightarrow> num_run NumInt ds = Some NumInt"
  by (induction ds) (simp_all add: num_step_def)

lemma dec_digits_first: "0 < n \<Longrightarrow> hd (dec_digits n) \<noteq> 0"
proof (induction n rule: dec_digits.induct)
  case (1 n)
  then show ?case by (cases "n < 10") (simp_all add: dec_digits.simps[of n] div_greater_zero_iff)
qed

lemma fmt_d_number:
  obtains c cs where "fmt_d n = c # cs" "is_digit c" "list_all is_digit cs" "c = CHR ''0'' \<longrightarrow> cs = []"
proof -
  obtain k ks where k: "dec_digits n = k # ks" by (cases "dec_digits n") simp_all
  have d: "is_digit (digit_char k)" "list_all is_digit (map digit_char ks)" using fmt_d_digits[of n] k by (simp_all add: fmt_d_def)
  have "ks = []" if z: "digit_char k = CHR ''0''"
  proof -
    have "k < 10" using dec_digits_less[of k n] k by simp
    with z have "k = 0" using digit_char_facts[of k] by (simp add: digit_val_def)
    then have "n = 0" using dec_digits_first[of n] k by (cases n) simp_all
    with k show ?thesis by (simp add: dec_digits.simps[of 0])
  qed
  then show ?thesis using that[of "digit_char k" "map digit_char ks"] d k by (simp add: fmt_d_def)
qed

lemma number_ok_fmt_d: "number_ok (fmt_d n)"
proof -
  obtain c cs where c: "fmt_d n = c # cs" "is_digit c" "list_all is_digit cs" "c = CHR ''0'' \<longrightarrow> cs = []" by (rule fmt_d_number)
  show ?thesis
  proof (cases "c = CHR ''0''")
    case True
    then show ?thesis using c by (simp add: number_ok_def num_start_def num_final_def)
  next
    case False
    moreover have "c \<noteq> CHR ''-''" using c(2) by (auto simp: is_digit_code)
    ultimately show ?thesis using c by (simp add: number_ok_def num_start_def num_run_digits num_final_def)
  qed
qed

lemma number_ok_fmt_i: "number_ok (fmt_i i)"
proof (cases "i < 0")
  case True
  obtain c cs where c: "fmt_d (nat (- i)) = c # cs" "is_digit c" "list_all is_digit cs" "c = CHR ''0'' \<longrightarrow> cs = []" by (rule fmt_d_number)
  show ?thesis
  proof (cases "c = CHR ''0''")
    case zero: True
    then show ?thesis using c True by (simp add: fmt_i_def number_ok_def num_start_def num_step_def num_final_def)
  next
    case False
    then show ?thesis using c True by (simp add: fmt_i_def number_ok_def num_start_def num_step_def num_run_digits num_final_def)
  qed
next
  case False
  then show ?thesis using number_ok_fmt_d by (simp add: fmt_i_def)
qed

lemma fmt_d_nonempty [simp]: "fmt_d n \<noteq> []"
  by (simp add: fmt_d_def)

lemma ParseUint_fmt_d: "n < 2 ^ 64 \<Longrightarrow> ParseUint (fmt_d n) = Some (of_nat n)"
  using fmt_d_digits[of n] by (simp add: ParseUint_def fmt_d_val base_val_dec_digits)

lemma hd_fmt_d: "is_digit (hd (fmt_d n))"
  by (rule fmt_d_number[of n]) simp

lemma ParseInt_fmt_i: "- (2 ^ 63) \<le> i \<Longrightarrow> i < 2 ^ 63 \<Longrightarrow> ParseInt (fmt_i i) = Some i"
proof -
  assume i: "- (2 ^ 63) \<le> i" "i < 2 ^ 63"
  have w: "unat (of_nat n :: u64) = n" "uint (of_nat n :: u64) = int n" if "n < 2 ^ 64" for n
    using that by (simp_all add: unat_of_nat uint_nat)
  show ?thesis
  proof (cases "i < 0")
    case True
    define n where "n = nat (- i)"
    then have n: "n \<le> 2 ^ 63" "i = - int n" using i True by simp_all
    then have n': "n < 2 ^ 64" by simp
    have "fmt_i i = CHR ''-'' # fmt_d n" using True by (simp add: fmt_i_def n_def)
    then show ?thesis using n w[OF n'] ParseUint_fmt_d[OF n'] by (simp add: ParseInt_def)
  next
    case False
    then have n: "nat i < 2 ^ 63" using i by simp
    then have n': "nat i < 2 ^ 64" by simp
    obtain c cs where c: "fmt_d (nat i) = c # cs" "is_digit c" by (rule fmt_d_number[of "nat i"])
    then have "c \<noteq> CHR ''-''" "c \<noteq> CHR ''+''" by (auto simp: is_digit_code)
    with False n c(1) show ?thesis using ParseUint_fmt_d[OF n'] w[OF n'] by (simp add: ParseInt_def fmt_i_def)
  qed
qed

interpretation u64_json: json_codec enc_u64 dec_u64 0 "\<lambda>_. True" 0
proof unfold_locales
  fix x :: u64
  show "dec_u64 (enc_u64 x) 0 = Some x" using ParseUint_fmt_d[of "unat x"] unsigned_less[of x] by (simp add: enc_u64_def dec_u64_def)
  show "json_ok (enc_u64 x) \<and> depth (enc_u64 x) \<le> 0" by (simp add: enc_u64_def number_ok_fmt_d)
qed

definition int_ok :: "int \<Rightarrow> bool" where
  "int_ok i \<longleftrightarrow> - (2 ^ 63) \<le> i \<and> i < 2 ^ 63"

interpretation int_json: json_codec enc_int dec_int 0 int_ok 0
  by unfold_locales (simp_all add: enc_int_def dec_int_def int_ok_def ParseInt_fmt_i number_ok_fmt_i)

interpretation i64_json: json_codec enc_i64 dec_i64 0 "\<lambda>_. True" 0
proof unfold_locales
  fix x :: i64
  have "int_ok (sint x)" using sint_ge[of x] sint_lt[of x] by (simp add: int_ok_def)
  then show "dec_i64 (enc_i64 x) 0 = Some x" using int_json.dec_enc[of "sint x"] by (simp add: enc_i64_def dec_i64_def)
  show "json_ok (enc_i64 x) \<and> depth (enc_i64 x) \<le> 0" by (simp add: enc_i64_def enc_int_def number_ok_fmt_i)
qed

interpretation string_json: json_codec enc_string dec_string "''''" utf8_ok 0
  by unfold_locales (simp_all add: enc_string_def dec_string_def)

text \<open>ASCII is UTF-8.\<close>

lemma utf8_ok_ascii: "list_all (\<lambda>c. code c < 128) s \<Longrightarrow> utf8_ok s"
  by (induction s) simp_all

lemma hash_String_ascii: "list_all (\<lambda>c. code c < 128) (hash_String h)"
proof -
  have "code (hexAlphabet ! k) < 128" if "k < 16" for k
  proof -
    have "list_all (\<lambda>k. code (hexAlphabet ! k) < 128) [0..<16]" by code_simp
    then show ?thesis using that by (simp add: list_all_iff)
  qed
  moreover have "unat (b :: byte) div 16 < 16" for b using unat_byte_less[of b] by simp
  ultimately show ?thesis by (simp add: hash_String_def hex_EncodeToString_def list_all_iff)
qed

interpretation hash_json: json_codec enc_hash dec_hash 0 "\<lambda>_. True" 0
  by unfold_locales (simp_all add: enc_hash_def dec_hash_def dec_string_def hash_unmarshal_String hash_String_ascii utf8_ok_ascii)

subsection \<open>Base 64 round trip\<close>

lemma b64_char_facts:
  assumes "n < 64"
  shows "b64_value (b64_char n) = Some n" and "b64_char n \<noteq> CHR 0x0D" and "b64_char n \<noteq> CHR 0x0A" and "code (b64_char n) < 128"
proof -
  have v: "map b64_value b64Alphabet = map Some [0..<64]"
    by (simp add: b64Alphabet_def b64_value_def upt_rec)
  have l: "length b64Alphabet = 64" by (simp add: b64Alphabet_def)
  have "b64_value (b64Alphabet ! n) = map b64_value b64Alphabet ! n" using assms l by simp
  then show "b64_value (b64_char n) = Some n" unfolding v using assms by (simp add: b64_char_def)
  have "list_all (\<lambda>c. c \<noteq> CHR 0x0D \<and> c \<noteq> CHR 0x0A \<and> code c < 128) b64Alphabet"
    by (simp add: b64Alphabet_def)
  then show "b64_char n \<noteq> CHR 0x0D" "b64_char n \<noteq> CHR 0x0A" "code (b64_char n) < 128"
    using assms l by (simp_all add: list_all_length b64_char_def)
qed

lemma b64_parts:
  fixes a b c :: byte
  shows "unat a div 4 < 64" "unat a mod 4 * 16 < 64" "unat a mod 4 * 16 + unat b div 16 < 64"
    "unat b mod 16 * 4 < 64" "unat b mod 16 * 4 + unat c div 64 < 64" "unat c mod 64 < 64"
  using unat_byte_less[of a] unat_byte_less[of b] unat_byte_less[of c] by simp_all

lemma b64_joins:
  fixes a b c :: byte
  shows "(unat a mod 4 * 16) div 16 = unat a mod 4" "(unat a mod 4 * 16 + unat b div 16) div 16 = unat a mod 4"
    "(unat a mod 4 * 16 + unat b div 16) mod 16 = unat b div 16"
    "(unat b mod 16 * 4) div 4 = unat b mod 16" "(unat b mod 16 * 4 + unat c div 64) div 4 = unat b mod 16"
    "(unat b mod 16 * 4 + unat c div 64) mod 4 = unat c div 64"
proof -
  have "unat b div 16 < 16" "unat c div 64 < 4" using unat_byte_less[of b] unat_byte_less[of c] by simp_all
  then show "(unat a mod 4 * 16 + unat b div 16) div 16 = unat a mod 4" "(unat a mod 4 * 16 + unat b div 16) mod 16 = unat b div 16"
    "(unat b mod 16 * 4 + unat c div 64) div 4 = unat b mod 16" "(unat b mod 16 * 4 + unat c div 64) mod 4 = unat c div 64"
    by simp_all
qed simp_all

lemma b64_small [simp]: "unat (b :: byte) div 16 mod 16 = unat b div 16" "unat (b :: byte) div 64 mod 4 = unat b div 64"
  using unat_byte_less[of b] by simp_all

lemma b64_pad [simp]: "b64_value (CHR ''='') = None"
  by (simp add: b64_value_def)

lemma b64_groups_encode: "b64_groups (b64_encode bs) = Some bs"
proof (induction bs rule: b64_encode.induct)
  case (2 a)
  show ?case by (simp add: b64_char_facts b64_parts b64_joins)
next
  case (3 a b)
  show ?case by (simp add: b64_char_facts b64_parts b64_joins)
next
  case (4 a b c bs)
  then show ?case by (simp add: b64_char_facts b64_parts b64_joins)
qed simp

lemma b64_encode_chars: "list_all (\<lambda>c. c \<noteq> CHR 0x0D \<and> c \<noteq> CHR 0x0A \<and> code c < 128) (b64_encode bs)"
  by (induction bs rule: b64_encode.induct) (simp_all add: b64_char_facts b64_parts)

lemma b64_decode_encode: "b64_decode (b64_encode bs) = Some bs"
proof -
  have "filter (\<lambda>c. c \<noteq> CHR 0x0D \<and> c \<noteq> CHR 0x0A) (b64_encode bs) = b64_encode bs"
    using b64_encode_chars[of bs] by (auto simp: filter_id_conv list_all_iff)
  then show ?thesis by (simp add: b64_decode_def b64_groups_encode)
qed

interpretation bytes_json: json_codec enc_bytes dec_bytes None "\<lambda>_. True" 0
proof unfold_locales
  fix x :: "bytes option"
  show "dec_bytes (enc_bytes x) None = Some x" by (cases x) (simp_all add: enc_bytes_def dec_bytes_def b64_decode_encode)
  have "utf8_ok (b64_encode bs)" for bs using b64_encode_chars[of bs] by (intro utf8_ok_ascii) (simp add: list_all_iff)
  then show "json_ok (enc_bytes x) \<and> depth (enc_bytes x) \<le> 0" by (cases x) (simp_all add: enc_bytes_def)
qed

interpretation hashes_json: json_codec "enc_slice enc_hash" "dec_slice dec_hash 0" "[]" "list_all (\<lambda>_. True)" "Suc 0"
  by (rule hash_json.slice)

interpretation strings_json: json_codec "enc_array enc_string" "dec_slice dec_string ''''" "[]" "list_all utf8_ok" "Suc 0"
  by (rule string_json.array)

end
