(* ===== verification/Codec.thy ===== *)
theory Codec
  imports Prelude
begin

text \<open>
  The binary encoder of \<open>internal/chain/codec.go\<close>: little-endian integers and length-prefixed
  strings and byte slices, each appended to a buffer. The buffer is the list of the bytes
  written so far. \<open>writer\<close> is the interface the transaction and header encodings rely on:
  a writer only appends, and what it appends can be split off again in one way.
\<close>

subsection \<open>The writers\<close>

definition writeU64 :: "bytes \<Rightarrow> u64 \<Rightarrow> bytes" where
  "writeU64 buf v = buf @ le_bytes 8 v"

definition writeI64 :: "bytes \<Rightarrow> i64 \<Rightarrow> bytes" where
  "writeI64 buf v = buf @ le_bytes 8 v"

definition writeString :: "bytes \<Rightarrow> string \<Rightarrow> bytes" where
  "writeString buf s = (buf @ le_bytes 4 (of_nat (length s) :: u32)) @ string_bytes s"

definition writeBytes :: "bytes \<Rightarrow> bytes \<Rightarrow> bytes" where
  "writeBytes buf data = (buf @ le_bytes 4 (of_nat (length data) :: u32)) @ data"

subsection \<open>The interface of a writer\<close>

locale writer =
  fixes wr :: "bytes \<Rightarrow> 'a \<Rightarrow> bytes"
    and ok :: "'a \<Rightarrow> bool"
  assumes write_append: "wr buf x = buf @ wr [] x"
    and write_split: "ok x \<Longrightarrow> ok y \<Longrightarrow> wr [] x @ r = wr [] y @ s \<Longrightarrow> x = y \<and> r = s"
begin

lemma write_cancel:
  "ok x \<Longrightarrow> ok y \<Longrightarrow> wr [] x @ r = wr [] y @ s \<longleftrightarrow> x = y \<and> r = s"
  using write_split by blast

lemma write_cancel_last: "ok x \<Longrightarrow> ok y \<Longrightarrow> wr [] x = wr [] y \<longleftrightarrow> x = y"
  using write_split[of x y "[]" "[]"] by auto

lemma write_not_prefix: "ok x \<Longrightarrow> ok y \<Longrightarrow> wr [] x = wr [] y @ s \<Longrightarrow> s = []"
  using write_split[of x y "[]" s] by auto

lemma length_write: "length (wr buf x) = length buf + length (wr [] x)"
  by (subst write_append) simp

end

subsection \<open>The writers of the code are writers\<close>

text \<open>A length that fits 32 bits is read back from its four bytes.\<close>

lemma length_prefix_inject:
  assumes "length xs < 2 ^ 32" and "length ys < 2 ^ 32"
    and "le_bytes 4 (of_nat (length xs) :: u32) = le_bytes 4 (of_nat (length ys) :: u32)"
  shows "length xs = length ys"
proof -
  have "(of_nat (length xs) :: u32) = of_nat (length ys)"
    using assms(3) by (rule le_bytes_inject[rotated]) simp
  then have "unat (of_nat (length xs) :: u32) = unat (of_nat (length ys) :: u32)" by simp
  then show ?thesis using assms(1,2) by (simp add: unat_of_nat)
qed

lemma length_prefixed_split:
  assumes "length xs < 2 ^ 32" and "length ys < 2 ^ 32"
    and "(le_bytes 4 (of_nat (length xs) :: u32) @ xs) @ r
       = (le_bytes 4 (of_nat (length ys) :: u32) @ ys) @ s"
  shows "xs = ys \<and> r = s"
proof -
  from assms(3) have l: "le_bytes 4 (of_nat (length xs) :: u32) = le_bytes 4 (of_nat (length ys) :: u32)"
    and d: "xs @ r = ys @ s"
    by (simp_all add: append_eq_append_conv)
  have "length xs = length ys" using assms(1,2) l by (rule length_prefix_inject)
  with d show ?thesis by (simp add: append_eq_append_conv)
qed

lemma le_bytes8_inject [simp]: "le_bytes 8 (v :: 64 word) = le_bytes 8 w \<longleftrightarrow> v = w"
  using le_bytes_inject[of 8 v w] by auto

interpretation u64_writer: writer writeU64 "\<lambda>_. True"
  by unfold_locales (auto simp: writeU64_def append_eq_append_conv)

interpretation i64_writer: writer writeI64 "\<lambda>_. True"
  by unfold_locales (auto simp: writeI64_def append_eq_append_conv)

interpretation bytes_writer: writer writeBytes "\<lambda>d. length d < 2 ^ 32"
proof unfold_locales
  show "writeBytes buf x = buf @ writeBytes [] x" for buf x
    by (simp add: writeBytes_def)
  show "x = y \<and> r = s"
    if "length x < 2 ^ 32" "length y < 2 ^ 32" "writeBytes [] x @ r = writeBytes [] y @ s"
    for x y :: bytes and r s
    using length_prefixed_split[OF that(1,2), of r s] that(3) by (simp only: writeBytes_def append.simps)
qed

lemma writeString_writeBytes: "writeString buf s = writeBytes buf (string_bytes s)"
  by (simp add: writeString_def writeBytes_def)

interpretation string_writer: writer writeString "\<lambda>s. length s < 2 ^ 32"
proof unfold_locales
  show "writeString buf x = buf @ writeString [] x" for buf x
    by (simp add: writeString_def)
  show "x = y \<and> r = s"
    if "length x < 2 ^ 32" "length y < 2 ^ 32" "writeString [] x @ r = writeString [] y @ s"
    for x y :: string and r s
    using that bytes_writer.write_split[of "string_bytes x" "string_bytes y" r s]
    by (simp add: writeString_writeBytes)
qed

lemma length_writes [simp]:
  "length (writeU64 buf v) = length buf + 8"
  "length (writeI64 buf v) = length buf + 8"
  "length (writeString buf s) = length buf + 4 + length s"
  "length (writeBytes buf d) = length buf + 4 + length d"
  by (simp_all add: writeU64_def writeI64_def writeString_def writeBytes_def)

end
