(* ===== verification/Crypto.thy ===== *)
theory Crypto
  imports Hashes
begin

text \<open>
  \<open>internal/crypto/crypto.go\<close>: addresses, the check of a signature, and the wallet's keys.
  Go's \<open>crypto/ed25519\<close> is the record \<open>ed25519\<close>, an argument of every operation that signs or
  verifies; what the wallet relies on is the contract \<open>ed_contract\<close>: a private key made from a seed has 64
  bytes, and what it signs has 64 bytes and verifies under the key's public half. Nothing is asked of
  byte strings that no seed makes.
\<close>

type_synonym address = string

record ed25519 =
  ed_NewKeyFromSeed :: "bytes \<Rightarrow> bytes"
  ed_Sign :: "bytes \<Rightarrow> bytes \<Rightarrow> bytes"
  ed_Verify :: "bytes \<Rightarrow> bytes \<Rightarrow> bytes \<Rightarrow> bool"

subsection \<open>Addresses\<close>

definition AddressPrefix :: string where
  "AddressPrefix = ''blu1''"

definition checksumLen :: nat where
  "checksumLen = 4"

definition addrLength :: nat where
  "addrLength = length AddressPrefix + 32 + checksumLen"

definition CoinbaseAddress :: address where
  "CoinbaseAddress = ''''"

definition b32Alphabet :: string where
  "b32Alphabet = ''abcdefghijklmnopqrstuvwxyz234567''"

text \<open>
  \<open>base32.Encoding.EncodeToString\<close> without padding: the bytes are one big-endian number, with
  zero bits at the end up to a multiple of five, written in base 32.
\<close>

definition b32_EncodeToString :: "bytes \<Rightarrow> string" where
  "b32_EncodeToString bs = (let k = (8 * length bs + 4) div 5 in
     map (\<lambda>d. b32Alphabet ! d) (base_digits 32 k (SetBytes bs * 2 ^ (5 * k - 8 * length bs))))"

definition computeChecksum :: "string \<Rightarrow> string" where
  "computeChecksum body =
     take checksumLen (hex_EncodeToString (hash_bytes (sha256_Sum256 (string_bytes (AddressPrefix @ body)))))"

definition AddressFromPubKey :: "bytes \<Rightarrow> address" where
  "AddressFromPubKey pk = (if length pk \<noteq> 32 then '''' else
     let sum = sha256_Sum256 pk;
         body = b32_EncodeToString (take 20 (hash_bytes sum))
     in AddressPrefix @ body @ computeChecksum body)"

text \<open>
  The loop \<open>for _, r := range body\<close> accepts exactly the bytes \<open>a\<close>-\<open>z\<close> and \<open>2\<close>-\<open>7\<close>: every
  other byte is a rune outside those ranges, or part of one.
\<close>

definition body_char :: "char \<Rightarrow> bool" where
  "body_char r \<longleftrightarrow> CHR ''a'' \<le> r \<and> r \<le> CHR ''z'' \<or> CHR ''2'' \<le> r \<and> r \<le> CHR ''7''"

definition Valid :: "address \<Rightarrow> bool" where
  "Valid s =
     (if length s \<noteq> addrLength \<or> take (length AddressPrefix) s \<noteq> AddressPrefix then False
      else let body = take (length s - checksumLen - length AddressPrefix) (drop (length AddressPrefix) s)
           in list_all body_char body \<and> computeChecksum body = drop (length s - checksumLen) s)"

subsection \<open>Signatures and wallets\<close>

record wallet =
  Priv :: bytes

text \<open>
  \<open>Priv.Public()\<close> copies the second half of the 64-byte private key. It and \<open>Sign\<close> panic on a key of another
  length, which no wallet of the program has: \<open>LoadWallet\<close> tests the length, and \<open>GenerateKey\<close> makes 64 bytes.
\<close>

definition wallet_PubKey :: "wallet \<Rightarrow> bytes" where
  "wallet_PubKey w = drop 32 (Priv w)"

definition wallet_Address :: "wallet \<Rightarrow> address" where
  "wallet_Address w = AddressFromPubKey (wallet_PubKey w)"

definition wallet_Sign :: "ed25519 \<Rightarrow> wallet \<Rightarrow> bytes \<Rightarrow> bytes" where
  "wallet_Sign ed w msg = ed_Sign ed (Priv w) msg"

definition crypto_Verify :: "ed25519 \<Rightarrow> bytes \<Rightarrow> bytes \<Rightarrow> bytes \<Rightarrow> bool" where
  "crypto_Verify ed pk msg sig =
     (if length pk \<noteq> 32 \<or> length sig \<noteq> 64 then False else ed_Verify ed pk msg sig)"

definition wallet_ok :: "wallet \<Rightarrow> bool" where
  "wallet_ok w \<longleftrightarrow> length (Priv w) = 64"

text \<open>
  The keys \<open>GenerateKey\<close> returns: those \<open>NewKeyFromSeed\<close> makes from 32 bytes. A wallet file may hold 64 other
  bytes, whose public half does not belong to the private one; \<open>LoadWallet\<close> does not tell them apart.
\<close>

definition genuine :: "ed25519 \<Rightarrow> wallet \<Rightarrow> bool" where
  "genuine ed w \<longleftrightarrow> (\<exists>seed. length seed = 32 \<and> Priv w = ed_NewKeyFromSeed ed seed)"

definition ed_contract :: "ed25519 \<Rightarrow> bool" where
  "ed_contract ed \<longleftrightarrow> (\<forall>seed msg. length seed = 32 \<longrightarrow> (let priv = ed_NewKeyFromSeed ed seed in
     length priv = 64 \<and> length (ed_Sign ed priv msg) = 64 \<and> ed_Verify ed (drop 32 priv) msg (ed_Sign ed priv msg)))"

subsection \<open>Facts\<close>

lemma length_AddressPrefix [simp]: "length AddressPrefix = 4"
  by (simp add: AddressPrefix_def)

lemma addrLength_eq [simp]: "addrLength = 40"
  by (simp add: addrLength_def checksumLen_def)

lemma length_computeChecksum [simp]: "length (computeChecksum body) = 4"
  by (simp add: computeChecksum_def checksumLen_def)

lemma b32Alphabet_body_char: "d < 32 \<Longrightarrow> body_char (b32Alphabet ! d)"
proof -
  have "list_all (\<lambda>d. body_char (b32Alphabet ! d)) [0..<32]" by code_simp
  then show "d < 32 \<Longrightarrow> body_char (b32Alphabet ! d)" by (simp add: list_all_iff)
qed

lemma b32_body_chars: "list_all body_char (b32_EncodeToString bs)"
  using base_digits_less[of 32] b32Alphabet_body_char
  by (auto simp: b32_EncodeToString_def Let_def list_all_iff)

lemma length_b32 [simp]: "length (b32_EncodeToString bs) = (8 * length bs + 4) div 5"
  by (simp add: b32_EncodeToString_def Let_def)

lemma Valid_length: "Valid s \<Longrightarrow> length s = 40"
  by (simp add: Valid_def split: if_splits)

lemma Valid_not_coinbase: "Valid s \<Longrightarrow> s \<noteq> CoinbaseAddress"
  using Valid_length[of s] by (auto simp: CoinbaseAddress_def)

lemma Valid_short: "Valid s \<Longrightarrow> length s < 2 ^ 32"
  using Valid_length[of s] by simp

lemma Valid_make:
  "length body = 32 \<Longrightarrow> list_all body_char body \<Longrightarrow> Valid (AddressPrefix @ body @ computeChecksum body)"
  by (simp add: Valid_def checksumLen_def)

lemma Valid_AddressFromPubKey: "length pk = 32 \<Longrightarrow> Valid (AddressFromPubKey pk)"
  by (simp add: AddressFromPubKey_def Let_def Valid_make b32_body_chars)

text \<open>A valid address is fixed by its body.\<close>

lemma Valid_form: "Valid s \<Longrightarrow> s = AddressPrefix @ take 32 (drop 4 s) @ computeChecksum (take 32 (drop 4 s))"
proof -
  assume v: "Valid s"
  then have l: "length s = 40" by (rule Valid_length)
  from v l have "take 4 s = AddressPrefix" and "computeChecksum (take 32 (drop 4 s)) = drop 36 s"
    by (auto simp: Valid_def checksumLen_def Let_def split: if_splits)
  moreover have "s = take 4 s @ take 32 (drop 4 s) @ drop 36 s"
    using append_take_drop_id[of 4 s] append_take_drop_id[of 32 "drop 4 s"] by simp
  ultimately show ?thesis by simp
qed

lemma wallet_Address_Valid: "wallet_ok w \<Longrightarrow> Valid (wallet_Address w)"
  by (simp add: wallet_ok_def wallet_Address_def wallet_PubKey_def Valid_AddressFromPubKey)

lemma genuine_ok: "ed_contract ed \<Longrightarrow> genuine ed w \<Longrightarrow> wallet_ok w"
  by (auto simp: ed_contract_def genuine_def wallet_ok_def Let_def)

lemma wallet_signature_verifies:
  "ed_contract ed \<Longrightarrow> genuine ed w \<Longrightarrow> crypto_Verify ed (wallet_PubKey w) m (wallet_Sign ed w m)"
  by (auto simp: ed_contract_def genuine_def crypto_Verify_def wallet_PubKey_def wallet_Sign_def Let_def)

end
