(* ===== verification/Tx.thy ===== *)
theory Tx
  imports Codec Crypto
begin

text \<open>
  Transactions, \<open>internal/chain/tx.go\<close>: the deterministic encoding, the two hashes made of it and
  the intrinsic check. The two byte slices of a transaction may be nil, which the coinbase rule
  distinguishes from empty while the encoding does not.
\<close>

record tx =
  From :: address
  To :: address
  Amount :: u64
  Fee :: u64
  tx_Nonce :: u64
  tx_Time :: i64
  PubKey :: "bytes option"
  Sig :: "bytes option"

definition slice_bytes :: "bytes option \<Rightarrow> bytes" where
  "slice_bytes s = (case s of None \<Rightarrow> [] | Some b \<Rightarrow> b)"

definition tx_encode :: "bool \<Rightarrow> tx \<Rightarrow> bytes" where
  "tx_encode signing t = (let
     buf = [];
     buf = writeString buf (From t);
     buf = writeString buf (To t);
     buf = writeU64 buf (Amount t);
     buf = writeU64 buf (Fee t);
     buf = writeU64 buf (tx_Nonce t);
     buf = writeI64 buf (tx_Time t);
     buf = writeBytes buf (slice_bytes (PubKey t))
   in if \<not> signing then writeBytes buf (slice_bytes (Sig t)) else buf)"

definition SigningBytes :: "tx \<Rightarrow> bytes" where
  "SigningBytes t = tx_encode True t"

definition tx_Hash :: "tx \<Rightarrow> hash" where
  "tx_Hash t = HashBytes (tx_encode False t)"

definition IsCoinbase :: "tx \<Rightarrow> bool" where
  "IsCoinbase t \<longleftrightarrow> From t = CoinbaseAddress"

datatype tx_error =
    CoinbaseCarriesKey | CoinbaseFee | CoinbaseOutput | EmptyCoinbase
  | InvalidFrom | InvalidTo | ZeroTx | BadPubKeyLength | PubKeyMismatch | BadSignature

text \<open>\<open>Verify\<close>, its checks in the code's order; \<open>None\<close> is the nil error.\<close>

definition tx_Verify :: "ed25519 \<Rightarrow> tx \<Rightarrow> tx_error option" where
  "tx_Verify ed t =
     (if IsCoinbase t then
        if PubKey t \<noteq> None \<or> Sig t \<noteq> None then Some CoinbaseCarriesKey
        else if Fee t \<noteq> 0 then Some CoinbaseFee
        else if To t = CoinbaseAddress \<or> \<not> Valid (To t) then Some CoinbaseOutput
        else if Amount t = 0 then Some EmptyCoinbase
        else None
      else if \<not> Valid (From t) then Some InvalidFrom
      else if \<not> Valid (To t) then Some InvalidTo
      else if Amount t = 0 \<and> Fee t = 0 then Some ZeroTx
      else if length (slice_bytes (PubKey t)) \<noteq> 32 then Some BadPubKeyLength
      else if AddressFromPubKey (slice_bytes (PubKey t)) \<noteq> From t then Some PubKeyMismatch
      else if \<not> crypto_Verify ed (slice_bytes (PubKey t)) (SigningBytes t) (slice_bytes (Sig t)) then Some BadSignature
      else None)"

subsection \<open>Facts\<close>

lemma slice_bytes_simps [simp]: "slice_bytes None = []" "slice_bytes (Some b) = b"
  by (simp_all add: slice_bytes_def)

text \<open>The lengths a 32-bit prefix can hold; every transaction of a frame is far below them.\<close>

definition tx_small :: "tx \<Rightarrow> bool" where
  "tx_small t \<longleftrightarrow> length (From t) < 2 ^ 32 \<and> length (To t) < 2 ^ 32
     \<and> length (slice_bytes (PubKey t)) < 2 ^ 32 \<and> length (slice_bytes (Sig t)) < 2 ^ 32"

lemma tx_encode_append:
  "tx_encode False t = SigningBytes t @ writeBytes [] (slice_bytes (Sig t))"
  unfolding SigningBytes_def tx_encode_def Let_def
  by (simp add: bytes_writer.write_append[of "writeBytes _ _"])

lemma SigningBytes_append:
  "SigningBytes t = writeString [] (From t) @ writeString [] (To t) @ writeU64 [] (Amount t)
     @ writeU64 [] (Fee t) @ writeU64 [] (tx_Nonce t) @ writeI64 [] (tx_Time t)
     @ writeBytes [] (slice_bytes (PubKey t))"
  unfolding SigningBytes_def tx_encode_def Let_def
  by (simp add: writeU64_def writeI64_def writeString_def writeBytes_def)

text \<open>What is signed determines every field but the signature, what is hashed every field.\<close>

lemma SigningBytes_inject:
  assumes "tx_small t" and "tx_small u"
    and "SigningBytes t @ r = SigningBytes u @ s"
  shows "From t = From u \<and> To t = To u \<and> Amount t = Amount u \<and> Fee t = Fee u
       \<and> tx_Nonce t = tx_Nonce u \<and> tx_Time t = tx_Time u \<and> slice_bytes (PubKey t) = slice_bytes (PubKey u) \<and> r = s"
  using assms unfolding SigningBytes_append tx_small_def append_assoc
  by (simp add: u64_writer.write_cancel i64_writer.write_cancel string_writer.write_cancel
      bytes_writer.write_cancel u64_writer.write_cancel_last i64_writer.write_cancel_last)

lemma tx_encode_inject:
  assumes "tx_small t" and "tx_small u" and "tx_encode False t = tx_encode False u"
  shows "From t = From u \<and> To t = To u \<and> Amount t = Amount u \<and> Fee t = Fee u
       \<and> tx_Nonce t = tx_Nonce u \<and> tx_Time t = tx_Time u \<and> slice_bytes (PubKey t) = slice_bytes (PubKey u)
       \<and> slice_bytes (Sig t) = slice_bytes (Sig u)"
proof -
  from assms have "SigningBytes t @ writeBytes [] (slice_bytes (Sig t)) = SigningBytes u @ writeBytes [] (slice_bytes (Sig u))"
    by (simp add: tx_encode_append)
  from SigningBytes_inject[OF assms(1,2) this] assms(1,2) show ?thesis
    by (simp add: bytes_writer.write_cancel_last tx_small_def)
qed

lemma tx_Verify_regular:
  "\<not> IsCoinbase t \<Longrightarrow> tx_Verify ed t = None \<longleftrightarrow>
     Valid (From t) \<and> Valid (To t) \<and> \<not> (Amount t = 0 \<and> Fee t = 0) \<and> length (slice_bytes (PubKey t)) = 32
     \<and> AddressFromPubKey (slice_bytes (PubKey t)) = From t
     \<and> crypto_Verify ed (slice_bytes (PubKey t)) (SigningBytes t) (slice_bytes (Sig t))"
  by (simp add: tx_Verify_def)

lemma tx_Verify_coinbase:
  "IsCoinbase t \<Longrightarrow> tx_Verify ed t = None \<longleftrightarrow>
     PubKey t = None \<and> Sig t = None \<and> Fee t = 0 \<and> Valid (To t) \<and> Amount t \<noteq> 0"
  using Valid_not_coinbase[of "To t"] by (auto simp: tx_Verify_def)

lemma tx_Verify_To: "tx_Verify ed t = None \<Longrightarrow> Valid (To t)"
  by (cases "IsCoinbase t") (simp_all add: tx_Verify_regular tx_Verify_coinbase)

text \<open>The transaction hash does not see whether an empty slice_bytes is nil.\<close>

lemma tx_Hash_slices:
  "tx_Hash (t\<lparr>PubKey := p, Sig := s\<rparr>) = tx_Hash t"
  if "slice_bytes p = slice_bytes (PubKey t)" and "slice_bytes s = slice_bytes (Sig t)"
  using that by (simp add: tx_Hash_def tx_encode_def Let_def)

subsection \<open>Signing with a wallet\<close>

text \<open>The transaction \<open>Node.Send\<close> builds: all fields set, then the signature over them.\<close>

definition sign_tx :: "ed25519 \<Rightarrow> wallet \<Rightarrow> tx \<Rightarrow> tx" where
  "sign_tx ed w t = t\<lparr>Sig := Some (wallet_Sign ed w (SigningBytes t))\<rparr>"

lemma SigningBytes_Sig [simp]: "SigningBytes (t\<lparr>Sig := s\<rparr>) = SigningBytes t"
  by (simp add: SigningBytes_def tx_encode_def Let_def)

lemma sign_tx_verifies:
  assumes "ed_contract ed" and "genuine ed w" and "From t = wallet_Address w"
    and "PubKey t = Some (wallet_PubKey w)" and "Valid (To t)" and "Amount t \<noteq> 0 \<or> Fee t \<noteq> 0"
  shows "tx_Verify ed (sign_tx ed w t) = None"
proof -
  have v: "Valid (From t)" using assms by (simp add: wallet_Address_Valid[OF genuine_ok])
  then have "\<not> IsCoinbase (sign_tx ed w t)"
    using Valid_not_coinbase by (auto simp: IsCoinbase_def sign_tx_def)
  with v assms wallet_signature_verifies[OF assms(1,2), of "SigningBytes t"] show ?thesis
    by (auto simp: tx_Verify_regular sign_tx_def wallet_Address_def crypto_Verify_def split: if_splits)
qed

end
