(* ===== verification/Params.thy ===== *)
theory Params
  imports Positional
begin

text \<open>
  The consensus rules of \<open>internal/chain/params.go\<close>: the reward schedule, the proof-of-work
  target and the difficulty retarget. \<open>big.Int\<close> values are naturals here, all of them are
  non-negative in the code. The retarget takes the two blocks' fields it reads; \<open>Block.thy\<close>
  applies it to blocks.
\<close>

record params =
  GenesisTime :: i64
  InitialReward :: u64
  HalvingInterval :: u64
  BlocksPerRetarget :: u64
  TargetBlockTime :: i64
  MaxTxsPerBlock :: int
  MaxFutureTime :: i64

definition DefaultParams :: params where
  "DefaultParams = \<lparr> GenesisTime = 1727049600000, InitialReward = 100000000,
     HalvingInterval = 10080, BlocksPerRetarget = 20, TargetBlockTime = 360000,
     MaxTxsPerBlock = 1000, MaxFutureTime = 300000 \<rparr>"

definition TestParams :: params where
  "TestParams = \<lparr> GenesisTime = 1700000000000, InitialReward = 100000000,
     HalvingInterval = 10080, BlocksPerRetarget = 1000, TargetBlockTime = 1000,
     MaxTxsPerBlock = 1000, MaxFutureTime = 300000 \<rparr>"

subsection \<open>Rewards\<close>

text \<open>The division panics when the interval is zero.\<close>

definition RewardAt :: "params \<Rightarrow> u64 \<Rightarrow> u64 run" where
  "RewardAt p height = (if HalvingInterval p = 0 then Panic else
     let halvings = height div HalvingInterval p in
       if halvings \<ge> 64 then Ret 0 else Ret (drop_bit (unat halvings) (InitialReward p)))"

subsection \<open>Targets\<close>

definition MaxTarget :: nat where
  "MaxTarget = 2 ^ 256 - 1"

definition Target :: "u64 \<Rightarrow> nat" where
  "Target difficulty = (let d = (if difficulty = 0 then 1 else difficulty) in MaxTarget div unat d)"

subsection \<open>The retarget\<close>

definition MaxUint64 :: u64 where
  "MaxUint64 = 0xFFFFFFFFFFFFFFFF"

text \<open>
  The arithmetic on times is Go's on \<open>int64\<close> and wraps. In the default case \<open>actual\<close> is
  positive, so the division is one of naturals. \<open>d.BitLen() > 64\<close> is \<open>2 ^ 64 \<le> d\<close>.
\<close>

definition retarget :: "params \<Rightarrow> u64 \<Rightarrow> i64 \<Rightarrow> i64 \<Rightarrow> u64" where
  "retarget p tip_difficulty tip_time anchor_time = (let
     expected = (let e = TargetBlockTime p * BlocksPerRetarget p in if sint e \<le> 0 then 1 else e);
     actual = tip_time - anchor_time;
     d = unat tip_difficulty;
     d = (if sint actual \<le> 0 \<or> sint (actual * 4) < sint expected then d * 4
          else if sint actual > sint (4 * expected) then d div 4
          else d * nat (sint expected) div nat (sint actual));
     d = (if d \<le> 0 then 1 else d)
   in if 2 ^ 64 \<le> d then MaxUint64 else of_nat d)"


subsection \<open>The reward schedule\<close>

definition reward_nat :: "params \<Rightarrow> nat \<Rightarrow> nat" where
  "reward_nat p h = unat (InitialReward p) div 2 ^ (h div unat (HalvingInterval p))"

lemma unat_u64_less: "unat (x :: u64) < 2 ^ 64"
proof -
  have "unat x < 2 ^ LENGTH(64)" by (rule unsigned_less)
  then show ?thesis by simp
qed

text \<open>\<open>RewardAt\<close> halves the initial reward once per interval, and is zero from the 64th on.\<close>

lemma RewardAt_eq:
  assumes "HalvingInterval p \<noteq> 0"
  obtains r where "RewardAt p h = Ret r" and "unat r = reward_nat p (unat h)"
proof (cases "h div HalvingInterval p \<ge> 64")
  case True
  then have "64 \<le> unat h div unat (HalvingInterval p)"
    by (simp add: word_le_nat_alt unat_div)
  then have "(2 :: nat) ^ 64 \<le> 2 ^ (unat h div unat (HalvingInterval p))"
    by (rule power_increasing) simp
  with unat_u64_less[of "InitialReward p"]
  have "reward_nat p (unat h) = 0" by (simp add: reward_nat_def)
  with True assms that[of 0] show ?thesis by (simp add: RewardAt_def)
next
  case False
  let ?r = "drop_bit (unat (h div HalvingInterval p)) (InitialReward p)"
  have "unat ?r = reward_nat p (unat h)"
    unfolding unat_drop_bit_eq by (simp add: reward_nat_def drop_bit_eq_div unat_div)
  with False assms that[of ?r] show ?thesis by (simp add: RewardAt_def Let_def)
qed

lemma RewardAt_returns: "HalvingInterval p \<noteq> 0 \<Longrightarrow> returns (RewardAt p h)"
  by (metis RewardAt_eq returns_simps(1))

lemma RewardAt_unat: "RewardAt p h = Ret r \<Longrightarrow> unat r = reward_nat p (unat h)"
proof -
  assume r: "RewardAt p h = Ret r"
  then have "HalvingInterval p \<noteq> 0" by (auto simp: RewardAt_def)
  then obtain r' where "RewardAt p h = Ret r'" and "unat r' = reward_nat p (unat h)"
    by (rule RewardAt_eq)
  with r show ?thesis by simp
qed

text \<open>Sums over runs of equal length.\<close>

lemma sum_run: "(\<Sum>h \<in> {q * k..<q * k + q}. f (h div q)) = q * f (k :: nat)" for f :: "nat \<Rightarrow> nat"
proof -
  have "(\<Sum>h \<in> {q * k..<q * k + q}. f (h div q)) = (\<Sum>h \<in> {q * k..<q * k + q}. f k)"
    by (rule sum.cong) (auto intro!: arg_cong[where f = f] div_nat_eqI)
  then show ?thesis by simp
qed

lemma sum_runs: "(\<Sum>h < q * k. f (h div q)) = q * (\<Sum>i < k. f i)" for f :: "nat \<Rightarrow> nat"
proof (induction k)
  case (Suc k)
  have "{..<q * Suc k} = {..<q * k} \<union> {q * k..<q * k + q}" by auto
  moreover have "{..<q * k} \<inter> {q * k..<q * k + q} = {}" by auto
  ultimately show ?case
    using Suc sum_run[of f q k] by (simp add: sum.union_disjoint algebra_simps)
qed simp

lemma sum_halvings: "(\<Sum>i < k. R div 2 ^ i) \<le> 2 * (R :: nat)"
proof -
  have "(\<Sum>i < k. R div 2 ^ i) + 2 * (R div 2 ^ k) \<le> 2 * R" for k
  proof (induction k)
    case (Suc k)
    have "R div 2 ^ k \<ge> 2 * (R div 2 ^ Suc k)"
      by (simp add: div_mult2_eq mult.commute[of 2 "2 ^ k"])
    with Suc show ?case by simp
  qed simp
  from this[of k] show ?thesis by simp
qed

text \<open>The rewards of the first \<open>n\<close> heights stay below twice the first era's.\<close>

lemma reward_sum_bound:
  assumes "HalvingInterval p \<noteq> 0"
  shows "(\<Sum>h < n. reward_nat p h) \<le> 2 * unat (HalvingInterval p) * unat (InitialReward p)"
proof -
  let ?q = "unat (HalvingInterval p)"
  have "0 < ?q" using assms by (simp add: unat_gt_0)
  then have "n \<le> ?q * n" by (cases ?q) auto
  then have "(\<Sum>h < n. reward_nat p h) \<le> (\<Sum>h < ?q * n. reward_nat p h)"
    by (intro sum_mono2) auto
  also have "\<dots> = ?q * (\<Sum>i < n. unat (InitialReward p) div 2 ^ i)"
    unfolding reward_nat_def by (rule sum_runs)
  also have "\<dots> \<le> ?q * (2 * unat (InitialReward p))"
    by (intro mult_left_mono sum_halvings) simp
  finally show ?thesis by (simp add: ac_simps)
qed

text \<open>The total of the default schedule, \<open>TestTotalSupply\<close>'s constant.\<close>

lemma default_reward_nat: "reward_nat DefaultParams h = 100000000 div 2 ^ (h div 10080)"
  by (simp add: reward_nat_def DefaultParams_def)

lemma default_rewards_end: "272160 \<le> h \<Longrightarrow> reward_nat DefaultParams h = 0"
proof -
  assume "272160 \<le> h"
  then have "27 \<le> h div 10080" by simp
  then have "(2 :: nat) ^ 27 \<le> 2 ^ (h div 10080)" by (rule power_increasing) simp
  then show ?thesis by (simp add: default_reward_nat)
qed

lemma default_reward_total: "(\<Sum>h < 272160. reward_nat DefaultParams h) = 2015999879040"
proof -
  have "(\<Sum>h < 10080 * 27. 100000000 div 2 ^ (h div 10080)) = 10080 * (\<Sum>i < 27. 100000000 div 2 ^ i :: nat)"
    by (rule sum_runs)
  also have "(\<Sum>i < 27. 100000000 div 2 ^ i :: nat) = sum_list (map (\<lambda>i. 100000000 div 2 ^ i) [0..<27])"
    by (simp add: interv_sum_list_conv_sum_set_nat atLeast0LessThan)
  also have "[0..<27] = [0, 1, 2, 3, 4, 5, 6, 7, 8, 9, 10, 11, 12, 13, 14, 15, 16, 17, 18, 19,
      20, 21, 22, 23, 24, 25, 26]" by (simp add: upt_rec)
  also have "10080 * sum_list (map (\<lambda>i. 100000000 div 2 ^ i :: nat) \<dots>) = 2015999879040" by simp
  finally show ?thesis by (simp add: default_reward_nat)
qed

lemma default_reward_sum: "(\<Sum>h < n. reward_nat DefaultParams h) \<le> 2015999879040"
proof -
  have "(\<Sum>h < n. reward_nat DefaultParams h) \<le> (\<Sum>h < n + 272160. reward_nat DefaultParams h)"
    by (rule sum_mono2) auto
  also have "\<dots> = (\<Sum>h < 272160. reward_nat DefaultParams h)"
    by (rule sum.mono_neutral_right) (auto simp: default_rewards_end)
  finally show ?thesis by (simp add: default_reward_total)
qed

subsection \<open>The retarget without wrap-around\<close>

text \<open>
  The rule on exact integers. For times and parameters whose products fit an \<open>int64\<close> the
  code computes it, capped at the largest \<open>uint64\<close>.
\<close>

definition retarget_exact :: "int \<Rightarrow> int \<Rightarrow> nat \<Rightarrow> nat" where
  "retarget_exact expected actual d = max 1
     (if actual \<le> 0 \<or> actual * 4 < expected then d * 4
      else if actual > 4 * expected then d div 4
      else d * nat expected div nat actual)"

lemma sint_mult_exact:
  fixes a b :: i64
  assumes "\<bar>sint a * sint b\<bar> < 2 ^ 63"
  shows "sint (a * b) = sint a * sint b"
  using assms by (simp add: sint_word_ariths signed_take_bit_int_eq_self)

lemma sint_diff_exact:
  fixes a b :: i64
  assumes "\<bar>sint a - sint b\<bar> < 2 ^ 63"
  shows "sint (a - b) = sint a - sint b"
  using assms by (simp add: sint_word_ariths signed_take_bit_int_eq_self)

lemma sint_add_exact:
  fixes a b :: i64
  assumes "\<bar>sint a + sint b\<bar> < 2 ^ 63"
  shows "sint (a + b) = sint a + sint b"
  using assms by (simp add: sint_word_ariths signed_take_bit_int_eq_self)

lemma retarget_exact_eq:
  assumes expected: "sint (TargetBlockTime p) * sint (BlocksPerRetarget p) = expected"
    and range: "0 < expected" "expected < 2 ^ 61" "\<bar>sint time - sint anchor\<bar> < 2 ^ 61"
  shows "unat (retarget p d time anchor)
       = min (2 ^ 64 - 1) (retarget_exact expected (sint time - sint anchor) (unat d))"
proof -
  define E where "E = TargetBlockTime p * BlocksPerRetarget p"
  define A where "A = time - anchor"
  have e: "sint E = expected"
    using sint_mult_exact[of "TargetBlockTime p" "BlocksPerRetarget p"] expected range
    by (simp add: E_def)
  have a: "sint A = sint time - sint anchor"
    unfolding A_def using range by (intro sint_diff_exact) simp
  have a4: "sint (A * 4) = sint A * 4"
    using sint_mult_exact[of A 4] range a by simp
  have e4: "sint (4 * E) = 4 * sint E"
    using sint_mult_exact[of 4 E] range e by simp
  define x where "x = retarget_exact expected (sint time - sint anchor) (unat d)"
  have "(if y \<le> 0 then 1 else y) = max 1 y" for y :: nat by simp
  moreover have "\<not> sint E \<le> 0" using e range(1) by simp
  ultimately have "retarget p d time anchor = (if 2 ^ 64 \<le> x then MaxUint64 else of_nat x)"
    unfolding retarget_def Let_def E_def[symmetric] A_def[symmetric] x_def retarget_exact_def
    by (simp only: if_False a4 e4 e a)
  moreover have "unat (of_nat x :: u64) = x" if "x < 2 ^ 64"
    using that by (simp add: unat_of_nat)
  ultimately show ?thesis
    unfolding x_def[symmetric] by (cases "x < 2 ^ 64") (simp_all add: MaxUint64_def min_def)
qed

lemma scaled_lower:
  assumes "0 < actual" "actual \<le> 4 * expected"
  shows "d div 4 \<le> d * nat expected div nat actual"
proof -
  have "nat actual \<le> 4 * nat expected" using assms by linarith
  then have "(d div 4) * nat actual \<le> (d div 4) * (4 * nat expected)" by (rule mult_left_mono) simp
  also have "\<dots> = (d div 4 * 4) * nat expected" by simp
  also have "\<dots> \<le> d * nat expected" by (rule mult_right_mono) simp_all
  finally show ?thesis using assms(1) by (simp add: less_eq_div_iff_mult_less_eq)
qed

lemma scaled_upper:
  assumes "0 < actual" "expected \<le> actual * 4"
  shows "d * nat expected div nat actual \<le> 4 * d"
proof -
  have "nat expected \<le> 4 * nat actual" using assms by linarith
  then have "d * nat expected \<le> d * (4 * nat actual)" by (rule mult_left_mono) simp
  then have "d * nat expected div nat actual \<le> d * (4 * nat actual) div nat actual"
    by (rule div_le_mono)
  also have "d * (4 * nat actual) div nat actual = 4 * d"
    using assms(1) by (simp add: ac_simps)
  finally show ?thesis .
qed

lemma retarget_exact_clamp:
  assumes "0 < expected"
  shows "max 1 (d div 4) \<le> retarget_exact expected actual d"
    and "retarget_exact expected actual d \<le> max 1 (4 * d)"
  using assms scaled_lower[of actual expected d] scaled_upper[of actual expected d]
  by (auto simp: retarget_exact_def intro: max.mono)

text \<open>Slower blocks never make the next difficulty higher.\<close>

lemma retarget_exact_antimono:
  assumes "0 < expected" and "a \<le> b"
  shows "retarget_exact expected b d \<le> retarget_exact expected a d"
proof -
  have mid: "d * nat expected div nat b \<le> d * nat expected div nat a" if "0 < a"
    using that assms(2) by (intro div_le_mono2) auto
  consider "a \<le> 0 \<or> a * 4 < expected" | "0 < a" "expected \<le> a * 4" "a \<le> 4 * expected"
    | "4 * expected < a" by linarith
  then show ?thesis
  proof cases
    case 1
    then have "retarget_exact expected a d = max 1 (4 * d)"
      by (auto simp: retarget_exact_def)
    then show ?thesis using retarget_exact_clamp(2)[OF assms(1)] by simp
  next
    case 2
    then show ?thesis using mid scaled_lower[of a expected d] assms
      by (auto simp: retarget_exact_def le_max_iff_disj)
  next
    case 3
    with assms show ?thesis by (auto simp: retarget_exact_def)
  qed
qed

subsection \<open>Targets\<close>

lemma Target_bound: "Target d \<le> MaxTarget"
  by (simp add: Target_def Let_def div_le_dividend)

lemma Target_antimono: "0 < d \<Longrightarrow> d \<le> e \<Longrightarrow> Target e \<le> Target d"
  by (auto simp: Target_def word_le_nat_alt word_less_nat_alt intro!: div_le_mono2)

end
