(* ===== verification/Block.thy ===== *)
theory Block
  imports Tx Params
begin

text \<open>
  Blocks, \<open>internal/chain/block.go\<close>, with \<open>NextDifficulty\<close> of \<open>params.go\<close>: the header encoding
  and its hash, the merkle root, and the two validations against the parent and the target.
  \<open>Txs\<close> is a slice of pointers and JSON can make any of them nil, so reading a transaction can
  panic; that is a branch of the model.
\<close>

record block =
  Height :: u64
  PrevHash :: hash
  Time :: i64
  Difficulty :: u64
  Miner :: address
  ExtraNonce :: u64
  Merkle :: hash
  Nonce :: u64
  Txs :: "tx option list"

definition HeaderBytes :: "block \<Rightarrow> bytes" where
  "HeaderBytes b = (let
     buf = [];
     buf = writeU64 buf (Height b);
     buf = writeBytes buf (hash_bytes (PrevHash b));
     buf = writeI64 buf (Time b);
     buf = writeU64 buf (Difficulty b);
     buf = writeString buf (Miner b);
     buf = writeU64 buf (ExtraNonce b);
     buf = writeBytes buf (hash_bytes (Merkle b));
     buf = writeU64 buf (Nonce b)
   in buf)"

definition block_Hash :: "block \<Rightarrow> hash" where
  "block_Hash b = HashBytes (HeaderBytes b)"

subsection \<open>The merkle root\<close>

text \<open>One pass of the loop: duplicate the last hash of an odd level, then hash the pairs.\<close>

definition merkle_next :: "hash list \<Rightarrow> hash list" where
  "merkle_next level = (let
     level = (if length level mod 2 = 1 then level @ [level ! (length level - 1)] else level)
   in map (\<lambda>i. HashBytes (hash_bytes (level ! (2 * i)) @ hash_bytes (level ! (2 * i + 1))))
        [0..<length level div 2])"

lemma length_merkle_next [simp]: "length (merkle_next level) = (length level + 1) div 2"
  by (auto simp: merkle_next_def Let_def)

function merkle_loop :: "hash list \<Rightarrow> hash" where
  "merkle_loop level = (if length level > 1 then merkle_loop (merkle_next level) else level ! 0)"
  by pat_completeness auto
termination
  by (relation "measure length") auto

declare merkle_loop.simps [simp del]

definition MerkleRoot :: "tx option list \<Rightarrow> hash run" where
  "MerkleRoot txs = (if length txs = 0 then Ret 0
     else run_bind (deref_all txs) (\<lambda>ts. Ret (merkle_loop (map tx_Hash ts))))"

definition ComputeMerkleRoot :: "block \<Rightarrow> hash run" where
  "ComputeMerkleRoot b = MerkleRoot (Txs b)"

subsection \<open>Proof of work\<close>

definition MeetsTarget :: "block \<Rightarrow> bool" where
  "MeetsTarget b = (if Difficulty b = 0 then False
     else let h = block_Hash b; hv = SetBytes (hash_bytes h) in hv < Target (Difficulty b))"

datatype block_error =
    NoParent | BadHeight | PrevHashMismatch | TimeNotAfterParent | TimeInFuture
  | FirstNotCoinbase | TooManyTxs | ExtraCoinbase nat | InvalidMiner | MerkleMismatch
  | ZeroDifficulty | TargetNotMet

definition ValidatePoW :: "block \<Rightarrow> block_error option" where
  "ValidatePoW b = (if Difficulty b = 0 then Some ZeroDifficulty
     else if \<not> MeetsTarget b then Some TargetNotMet else None)"

subsection \<open>Structural validation\<close>

text \<open>The loop over \<open>b.Txs[1:]\<close>; \<open>i\<close> is the index in \<open>b.Txs\<close>.\<close>

fun scan_coinbase :: "nat \<Rightarrow> tx option list \<Rightarrow> block_error option run" where
  "scan_coinbase i [] = Ret None"
| "scan_coinbase i (p # ps) = run_bind (deref p) (\<lambda>t.
     if IsCoinbase t then Ret (Some (ExtraCoinbase i)) else scan_coinbase (Suc i) ps)"

definition ValidateBasic :: "params \<Rightarrow> block \<Rightarrow> block option \<Rightarrow> i64 \<Rightarrow> block_error option run" where
  "ValidateBasic p b parent now =
     (case parent of None \<Rightarrow> Ret (Some NoParent) | Some par \<Rightarrow>
      if Height b \<noteq> Height par + 1 then Ret (Some BadHeight)
      else if PrevHash b \<noteq> block_Hash par then Ret (Some PrevHashMismatch)
      else if sint (Time b) \<le> sint (Time par) then Ret (Some TimeNotAfterParent)
      else if sint (Time b) > sint (now + MaxFutureTime p) then Ret (Some TimeInFuture)
      else case Txs b of [] \<Rightarrow> Ret (Some FirstNotCoinbase) | p0 # rest \<Rightarrow>
      run_bind (deref p0) (\<lambda>t0.
      if \<not> IsCoinbase t0 then Ret (Some FirstNotCoinbase)
      else if int (length (Txs b)) > MaxTxsPerBlock p then Ret (Some TooManyTxs)
      else run_bind (scan_coinbase 1 rest) (\<lambda>e. case e of Some err \<Rightarrow> Ret (Some err) | None \<Rightarrow>
      if Miner b = CoinbaseAddress \<or> \<not> Valid (Miner b) then Ret (Some InvalidMiner)
      else run_bind (ComputeMerkleRoot b) (\<lambda>root.
      if root \<noteq> Merkle b then Ret (Some MerkleMismatch) else Ret None))))"

subsection \<open>Genesis and difficulty\<close>

definition Genesis :: "params \<Rightarrow> block" where
  "Genesis p = \<lparr> Height = 0, PrevHash = 0, Time = GenesisTime p, Difficulty = 1,
     Miner = CoinbaseAddress, ExtraNonce = 0, Merkle = 0, Nonce = 0, Txs = [] \<rparr>"

definition NextDifficulty :: "params \<Rightarrow> block option \<Rightarrow> block option \<Rightarrow> u64" where
  "NextDifficulty p tip anchor =
     (case tip of None \<Rightarrow> 1 | Some t \<Rightarrow>
      case anchor of None \<Rightarrow> Difficulty t | Some a \<Rightarrow>
      if BlocksPerRetarget p = 0 \<or> Height t + 1 < BlocksPerRetarget p
         \<or> (Height t + 1) mod BlocksPerRetarget p \<noteq> 0
      then Difficulty t
      else retarget p (Difficulty t) (Time t) (Time a))"

subsection \<open>The header encoding\<close>

definition block_small :: "block \<Rightarrow> bool" where
  "block_small b \<longleftrightarrow> length (Miner b) < 2 ^ 32"

lemma HeaderBytes_append:
  "HeaderBytes b = writeU64 [] (Height b) @ writeBytes [] (hash_bytes (PrevHash b)) @ writeI64 [] (Time b)
     @ writeU64 [] (Difficulty b) @ writeString [] (Miner b) @ writeU64 [] (ExtraNonce b)
     @ writeBytes [] (hash_bytes (Merkle b)) @ writeU64 [] (Nonce b)"
  unfolding HeaderBytes_def Let_def
  by (simp add: writeU64_def writeI64_def writeString_def writeBytes_def)

text \<open>The encoding of a header is injective: two blocks whose header bytes are the same agree in every
  header field, so the hash covers all of them (and, through the merkle root, the transactions).\<close>

lemma HeaderBytes_inject:
  assumes "block_small b" and "block_small c" and "HeaderBytes b = HeaderBytes c"
  shows "Height b = Height c \<and> PrevHash b = PrevHash c \<and> Time b = Time c \<and> Difficulty b = Difficulty c
       \<and> Miner b = Miner c \<and> ExtraNonce b = ExtraNonce c \<and> Merkle b = Merkle c \<and> Nonce b = Nonce c"
  using assms unfolding HeaderBytes_append block_small_def
  by (simp add: u64_writer.write_cancel i64_writer.write_cancel string_writer.write_cancel
      bytes_writer.write_cancel u64_writer.write_cancel_last i64_writer.write_cancel_last
      string_writer.write_cancel_last bytes_writer.write_cancel_last)

lemma length_HeaderBytes: "length (HeaderBytes b) = 116 + length (Miner b)"
  by (simp add: HeaderBytes_append)

text \<open>The nonce is the last eight bytes, little-endian; the rest does not depend on it.\<close>

lemma HeaderBytes_nonce:
  "HeaderBytes (b\<lparr>Nonce := n\<rparr>) = take (length (HeaderBytes b) - 8) (HeaderBytes b) @ le_bytes 8 n"
  by (simp add: HeaderBytes_append writeU64_def)

lemma block_Hash_Txs [simp]: "block_Hash (b\<lparr>Txs := ts\<rparr>) = block_Hash b"
  by (simp add: block_Hash_def HeaderBytes_def Let_def)

subsection \<open>Validated blocks\<close>

lemma scan_coinbase_Ret_None:
  "scan_coinbase i ps = Ret None \<longleftrightarrow> (\<exists>ts. ps = map Some ts \<and> list_all (\<lambda>t. \<not> IsCoinbase t) ts)"
proof (induction ps arbitrary: i)
  case (Cons p ps)
  show ?case
  proof (cases p)
    case (Some t)
    have "(\<exists>ts. Some t # ps = map Some ts \<and> list_all (\<lambda>t. \<not> IsCoinbase t) ts)
        \<longleftrightarrow> \<not> IsCoinbase t \<and> (\<exists>ts. ps = map Some ts \<and> list_all (\<lambda>t. \<not> IsCoinbase t) ts)"
    proof (intro iffI; elim exE conjE)
      fix ts
      assume "Some t # ps = map Some ts" "list_all (\<lambda>t. \<not> IsCoinbase t) ts"
      then show "\<not> IsCoinbase t \<and> (\<exists>ts. ps = map Some ts \<and> list_all (\<lambda>t. \<not> IsCoinbase t) ts)"
        by (cases ts) auto
    next
      fix ts
      assume "\<not> IsCoinbase t" "ps = map Some ts" "list_all (\<lambda>t. \<not> IsCoinbase t) ts"
      then show "\<exists>ts. Some t # ps = map Some ts \<and> list_all (\<lambda>t. \<not> IsCoinbase t) ts"
        by (intro exI[of _ "t # ts"]) simp
    qed
    with Some Cons show ?thesis by simp
  qed auto
qed simp

text \<open>What a block that passes \<open>ValidateBasic\<close> satisfies; conversely these conditions suffice.\<close>

definition basic_ok :: "params \<Rightarrow> block \<Rightarrow> block \<Rightarrow> i64 \<Rightarrow> bool" where
  "basic_ok p b par now \<longleftrightarrow>
     Height b = Height par + 1 \<and> PrevHash b = block_Hash par
   \<and> sint (Time par) < sint (Time b) \<and> sint (Time b) \<le> sint (now + MaxFutureTime p)
   \<and> int (length (Txs b)) \<le> MaxTxsPerBlock p \<and> Miner b \<noteq> CoinbaseAddress \<and> Valid (Miner b)
   \<and> (\<exists>cb ts. Txs b = Some cb # map Some ts \<and> IsCoinbase cb \<and> list_all (\<lambda>t. \<not> IsCoinbase t) ts
        \<and> merkle_loop (map tx_Hash (cb # ts)) = Merkle b)"

lemma MerkleRoot_Some: "ts \<noteq> [] \<Longrightarrow> MerkleRoot (map Some ts) = Ret (merkle_loop (map tx_Hash ts))"
  by (simp add: MerkleRoot_def)

lemma ValidateBasic_ok: "ValidateBasic p b (Some par) now = Ret None \<longleftrightarrow> basic_ok p b par now"
proof (cases "Txs b")
  case Nil
  then show ?thesis by (simp add: ValidateBasic_def basic_ok_def)
next
  case (Cons p0 rest)
  show ?thesis
  proof (cases p0)
    case None
    with Cons show ?thesis by (auto simp: ValidateBasic_def basic_ok_def)
  next
    case (Some cb)
    have root: "ComputeMerkleRoot b = Ret (merkle_loop (map tx_Hash (cb # ts)))" if "rest = map Some ts" for ts
      using MerkleRoot_Some[of "cb # ts"] that Cons Some by (simp add: ComputeMerkleRoot_def)
    show ?thesis
    proof (cases "scan_coinbase 1 rest = Ret None")
      case True
      then obtain ts where ts: "rest = map Some ts" "list_all (\<lambda>t. \<not> IsCoinbase t) ts"
        by (auto simp: scan_coinbase_Ret_None)
      with Cons Some True root[OF ts(1)] show ?thesis
        by (auto simp: ValidateBasic_def basic_ok_def not_less inj_map_eq_map)
    next
      case False
      then have no: "\<not> (\<exists>ts. rest = map Some ts \<and> list_all (\<lambda>t. \<not> IsCoinbase t) ts)"
        by (simp add: scan_coinbase_Ret_None)
      have "run_bind (scan_coinbase 1 rest) (\<lambda>e. case e of Some err \<Rightarrow> Ret (Some err) | None \<Rightarrow> f) \<noteq> Ret None"
        for f :: "block_error option run"
        using False by (auto simp: run_bind_eq_Ret split: option.splits)
      then show ?thesis using Cons Some no by (auto simp: ValidateBasic_def basic_ok_def)
    qed
  qed
qed

lemma basic_okD:
  assumes "basic_ok p b par now"
  shows "Height b = Height par + 1" and "PrevHash b = block_Hash par" and "sint (Time par) < sint (Time b)"
    and "Valid (Miner b)"
  using assms by (simp_all add: basic_ok_def)

text \<open>With no nil transaction the validation returns, whatever its verdict.\<close>

lemma scan_coinbase_returns: "returns (scan_coinbase i (map Some ts))"
  by (induction ts arbitrary: i) simp_all

lemma ValidateBasic_returns:
  assumes "Txs b = map Some ts"
  shows "returns (ValidateBasic p b parent now)"
proof -
  have "returns (ComputeMerkleRoot b)"
    using assms by (simp add: ComputeMerkleRoot_def MerkleRoot_def)
  then obtain root where "ComputeMerkleRoot b = Ret root" by (rule returnsE)
  moreover obtain e where "scan_coinbase 1 (map Some (tl ts)) = Ret e"
    using scan_coinbase_returns by (rule returnsE)
  ultimately show ?thesis
    using assms by (cases ts) (auto simp: ValidateBasic_def split: option.split)
qed

subsection \<open>The merkle root does not fix the transactions\<close>

text \<open>Repeating the last element of an odd level of at least three changes no root.\<close>

lemma merkle_next_dup:
  assumes "odd (length xs)"
  shows "merkle_next (xs @ [last xs]) = merkle_next xs"
proof -
  from assms have "xs \<noteq> []" by auto
  with assms show ?thesis by (simp add: merkle_next_def Let_def last_conv_nth odd_iff_mod_2_eq_one)
qed

lemma merkle_loop_dup:
  assumes "odd (length xs)" and "1 < length xs"
  shows "merkle_loop (xs @ [last xs]) = merkle_loop xs"
  using assms merkle_next_dup[OF assms(1)] odd_pos[OF assms(1)]
  by (simp add: merkle_loop.simps[of xs] merkle_loop.simps[of "xs @ [last xs]"])

subsection \<open>Genesis\<close>

lemma Genesis_sel [simp]:
  "Height (Genesis p) = 0" "PrevHash (Genesis p) = 0" "Txs (Genesis p) = []" "Difficulty (Genesis p) = 1"
  "Time (Genesis p) = GenesisTime p"
  by (simp_all add: Genesis_def)

lemma NextDifficulty_positive:
  assumes "0 < Difficulty t"
  shows "0 < NextDifficulty p (Some t) anchor"
proof -
  have "0 < retarget p (Difficulty t) (Time t) a" for a
  proof -
    define x where "x = (let y = (if sint (Time t - a) \<le> 0 \<or> sint ((Time t - a) * 4) <
        sint (let e = TargetBlockTime p * BlocksPerRetarget p in if sint e \<le> 0 then 1 else e)
        then unat (Difficulty t) * 4
        else if sint (Time t - a) > sint (4 * (let e = TargetBlockTime p * BlocksPerRetarget p in if sint e \<le> 0 then 1 else e))
        then unat (Difficulty t) div 4
        else unat (Difficulty t) * nat (sint (let e = TargetBlockTime p * BlocksPerRetarget p in if sint e \<le> 0 then 1 else e))
          div nat (sint (Time t - a))) in if y \<le> 0 then 1 else y)"
    have r: "retarget p (Difficulty t) (Time t) a = (if 2 ^ 64 \<le> x then MaxUint64 else of_nat x)"
      unfolding x_def retarget_def Let_def by (rule refl)
    have "0 < x" unfolding x_def Let_def by simp
    then have "unat (of_nat x :: u64) \<noteq> 0" if "x < 2 ^ 64"
      using that by (simp add: unat_of_nat)
    with r show ?thesis by (auto simp: MaxUint64_def word_less_nat_alt)
  qed
  with assms show ?thesis by (auto simp: NextDifficulty_def split: option.split)
qed

end
