(* ===== verification/Ledger.thy ===== *)
theory Ledger
  imports Block
begin

text \<open>
  \<open>internal/state/state.go\<close>: the account map and the application of transactions and blocks to
  it. The map holds pointers that only this package writes through, so an update of an account
  is an update of the map, and \<open>Clone\<close>, a deep copy, is the identity on the value. An operation
  that fails after it has created an empty account returns the changed map with its error.

  The interface \<open>account_map\<close> says what the operations rely on of the map. The abstract ledger
  (balances and nonces as naturals) is the specification that \<open>ApplyTx\<close> and \<open>ApplyBlock\<close> refine
  as long as the total supply fits 64 bits.
\<close>

record account =
  Balance :: u64
  acct_Nonce :: u64

type_synonym state = "(address \<times> account) list"

definition zero_account :: account where
  "zero_account = \<lparr> Balance = 0, acct_Nonce = 0 \<rparr>"

definition state_New :: state where
  "state_New = []"

definition Clone :: "state \<Rightarrow> state" where
  "Clone s = s"

text \<open>\<open>get\<close> creates the account it does not find; \<open>Account\<close> does not.\<close>

definition state_get :: "state \<Rightarrow> address \<Rightarrow> account \<times> state" where
  "state_get s a = (case map_of s a of
     Some acct \<Rightarrow> (acct, s)
   | None \<Rightarrow> (zero_account, AList.update a zero_account s))"

definition Account :: "state \<Rightarrow> address \<Rightarrow> account" where
  "Account s a = (case map_of s a of Some acct \<Rightarrow> acct | None \<Rightarrow> zero_account)"

definition Accounts :: "state \<Rightarrow> (address \<times> account) list" where
  "Accounts s = filter (\<lambda>(a, acct). Balance acct \<noteq> 0 \<or> acct_Nonce acct \<noteq> 0) s"

definition Credit :: "address \<Rightarrow> u64 \<Rightarrow> state \<Rightarrow> state run" where
  "Credit a amt s = (if amt = 0 then Ret s
     else case state_get s a of (acct, s) \<Rightarrow>
       let sum = Balance acct + amt in
       if sum < Balance acct then Panic
       else Ret (AList.update a (acct\<lparr>Balance := sum\<rparr>) s))"

datatype apply_error = ApplyCoinbase | BadNonce | SpendOverflow | InsufficientFunds

definition ApplyTx :: "tx \<Rightarrow> state \<Rightarrow> (apply_error option \<times> state) run" where
  "ApplyTx t s = (if IsCoinbase t then Ret (Some ApplyCoinbase, s)
     else case state_get s (From t) of (acct, s) \<Rightarrow>
     if tx_Nonce t \<noteq> acct_Nonce acct then Ret (Some BadNonce, s)
     else let spend = Amount t + Fee t in
     if spend < Amount t then Ret (Some SpendOverflow, s)
     else if Balance acct < spend then Ret (Some InsufficientFunds, s)
     else let acct = acct\<lparr>Balance := Balance acct - spend, acct_Nonce := acct_Nonce acct + 1\<rparr>;
              s = AList.update (From t) acct s
          in run_bind (Credit (To t) (Amount t) s) (\<lambda>s. Ret (None, s)))"

datatype state_error = VerifyError tx_error | StateBadNonce | StateInsufficientFunds

definition ValidateTx :: "ed25519 \<Rightarrow> tx \<Rightarrow> state \<Rightarrow> state_error option \<times> state" where
  "ValidateTx ed t s = (case tx_Verify ed t of Some err \<Rightarrow> (Some (VerifyError err), s) | None \<Rightarrow>
     case state_get s (From t) of (acct, s) \<Rightarrow>
     if tx_Nonce t \<noteq> acct_Nonce acct then (Some StateBadNonce, s)
     else if Balance acct < Amount t + Fee t then (Some StateInsufficientFunds, s)
     else (None, s))"

datatype block_state_error =
    NoCoinbase | TxVerifyError hash tx_error | TxApplyError hash apply_error | FeeSumOverflow
  | CoinbaseError tx_error | CoinbasePays u64 u64

text \<open>The loop over \<open>b.Txs[1:]\<close>.\<close>

fun apply_txs :: "ed25519 \<Rightarrow> tx option list \<Rightarrow> u64 \<Rightarrow> state
    \<Rightarrow> (block_state_error option \<times> u64 \<times> state) run" where
  "apply_txs ed [] feeSum s = Ret (None, feeSum, s)"
| "apply_txs ed (q # ps) feeSum s = run_bind (deref q) (\<lambda>t.
     case tx_Verify ed t of Some err \<Rightarrow> Ret (Some (TxVerifyError (tx_Hash t) err), feeSum, s) | None \<Rightarrow>
     run_bind (ApplyTx t s) (\<lambda>(r, s).
     case r of Some err \<Rightarrow> Ret (Some (TxApplyError (tx_Hash t) err), feeSum, s) | None \<Rightarrow>
     let feeSum = feeSum + Fee t in
     if feeSum < Fee t then Ret (Some FeeSumOverflow, feeSum, s) else apply_txs ed ps feeSum s))"

definition ApplyBlock :: "ed25519 \<Rightarrow> params \<Rightarrow> block \<Rightarrow> state \<Rightarrow> (block_state_error option \<times> state) run" where
  "ApplyBlock ed p b s =
     (case Txs b of [] \<Rightarrow> Ret (Some NoCoinbase, s) | p0 # rest \<Rightarrow>
      run_bind (deref p0) (\<lambda>cb.
      if \<not> IsCoinbase cb then Ret (Some NoCoinbase, s)
      else run_bind (apply_txs ed rest 0 s) (\<lambda>(r, feeSum, s).
      case r of Some err \<Rightarrow> Ret (Some err, s) | None \<Rightarrow>
      case tx_Verify ed cb of Some err \<Rightarrow> Ret (Some (CoinbaseError err), s) | None \<Rightarrow>
      run_bind (RewardAt p (Height b)) (\<lambda>reward.
      let want = reward + feeSum in
      if Amount cb \<noteq> want then Ret (Some (CoinbasePays (Amount cb) want), s)
      else run_bind (Credit (To cb) (Amount cb) s) (\<lambda>s. Ret (None, s))))))"

subsection \<open>The interface of the account map\<close>

locale account_map =
  fixes lookup :: "'s \<Rightarrow> 'a \<Rightarrow> account"
    and store :: "'a \<Rightarrow> account \<Rightarrow> 's \<Rightarrow> 's"
    and total :: "'s \<Rightarrow> nat"
    and invar :: "'s \<Rightarrow> bool"
  assumes lookup_store: "invar s \<Longrightarrow> lookup (store a x s) b = (if b = a then x else lookup s b)"
    and invar_store: "invar s \<Longrightarrow> invar (store a x s)"
    and total_store: "invar s \<Longrightarrow> total (store a x s) + unat (Balance (lookup s a)) = total s + unat (Balance x)"
    and lookup_le_total: "invar s \<Longrightarrow> unat (Balance (lookup s a)) \<le> total s"
begin

text \<open>Storing an account that only lost money lowers the total by what it lost.\<close>

lemma total_debit:
  assumes "invar s" and "unat (Balance x) + d = unat (Balance (lookup s a))"
  shows "total (store a x s) + d = total s"
  using total_store[OF assms(1), of a x] assms(2) by simp

lemma total_credit:
  assumes "invar s" and "unat (Balance x) = unat (Balance (lookup s a)) + c"
  shows "total (store a x s) = total s + c"
  using total_store[OF assms(1), of a x] assms(2) by simp

text \<open>As long as the total stays below the word size, adding to a balance does not wrap.\<close>

lemma credit_no_wrap:
  assumes "invar s" and "total s + unat c < 2 ^ 64"
  shows "unat (Balance (lookup s a) + c) = unat (Balance (lookup s a)) + unat c"
    and "\<not> Balance (lookup s a) + c < Balance (lookup s a)"
proof -
  have le: "unat (Balance (lookup s a)) + unat c < 2 ^ 64"
    using lookup_le_total[OF assms(1), of a] assms(2) by simp
  then show eq: "unat (Balance (lookup s a) + c) = unat (Balance (lookup s a)) + unat c"
    by (simp add: unat_word_ariths)
  then show "\<not> Balance (lookup s a) + c < Balance (lookup s a)"
    by (simp add: word_less_nat_alt)
qed

end

text \<open>The code's map: an association list, its lookups those of \<open>Account\<close>.\<close>

definition total_supply :: "state \<Rightarrow> nat" where
  "total_supply s = sum_list (map (\<lambda>(a, acct). unat (Balance acct)) s)"

lemma total_supply_simps [simp]: "total_supply [] = 0" "total_supply ((a, x) # s) = unat (Balance x) + total_supply s"
  by (simp_all add: total_supply_def)

lemma zero_account_sel [simp]: "Balance zero_account = 0" "acct_Nonce zero_account = 0"
  by (simp_all add: zero_account_def)

lemma Account_update [simp]: "Account (AList.update a x s) b = (if b = a then x else Account s b)"
  by (simp add: Account_def)

lemma total_supply_update:
  "keys_ok s \<Longrightarrow> total_supply (AList.update a x s) + unat (Balance (Account s a)) = total_supply s + unat (Balance x)"
proof (induction s)
  case (Cons kv s)
  obtain k v where kv: "kv = (k, v)" by fastforce
  have "map_of s a = None" if "k = a"
    using Cons.prems that by (simp add: kv keys_ok_def map_of_eq_None_iff)
  with Cons show ?case by (cases "k = a") (simp_all add: kv keys_ok_def Account_def)
qed (simp add: Account_def)

lemma Account_le_total_supply: "unat (Balance (Account s a)) \<le> total_supply s"
  by (induction s) (auto simp: Account_def split: option.splits)

interpretation accounts: account_map Account AList.update total_supply keys_ok
  by unfold_locales (simp_all add: total_supply_update Account_le_total_supply)

subsection \<open>Single operations\<close>

lemma state_get_facts:
  assumes "keys_ok s" and "state_get s a = (acct, s')"
  shows "acct = Account s a" and "Account s' = Account s" and "keys_ok s'" and "total_supply s' = total_supply s"
proof -
  from assms(2) show "acct = Account s a"
    by (auto simp: state_get_def Account_def split: option.splits)
  from assms show "Account s' = Account s"
    by (auto simp: state_get_def Account_def fun_eq_iff split: option.splits if_splits)
  from assms show "keys_ok s'" by (auto simp: state_get_def split: option.splits)
  from assms total_supply_update[OF assms(1), of a zero_account] show "total_supply s' = total_supply s"
    by (auto simp: state_get_def Account_def split: option.splits)
qed

lemma Credit_facts:
  assumes "keys_ok s" and "total_supply s + unat amt < 2 ^ 64"
  obtains s' where "Credit a amt s = Ret s'" and "keys_ok s'" and "total_supply s' = total_supply s + unat amt"
    and "Account s' = (Account s)(a := (Account s a)\<lparr>Balance := Balance (Account s a) + amt\<rparr>)"
proof (cases "amt = 0")
  case True
  then have "Account s = (Account s)(a := (Account s a)\<lparr>Balance := Balance (Account s a) + amt\<rparr>)"
    by (simp add: fun_eq_iff)
  with True assms that[of s] show ?thesis by (simp add: Credit_def)
next
  case False
  obtain acct s1 where g: "state_get s a = (acct, s1)" by fastforce
  note f = state_get_facts[OF assms(1) g]
  let ?x = "acct\<lparr>Balance := Balance acct + amt\<rparr>"
  have nw: "unat (Balance acct + amt) = unat (Balance acct) + unat amt"
    "\<not> Balance acct + amt < Balance acct"
    using accounts.credit_no_wrap[OF assms, of a] f(1) by simp_all
  then have "Credit a amt s = Ret (AList.update a ?x s1)"
    using False g by (simp add: Credit_def Let_def)
  moreover have "total_supply (AList.update a ?x s1) = total_supply s + unat amt"
    using accounts.total_credit[OF f(3), of ?x a "unat amt"] nw f by simp
  moreover have "Account (AList.update a ?x s1) = (Account s)(a := (Account s a)\<lparr>Balance := Balance (Account s a) + amt\<rparr>)"
    using f by (auto simp: fun_eq_iff)
  ultimately show ?thesis using that f(3) by simp
qed

text \<open>Validation and a failed application change no account that can be observed.\<close>

lemma ValidateTx_facts:
  assumes "keys_ok s" and "ValidateTx ed t s = (r, s')"
  shows "Account s' = Account s" and "keys_ok s'" and "total_supply s' = total_supply s"
    and "r = None \<longleftrightarrow> tx_Verify ed t = None \<and> tx_Nonce t = acct_Nonce (Account s (From t))
           \<and> Amount t + Fee t \<le> Balance (Account s (From t))"
proof -
  obtain acct s1 where g: "state_get s (From t) = (acct, s1)" by fastforce
  note f = state_get_facts[OF assms(1) g]
  from assms(2) have "s' = s \<or> s' = s1"
    by (auto simp: ValidateTx_def g split: option.splits if_splits)
  with f assms(1) show "Account s' = Account s" and "keys_ok s'" and "total_supply s' = total_supply s"
    by auto
  from assms(2) f(1) show "r = None \<longleftrightarrow> tx_Verify ed t = None \<and> tx_Nonce t = acct_Nonce (Account s (From t))
           \<and> Amount t + Fee t \<le> Balance (Account s (From t))"
    by (auto simp: ValidateTx_def g not_less split: option.splits if_splits)
qed

subsection \<open>The abstract ledger\<close>

text \<open>Balance and nonce per address; nonces count modulo the word size, as \<open>Nonce++\<close> does.\<close>

type_synonym aledger = "address \<Rightarrow> nat \<times> nat"

definition abs_state :: "state \<Rightarrow> aledger" where
  "abs_state s = (\<lambda>a. (unat (Balance (Account s a)), unat (acct_Nonce (Account s a))))"

definition spec_credit :: "address \<Rightarrow> nat \<Rightarrow> aledger \<Rightarrow> aledger" where
  "spec_credit a amt L = L(a := (fst (L a) + amt, snd (L a)))"

definition spec_debit :: "address \<Rightarrow> nat \<Rightarrow> aledger \<Rightarrow> aledger" where
  "spec_debit a amt L = L(a := (fst (L a) - amt, (snd (L a) + 1) mod 2 ^ 64))"

definition spec_tx :: "tx \<Rightarrow> aledger \<Rightarrow> aledger option" where
  "spec_tx t L =
     (if From t = CoinbaseAddress \<or> snd (L (From t)) \<noteq> unat (tx_Nonce t)
         \<or> fst (L (From t)) < unat (Amount t) + unat (Fee t)
      then None
      else Some (spec_credit (To t) (unat (Amount t))
             (spec_debit (From t) (unat (Amount t) + unat (Fee t)) L)))"

fun spec_txs :: "ed25519 \<Rightarrow> tx list \<Rightarrow> aledger \<Rightarrow> aledger option" where
  "spec_txs ed [] L = Some L"
| "spec_txs ed (t # ts) L = (if tx_Verify ed t \<noteq> None then None
     else case spec_tx t L of None \<Rightarrow> None | Some L' \<Rightarrow> spec_txs ed ts L')"

definition fees :: "tx list \<Rightarrow> nat" where
  "fees ts = sum_list (map (\<lambda>t. unat (Fee t)) ts)"

definition spec_block :: "ed25519 \<Rightarrow> params \<Rightarrow> block \<Rightarrow> aledger \<Rightarrow> aledger option" where
  "spec_block ed p b L =
     (case map the (Txs b) of [] \<Rightarrow> None | cb # ts \<Rightarrow>
      if \<not> IsCoinbase cb \<or> tx_Verify ed cb \<noteq> None
         \<or> unat (Amount cb) \<noteq> reward_nat p (unat (Height b)) + fees ts
      then None
      else map_option (spec_credit (To cb) (unat (Amount cb))) (spec_txs ed ts L))"

subsection \<open>Refinement\<close>

lemma unat_add_less: "(a :: u64) + b < a \<longleftrightarrow> 2 ^ 64 \<le> unat a + unat b"
proof -
  have eq: "unat (a + b) = (unat a + unat b) mod 2 ^ 64" by (simp add: unat_word_ariths)
  have lt: "unat a < 2 ^ 64" "unat b < 2 ^ 64" by (rule unat_u64_less)+
  show ?thesis
  proof (cases "unat a + unat b < 2 ^ 64")
    case False
    then have "(unat a + unat b) mod 2 ^ 64 = unat a + unat b - 2 ^ 64"
      using lt by (simp add: le_mod_geq)
    with eq lt False show ?thesis by (simp add: word_less_nat_alt)
  qed (use eq in \<open>simp add: word_less_nat_alt\<close>)
qed

lemma unat_add_exact: "unat (a :: u64) + unat b < 2 ^ 64 \<Longrightarrow> unat (a + b) = unat a + unat b"
  by (simp add: unat_word_ariths)

text \<open>What \<open>ApplyTx\<close> returns, in the terms of the abstract ledger.\<close>

definition tx_refines :: "tx \<Rightarrow> state \<Rightarrow> apply_error option \<times> state \<Rightarrow> bool" where
  "tx_refines t s rs \<longleftrightarrow> (case rs of (r, s') \<Rightarrow> keys_ok s' \<and>
     (case r of
        None \<Rightarrow> spec_tx t (abs_state s) = Some (abs_state s') \<and> total_supply s' + unat (Fee t) = total_supply s
      | Some e \<Rightarrow> spec_tx t (abs_state s) = None \<and> Account s' = Account s \<and> total_supply s' = total_supply s))"

lemma ApplyTx_refines:
  assumes ok: "keys_ok s" and small: "total_supply s < 2 ^ 64"
  obtains rs where "ApplyTx t s = Ret rs" and "tx_refines t s rs"
proof (cases "IsCoinbase t")
  case True
  with ok that[of "(Some ApplyCoinbase, s)"] show ?thesis
    by (simp add: ApplyTx_def tx_refines_def spec_tx_def IsCoinbase_def)
next
  case nc: False
  obtain acct s1 where g: "state_get s (From t) = (acct, s1)" by fastforce
  note f = state_get_facts[OF ok g]
  let ?spend = "Amount t + Fee t"
  have fail: thesis if "ApplyTx t s = Ret (Some e, s1)" and "spec_tx t (abs_state s) = None" for e
    using that \<open>\<And>rs. ApplyTx t s = Ret rs \<Longrightarrow> tx_refines t s rs \<Longrightarrow> thesis\<close> f
    by (simp add: tx_refines_def)
  have bal: "unat (Balance acct) < 2 ^ 64" by (rule unat_u64_less)
  consider (nonce) "tx_Nonce t \<noteq> acct_Nonce acct"
    | (over) "tx_Nonce t = acct_Nonce acct" "?spend < Amount t"
    | (funds) "tx_Nonce t = acct_Nonce acct" "\<not> ?spend < Amount t" "Balance acct < ?spend"
    | (ok) "tx_Nonce t = acct_Nonce acct" "\<not> ?spend < Amount t" "\<not> Balance acct < ?spend" by blast
  then show ?thesis
  proof cases
    case nonce
    then have "unat (acct_Nonce acct) \<noteq> unat (tx_Nonce t)" by (simp add: word_unat_eq_iff)
    with nonce nc g f(1) show ?thesis
      by (intro fail[of BadNonce]) (simp_all add: ApplyTx_def spec_tx_def abs_state_def)
  next
    case over
    then have "\<not> unat (Amount t) + unat (Fee t) < 2 ^ 64" by (simp add: unat_add_less)
    with over nc g f(1) bal show ?thesis
      by (intro fail[of SpendOverflow]) (simp_all add: ApplyTx_def spec_tx_def abs_state_def)
  next
    case funds
    then have "unat ?spend = unat (Amount t) + unat (Fee t)"
      by (intro unat_add_exact) (simp add: unat_add_less)
    with funds nc g f(1) show ?thesis
      by (intro fail[of InsufficientFunds]) (simp_all add: ApplyTx_def spec_tx_def abs_state_def word_less_nat_alt)
  next
    case ok
    have sp: "unat ?spend = unat (Amount t) + unat (Fee t)"
      using ok by (intro unat_add_exact) (simp add: unat_add_less)
    have le: "unat (Amount t) + unat (Fee t) \<le> unat (Balance acct)"
      using ok(3) sp by (simp add: word_less_nat_alt not_less)
    define x where "x = acct\<lparr>Balance := Balance acct - ?spend, acct_Nonce := acct_Nonce acct + 1\<rparr>"
    define s2 where "s2 = AList.update (From t) x s1"
    have xb: "unat (Balance x) + (unat (Amount t) + unat (Fee t)) = unat (Balance (Account s1 (From t)))"
      using le sp ok(3) f by (simp add: x_def unat_sub word_le_nat_alt word_less_nat_alt not_less)
    have s2: "keys_ok s2" "total_supply s2 + (unat (Amount t) + unat (Fee t)) = total_supply s"
      using accounts.total_debit[OF f(3) xb] f by (simp_all add: s2_def)
    then have "total_supply s2 + unat (Amount t) < 2 ^ 64" using small by simp
    from Credit_facts[OF s2(1) this, of "To t"] obtain s3 where s3: "Credit (To t) (Amount t) s2 = Ret s3"
      "keys_ok s3" "total_supply s3 = total_supply s2 + unat (Amount t)"
      "Account s3 = (Account s2)(To t := (Account s2 (To t))\<lparr>Balance := Balance (Account s2 (To t)) + Amount t\<rparr>)"
      by blast
    have cr: "unat (Balance (Account s2 (To t)) + Amount t) = unat (Balance (Account s2 (To t))) + unat (Amount t)"
      using accounts.credit_no_wrap(1)[OF s2(1) \<open>total_supply s2 + unat (Amount t) < 2 ^ 64\<close>] .
    have a2: "abs_state s2 = spec_debit (From t) (unat (Amount t) + unat (Fee t)) (abs_state s)"
      using xb f by (auto simp: abs_state_def spec_debit_def s2_def fun_eq_iff x_def unat_word_ariths)
    have a3: "abs_state s3 = spec_credit (To t) (unat (Amount t)) (abs_state s2)"
      using cr by (auto simp: abs_state_def spec_credit_def s3(4) fun_eq_iff)
    have "spec_tx t (abs_state s) = Some (abs_state s3)"
      using ok(1) nc le f(1) by (simp add: spec_tx_def a3 a2 IsCoinbase_def) (simp add: abs_state_def)
    moreover have "ApplyTx t s = Ret (None, s3)"
      using nc ok g s3(1) by (simp add: ApplyTx_def Let_def x_def s2_def)
    ultimately show ?thesis using that[of "(None, s3)"] s2 s3 by (simp add: tx_refines_def)
  qed
qed

end
