(* ===== verification/LedgerBlock.thy ===== *)
theory LedgerBlock
  imports Ledger
begin

text \<open>
  \<open>ApplyBlock\<close> of \<open>internal/state/state.go\<close> against the abstract ledger, and what follows for a
  chain of blocks: replaying one never panics, the total supply is the sum of the rewards, and no
  transaction takes effect twice.
\<close>

subsection \<open>The transactions of a block\<close>

lemma tx_refines_None:
  "tx_refines t s (None, s') \<Longrightarrow> keys_ok s' \<and> spec_tx t (abs_state s) = Some (abs_state s')
     \<and> total_supply s' + unat (Fee t) = total_supply s"
  by (simp add: tx_refines_def)

lemma tx_refines_Some:
  "tx_refines t s (Some e, s') \<Longrightarrow> keys_ok s' \<and> spec_tx t (abs_state s) = None
     \<and> Account s' = Account s \<and> total_supply s' = total_supply s"
  by (simp add: tx_refines_def)

text \<open>Whatever the verdict, money only moves from balances into the fee sum.\<close>

definition txs_refine :: "ed25519 \<Rightarrow> tx list \<Rightarrow> u64 \<Rightarrow> state \<Rightarrow> block_state_error option \<times> u64 \<times> state \<Rightarrow> bool" where
  "txs_refine ed ts feeSum s r \<longleftrightarrow> (case r of (e, feeSum', s') \<Rightarrow>
     keys_ok s' \<and> total_supply s' + unat feeSum' = total_supply s + unat feeSum \<and> e \<noteq> Some FeeSumOverflow
   \<and> (if e = None then spec_txs ed ts (abs_state s) = Some (abs_state s') \<and> unat feeSum' = unat feeSum + fees ts
      else spec_txs ed ts (abs_state s) = None))"

lemma fees_simps [simp]: "fees [] = 0" "fees (t # ts) = unat (Fee t) + fees ts"
  by (simp_all add: fees_def)

lemma apply_txs_refine:
  assumes "keys_ok s" and "total_supply s + unat feeSum < 2 ^ 64"
  shows "\<exists>r. apply_txs ed (map Some ts) feeSum s = Ret r \<and> txs_refine ed ts feeSum s r"
  using assms
proof (induction ts arbitrary: feeSum s)
  case (Cons t ts)
  show ?case
  proof (cases "tx_Verify ed t")
    case (Some err)
    with Cons.prems show ?thesis by (simp add: txs_refine_def)
  next
    case verified: None
    from Cons.prems obtain rs where rs: "ApplyTx t s = Ret rs" "tx_refines t s rs"
      using ApplyTx_refines[of s t] by (metis add_lessD1)
    obtain r s1 where r: "rs = (r, s1)" by fastforce
    show ?thesis
    proof (cases r)
      case (Some err)
      with verified rs r Cons.prems tx_refines_Some[of t s err s1] show ?thesis
        by (simp add: txs_refine_def)
    next
      case None
      with rs r have f: "keys_ok s1" "spec_tx t (abs_state s) = Some (abs_state s1)"
        "total_supply s1 + unat (Fee t) = total_supply s"
        using tx_refines_None by blast+
      have fit: "unat feeSum + unat (Fee t) < 2 ^ 64" using f(3) Cons.prems(2) by linarith
      have sum: "unat (feeSum + Fee t) = unat feeSum + unat (Fee t)"
        using fit by (rule unat_add_exact)
      have no: "\<not> feeSum + Fee t < Fee t" using sum by (simp add: word_less_nat_alt)
      have "total_supply s1 + unat (feeSum + Fee t) < 2 ^ 64" using sum f(3) Cons.prems(2) by simp
      from Cons.IH[OF f(1) this] obtain r' where
        r': "apply_txs ed (map Some ts) (feeSum + Fee t) s1 = Ret r'" "txs_refine ed ts (feeSum + Fee t) s1 r'"
        by blast
      have "apply_txs ed (map Some (t # ts)) feeSum s = Ret r'"
        using verified rs(1) r None no r'(1) by simp
      moreover have "txs_refine ed (t # ts) feeSum s r'"
        using r'(2) verified f sum by (cases r') (auto simp: txs_refine_def split: if_splits)
      ultimately show ?thesis by blast
    qed
  qed
qed (simp add: txs_refine_def)

subsection \<open>The block\<close>

definition block_refines :: "ed25519 \<Rightarrow> params \<Rightarrow> block \<Rightarrow> state \<Rightarrow> block_state_error option \<times> state \<Rightarrow> bool" where
  "block_refines ed p b s r \<longleftrightarrow> (case r of (e, s') \<Rightarrow> keys_ok s' \<and> e \<noteq> Some FeeSumOverflow
   \<and> (if e = None then spec_block ed p b (abs_state s) = Some (abs_state s')
          \<and> total_supply s' = total_supply s + reward_nat p (unat (Height b))
      else spec_block ed p b (abs_state s) = None))"

lemma abs_state_Credit:
  assumes "keys_ok s" and "total_supply s + unat amt < 2 ^ 64"
  obtains s' where "Credit a amt s = Ret s'" and "keys_ok s'" and "total_supply s' = total_supply s + unat amt"
    and "abs_state s' = spec_credit a (unat amt) (abs_state s)"
proof -
  from Credit_facts[OF assms, of a] obtain s' where s': "Credit a amt s = Ret s'" "keys_ok s'"
    "total_supply s' = total_supply s + unat amt"
    "Account s' = (Account s)(a := (Account s a)\<lparr>Balance := Balance (Account s a) + amt\<rparr>)" by blast
  have "abs_state s' = spec_credit a (unat amt) (abs_state s)"
    using accounts.credit_no_wrap(1)[OF assms, of a]
    by (auto simp: abs_state_def spec_credit_def s'(4) fun_eq_iff)
  with s' that show ?thesis by blast
qed

lemma ApplyBlock_refines:
  assumes "keys_ok s" and "HalvingInterval p \<noteq> 0" and txs: "Txs b = map Some ts"
    and small: "total_supply s + reward_nat p (unat (Height b)) < 2 ^ 64"
  shows "\<exists>r. ApplyBlock ed p b s = Ret r \<and> block_refines ed p b s r"
proof (cases ts)
  case Nil
  with assms show ?thesis by (simp add: ApplyBlock_def block_refines_def spec_block_def)
next
  case (Cons cb rest)
  have spec: "spec_block ed p b L = (if \<not> IsCoinbase cb \<or> tx_Verify ed cb \<noteq> None
       \<or> unat (Amount cb) \<noteq> reward_nat p (unat (Height b)) + fees rest then None
      else map_option (spec_credit (To cb) (unat (Amount cb))) (spec_txs ed rest L))" for L
    using txs Cons by (simp add: spec_block_def comp_def)
  obtain rew where rew: "RewardAt p (Height b) = Ret rew" "unat rew = reward_nat p (unat (Height b))"
    using RewardAt_eq[OF assms(2)] .
  have "total_supply s + unat (0 :: u64) < 2 ^ 64" using small by simp
  from apply_txs_refine[OF assms(1) this, of ed rest] obtain e fs s1 where
    run: "apply_txs ed (map Some rest) 0 s = Ret (e, fs, s1)" and ref: "txs_refine ed rest 0 s (e, fs, s1)"
    by auto
  from ref have ok1: "keys_ok s1" and bal: "total_supply s1 + unat fs = total_supply s" and no: "e \<noteq> Some FeeSumOverflow"
    by (simp_all add: txs_refine_def)
  show ?thesis
  proof (cases "IsCoinbase cb \<and> e = None \<and> tx_Verify ed cb = None")
    case False
    with txs Cons run ref assms(1) show ?thesis
      by (cases e) (auto simp: ApplyBlock_def block_refines_def spec txs_refine_def split: option.split)
  next
    case True
    with ref have st: "spec_txs ed rest (abs_state s) = Some (abs_state s1)" and fs: "unat fs = fees rest"
      by (simp_all add: txs_refine_def)
    have want: "unat (rew + fs) = reward_nat p (unat (Height b)) + fees rest"
      using unat_add_exact[of rew fs] rew(2) fs bal small by simp
    show ?thesis
    proof (cases "Amount cb = rew + fs")
      case False
      then have "unat (Amount cb) \<noteq> reward_nat p (unat (Height b)) + fees rest"
        using want by (metis word_unat_eq_iff)
      with False True txs Cons run rew ok1 show ?thesis
        by (auto simp: ApplyBlock_def block_refines_def spec Let_def)
    next
      case amt: True
      with want fs bal small have "total_supply s1 + unat (Amount cb) < 2 ^ 64" by simp
      from abs_state_Credit[OF ok1 this, of "To cb"] obtain s2 where s2: "Credit (To cb) (Amount cb) s1 = Ret s2"
        "keys_ok s2" "total_supply s2 = total_supply s1 + unat (Amount cb)"
        "abs_state s2 = spec_credit (To cb) (unat (Amount cb)) (abs_state s1)" .
      have "ApplyBlock ed p b s = Ret (None, s2)"
        using True amt txs Cons run rew s2(1) by (simp add: ApplyBlock_def Let_def)
      moreover have "block_refines ed p b s (None, s2)"
        using True amt want s2 st fs bal by (simp add: block_refines_def spec)
      ultimately show ?thesis by blast
    qed
  qed
qed

lemma ApplyBlock_None:
  assumes "keys_ok s" and "HalvingInterval p \<noteq> 0" and "Txs b = map Some ts"
    and "total_supply s + reward_nat p (unat (Height b)) < 2 ^ 64"
    and "ApplyBlock ed p b s = Ret (None, s')"
  shows "keys_ok s'" and "total_supply s' = total_supply s + reward_nat p (unat (Height b))"
    and "spec_block ed p b (abs_state s) = Some (abs_state s')"
  using ApplyBlock_refines[OF assms(1-4), of ed] assms(5) by (auto simp: block_refines_def)

text \<open>A block with a nil transaction is never accepted: the code panics or stops before it.\<close>

lemma apply_txs_nil: "apply_txs ed ps feeSum s = Ret (None, r) \<Longrightarrow> \<exists>ts. ps = map Some ts"
proof (induction ps arbitrary: feeSum s)
  case (Cons p ps)
  obtain t where p: "p = Some t" using Cons.prems by (cases p) auto
  with Cons.prems have "\<exists>feeSum s. apply_txs ed ps feeSum s = Ret (None, r)"
    by (auto simp: run_bind_eq_Ret Let_def split: option.splits if_splits)
  with Cons.IH obtain ts where "ps = map Some ts" by blast
  then show ?case using p by (intro exI[of _ "t # ts"]) simp
qed simp

lemma ApplyBlock_nil: "ApplyBlock ed p b s = Ret (None, s') \<Longrightarrow> \<exists>ts. Txs b = map Some ts"
proof -
  assume a: "ApplyBlock ed p b s = Ret (None, s')"
  then obtain cb rest where t: "Txs b = Some cb # rest"
    by (auto simp: ApplyBlock_def run_bind_eq_Ret deref_def split: list.splits option.splits)
  with a have "\<exists>r. apply_txs ed rest 0 s = Ret (None, r)"
    by (auto simp: ApplyBlock_def run_bind_eq_Ret split: option.splits if_splits)
  then obtain ts where "rest = map Some ts" using apply_txs_nil by blast
  then show ?thesis using t by (intro exI[of _ "cb # ts"]) simp
qed

end
