(* ===== verification/LedgerChain.thy ===== *)
theory LedgerChain
  imports LedgerBlock
begin

text \<open>
  The state of a chain of blocks: \<open>replay\<close> applies them in order to a state, as
  \<open>replayLocked\<close> of the node does without its side effects (a block of height 0 is skipped).
  This is the function the node's state is later shown to compute, and what holds of it holds of
  the node: the supply of a chain is the sum of its rewards, a replay never panics, and a
  transaction of it is applied once.
\<close>

fun replay :: "ed25519 \<Rightarrow> params \<Rightarrow> block list \<Rightarrow> state \<Rightarrow> (block_state_error option \<times> state) run" where
  "replay ed p [] s = Ret (None, s)"
| "replay ed p (b # bs) s = (if Height b = 0 then replay ed p bs s
     else run_bind (ApplyBlock ed p b s) (\<lambda>(e, s). if e = None then replay ed p bs s else Ret (e, s)))"

lemma replay_append:
  "replay ed p (bs @ cs) s = run_bind (replay ed p bs s)
     (\<lambda>(e, s). if e = None then replay ed p cs s else Ret (e, s))"
proof (induction bs arbitrary: s)
  case (Cons b bs)
  show ?case
  proof (cases "Height b = 0")
    case False
    show ?thesis
    proof (cases "ApplyBlock ed p b s")
      case (Ret r)
      with False Cons show ?thesis by (cases r) simp
    qed (use False in simp_all)
  qed (simp add: Cons)
qed simp

lemma replay_genesis: "Height b = 0 \<Longrightarrow> replay ed p [b] s = Ret (None, s)"
  by simp

subsection \<open>Supply\<close>

definition rewards :: "params \<Rightarrow> block list \<Rightarrow> nat" where
  "rewards p bs = sum_list (map (\<lambda>b. if Height b = 0 then 0 else reward_nat p (unat (Height b))) bs)"

lemma rewards_simps [simp]:
  "rewards p [] = 0"
  "rewards p (b # bs) = (if Height b = 0 then 0 else reward_nat p (unat (Height b))) + rewards p bs"
  by (simp_all add: rewards_def)

definition no_nil :: "block \<Rightarrow> bool" where
  "no_nil b \<longleftrightarrow> list_all (\<lambda>q. q \<noteq> None) (Txs b)"

lemma no_nil_iff: "no_nil b \<longleftrightarrow> (\<exists>ts. Txs b = map Some ts)"
proof
  assume "no_nil b"
  then have "Txs b = map Some (map the (Txs b))"
    unfolding no_nil_def by (induction "Txs b") (auto simp: list_all_iff map_idI)
  then show "\<exists>ts. Txs b = map Some ts" by blast
qed (auto simp: no_nil_def list_all_iff)

text \<open>One step of the induction every fact about \<open>replay\<close> goes by.\<close>

lemma replay_step:
  assumes "keys_ok s" and "HalvingInterval p \<noteq> 0" and "no_nil b"
    and "total_supply s + rewards p (b # bs) < 2 ^ 64" and "Height b \<noteq> 0"
  obtains e s' where "ApplyBlock ed p b s = Ret (e, s')" and "block_refines ed p b s (e, s')" and "keys_ok s'"
    and "e = None \<Longrightarrow> total_supply s' + rewards p bs < 2 ^ 64 \<and> total_supply s' = total_supply s + reward_nat p (unat (Height b))"
proof -
  from assms(3) obtain ts where ts: "Txs b = map Some ts" by (auto simp: no_nil_iff)
  have "total_supply s + reward_nat p (unat (Height b)) < 2 ^ 64" using assms(4,5) by simp
  from ApplyBlock_refines[OF assms(1,2) ts this, of ed] obtain e s' where
    r: "ApplyBlock ed p b s = Ret (e, s')" "block_refines ed p b s (e, s')" by auto
  moreover from r(2) have "keys_ok s'"
    and "e = None \<Longrightarrow> total_supply s' = total_supply s + reward_nat p (unat (Height b))"
    by (simp_all add: block_refines_def)
  moreover have "total_supply s + reward_nat p (unat (Height b)) + rewards p bs < 2 ^ 64"
    using assms(4,5) by simp
  ultimately show ?thesis using that by auto
qed

lemma replay_returns:
  assumes "keys_ok s" and "HalvingInterval p \<noteq> 0" and "list_all no_nil bs"
    and "total_supply s + rewards p bs < 2 ^ 64"
  shows "\<exists>e s'. replay ed p bs s = Ret (e, s') \<and> keys_ok s'
       \<and> (e = None \<longrightarrow> total_supply s' = total_supply s + rewards p bs)"
  using assms
proof (induction bs arbitrary: s)
  case (Cons b bs)
  show ?case
  proof (cases "Height b = 0")
    case True
    with Cons show ?thesis by simp
  next
    case False
    from Cons.prems have nn: "no_nil b" by simp
    from replay_step[OF Cons.prems(1,2) nn Cons.prems(4) False, of ed] obtain e s1 where
      1: "ApplyBlock ed p b s = Ret (e, s1)" "keys_ok s1"
      "e = None \<Longrightarrow> total_supply s1 + rewards p bs < 2 ^ 64 \<and> total_supply s1 = total_supply s + reward_nat p (unat (Height b))"
      by metis
    show ?thesis
    proof (cases "e = None")
      case True
      with Cons.IH[OF 1(2) Cons.prems(2)] Cons.prems(3) 1 False show ?thesis by fastforce
    next
      case False
      with 1 \<open>Height b \<noteq> 0\<close> show ?thesis by auto
    qed
  qed
qed simp

text \<open>The chain of heights 0, 1, ... from the genesis block on.\<close>

definition ascending :: "block list \<Rightarrow> bool" where
  "ascending bs \<longleftrightarrow> map (\<lambda>b. unat (Height b)) bs = [0..<length bs]"

lemma rewards_ascending:
  assumes "ascending bs"
  shows "rewards p bs = (\<Sum>h \<in> {0<..<length bs}. reward_nat p h)"
proof -
  have "rewards p bs = sum_list (map (\<lambda>h. if h = 0 then 0 else reward_nat p h) (map (\<lambda>b. unat (Height b)) bs))"
    by (simp add: rewards_def comp_def unat_eq_zero)
  also have "\<dots> = (\<Sum>h \<in> {0..<length bs}. if h = 0 then 0 else reward_nat p h)"
    using assms by (simp add: ascending_def interv_sum_list_conv_sum_set_nat)
  also have "\<dots> = (\<Sum>h \<in> {0<..<length bs}. reward_nat p h)"
    by (rule sum.mono_neutral_cong_right) auto
  finally show ?thesis .
qed

lemma rewards_bound:
  assumes "ascending bs"
  shows "rewards p bs + (if bs = [] then 0 else reward_nat p 0) \<le> (\<Sum>h < length bs. reward_nat p h)"
proof (cases "bs = []")
  case False
  then have "{..<length bs} = insert 0 {0<..<length bs}" by auto
  with False show ?thesis by (simp add: rewards_ascending[OF assms])
qed (simp add: rewards_def)

lemma rewards_cap:
  assumes "ascending bs" and "HalvingInterval p \<noteq> 0"
  shows "rewards p bs \<le> 2 * unat (HalvingInterval p) * unat (InitialReward p)"
  using rewards_bound[OF assms(1), of p] reward_sum_bound[OF assms(2), of "length bs"] by linarith

subsection \<open>No transaction twice\<close>

text \<open>The regular transactions of a chain, in the order they take effect.\<close>

definition block_txs :: "block \<Rightarrow> tx list" where
  "block_txs b = (if Height b = 0 then [] else tl (map the (Txs b)))"

definition spent :: "tx \<Rightarrow> address \<times> u64" where
  "spent t = (From t, tx_Nonce t)"

definition sent_by :: "address \<Rightarrow> tx list \<Rightarrow> nat" where
  "sent_by a ts = length (filter (\<lambda>t. From t = a) ts)"

lemma sent_by_simps [simp]:
  "sent_by a [] = 0" "sent_by a (t # ts) = (if From t = a then 1 else 0) + sent_by a ts"
  "sent_by a (ts @ us) = sent_by a ts + sent_by a us"
  by (simp_all add: sent_by_def)

lemma sent_by_le: "sent_by a ts \<le> length ts"
  by (simp add: sent_by_def)

text \<open>
  The account of a sender counts: after the transactions \<open>ts\<close> its nonce has grown by the number
  it sent, and the \<open>k\<close>-th of them carries the nonce \<open>k\<close> above the first (modulo the word size).
\<close>

definition nonces_follow :: "(address \<Rightarrow> nat) \<Rightarrow> tx list \<Rightarrow> (address \<Rightarrow> nat) \<Rightarrow> bool" where
  "nonces_follow n ts n' \<longleftrightarrow> (\<forall>a. n' a mod 2 ^ 64 = (n a + sent_by a ts) mod 2 ^ 64)
   \<and> (\<forall>i < length ts. unat (tx_Nonce (ts ! i)) = (n (From (ts ! i)) + sent_by (From (ts ! i)) (take i ts)) mod 2 ^ 64)"

lemma nonces_follow_Nil: "nonces_follow n [] n"
  by (simp add: nonces_follow_def)

lemma nonces_follow_append:
  assumes "nonces_follow n ts n'" and "nonces_follow n' us n''"
  shows "nonces_follow n (ts @ us) n''"
proof -
  have cnt: "n'' a mod 2 ^ 64 = (n a + sent_by a (ts @ us)) mod 2 ^ 64" for a
  proof -
    have "n'' a mod 2 ^ 64 = (n' a mod 2 ^ 64 + sent_by a us) mod 2 ^ 64"
      using assms(2) by (simp add: nonces_follow_def mod_add_left_eq)
    also have "\<dots> = (n a + sent_by a (ts @ us)) mod 2 ^ 64"
      using assms(1) by (simp add: nonces_follow_def mod_add_left_eq add.assoc)
    finally show ?thesis .
  qed
  have "unat (tx_Nonce ((ts @ us) ! i)) = (n (From ((ts @ us) ! i)) + sent_by (From ((ts @ us) ! i)) (take i (ts @ us))) mod 2 ^ 64"
    if i: "i < length (ts @ us)" for i
  proof (cases "i < length ts")
    case True
    with assms(1) show ?thesis by (simp add: nonces_follow_def nth_append)
  next
    case False
    define j where "j = i - length ts"
    have j: "j < length us" "i = length ts + j" using i False by (auto simp: j_def)
    let ?a = "From (us ! j)"
    have "unat (tx_Nonce (us ! j)) = (n' ?a mod 2 ^ 64 + sent_by ?a (take j us)) mod 2 ^ 64"
      using assms(2) j(1) by (simp add: nonces_follow_def mod_add_left_eq)
    also have "\<dots> = (n ?a + sent_by ?a ts + sent_by ?a (take j us)) mod 2 ^ 64"
      using assms(1) by (simp add: nonces_follow_def mod_add_left_eq)
    finally show ?thesis using j by (simp add: nth_append add.assoc)
  qed
  with cnt show ?thesis unfolding nonces_follow_def by blast
qed

lemma sent_by_take_less:
  assumes "i < j" and "j < length ts"
  shows "sent_by (From (ts ! i)) (take i ts) < sent_by (From (ts ! i)) (take j ts)"
proof -
  have "take j ts = take i ts @ ts ! i # drop (Suc i) (take j ts)"
    using id_take_nth_drop[of i "take j ts"] assms by (simp add: min_def)
  then have "sent_by (From (ts ! i)) (take j ts)
      = sent_by (From (ts ! i)) (take i ts @ ts ! i # drop (Suc i) (take j ts))" by (rule arg_cong)
  then show ?thesis by simp
qed

lemma nonces_follow_distinct:
  assumes follow: "nonces_follow n ts n'" and "length ts < 2 ^ 64"
  shows "distinct (map spent ts)"
proof -
  have "False" if ij: "i < j" "j < length ts" and eq: "spent (ts ! i) = spent (ts ! j)" for i j
  proof -
    let ?a = "From (ts ! i)"
    let ?x = "n ?a + sent_by ?a (take i ts)"
    let ?y = "n ?a + sent_by ?a (take j ts)"
    from eq have e: "From (ts ! j) = ?a" "tx_Nonce (ts ! j) = tx_Nonce (ts ! i)" by (simp_all add: spent_def)
    have nth: "unat (tx_Nonce (ts ! k)) = (n (From (ts ! k)) + sent_by (From (ts ! k)) (take k ts)) mod 2 ^ 64"
      if "k < length ts" for k
      using follow that by (simp add: nonces_follow_def)
    have "?x mod 2 ^ 64 = ?y mod 2 ^ 64" using nth[of i] nth[of j] ij e by simp
    moreover have lt: "?x < ?y" using sent_by_take_less[OF ij] by simp
    ultimately have "2 ^ 64 dvd ?y - ?x" using mod_eq_dvd_iff_nat[of ?x ?y "2 ^ 64"] by (metis less_imp_le)
    then have "2 ^ 64 \<le> ?y - ?x" using lt by (simp add: dvd_imp_le)
    moreover have "?y - ?x \<le> length ts"
      using sent_by_le[of ?a "take j ts"] ij by simp
    ultimately show False using assms(2) by simp
  qed
  then show ?thesis unfolding distinct_conv_nth by (metis length_map nth_map nat_neq_iff)
qed

lemma spec_txs_nonces:
  "spec_txs ed ts L = Some L' \<Longrightarrow> \<forall>a. snd (L a) < 2 ^ 64
   \<Longrightarrow> nonces_follow (snd \<circ> L) ts (snd \<circ> L') \<and> (\<forall>a. snd (L' a) < 2 ^ 64)"
proof (induction ts arbitrary: L)
  case (Cons t ts)
  from Cons.prems obtain L1 where L1: "spec_tx t L = Some L1" "spec_txs ed ts L1 = Some L'"
    by (auto split: if_splits option.splits)
  have n: "snd (L (From t)) = unat (tx_Nonce t)"
    "\<And>a. snd (L1 a) = (if a = From t then (snd (L a) + 1) mod 2 ^ 64 else snd (L a))"
    using L1(1) by (auto simp: spec_tx_def spec_credit_def spec_debit_def split: if_splits)
  have "nonces_follow (snd \<circ> L) [t] (snd \<circ> L1)"
    using n(2) n(1)[symmetric] Cons.prems(2) by (auto simp: nonces_follow_def)
  moreover have "\<forall>a. snd (L1 a) < 2 ^ 64" using n(2) Cons.prems(2) by simp
  ultimately show ?case
    using Cons.IH[OF L1(2)] nonces_follow_append[of "snd \<circ> L" "[t]" "snd \<circ> L1"] by (simp add: comp_def)
qed (simp add: nonces_follow_Nil)

lemma spec_block_nonces:
  assumes "spec_block ed p b L = Some L'" and "\<forall>a. snd (L a) < 2 ^ 64" and "Height b \<noteq> 0"
  shows "nonces_follow (snd \<circ> L) (block_txs b) (snd \<circ> L') \<and> (\<forall>a. snd (L' a) < 2 ^ 64)"
proof -
  from assms(1) obtain cb ts L1 where b: "map the (Txs b) = cb # ts" "spec_txs ed ts L = Some L1"
    "L' = spec_credit (To cb) (unat (Amount cb)) L1"
    by (auto simp: spec_block_def split: list.splits if_splits)
  from spec_txs_nonces[OF b(2) assms(2)] have "nonces_follow (snd \<circ> L) ts (snd \<circ> L1)" "\<forall>a. snd (L1 a) < 2 ^ 64"
    by auto
  moreover have "snd \<circ> L' = snd \<circ> L1" by (simp add: b(3) spec_credit_def fun_eq_iff)
  ultimately show ?thesis using b(1) assms(3) by (simp add: block_txs_def) (metis comp_apply)
qed

lemma replay_nonces:
  assumes "keys_ok s" and "HalvingInterval p \<noteq> 0" and "total_supply s + rewards p bs < 2 ^ 64"
    and "replay ed p bs s = Ret (None, s')"
  shows "nonces_follow (snd \<circ> abs_state s) (concat (map block_txs bs)) (snd \<circ> abs_state s')"
  using assms
proof (induction bs arbitrary: s)
  case (Cons b bs)
  show ?case
  proof (cases "Height b = 0")
    case True
    with Cons show ?thesis by (simp add: block_txs_def)
  next
    case False
    from Cons.prems(4) False obtain s1 where
      1: "ApplyBlock ed p b s = Ret (None, s1)" "replay ed p bs s1 = Ret (None, s')"
      by (auto simp: run_bind_eq_Ret split: if_splits)
    from ApplyBlock_nil[OF 1(1)] obtain ts where ts: "Txs b = map Some ts" by blast
    have "total_supply s + reward_nat p (unat (Height b)) < 2 ^ 64" using Cons.prems(3) False by simp
    note f = ApplyBlock_None[OF Cons.prems(1,2) ts this 1(1)]
    have "\<forall>a. snd (abs_state s a) < 2 ^ 64" by (simp add: abs_state_def unat_u64_less del: power_numeral)
    from spec_block_nonces[OF f(3) this False]
    have "nonces_follow (snd \<circ> abs_state s) (block_txs b) (snd \<circ> abs_state s1)" by blast
    moreover have "nonces_follow (snd \<circ> abs_state s1) (concat (map block_txs bs)) (snd \<circ> abs_state s')"
      using Cons.IH[OF f(1) Cons.prems(2) _ 1(2)] f(2) Cons.prems(3) False by (simp add: comp_def)
    ultimately show ?thesis using nonces_follow_append by (simp add: comp_def)
  qed
qed (simp add: nonces_follow_Nil)

end
