(* ===== verification/NodeState.thy ===== *)
theory NodeState
  imports LedgerChain
begin

text \<open>
  The state of a node, \<open>internal/node/node.go\<close>: the fields of \<open>Node\<close> that its mutex guards, the
  part of its configuration the operations read, and what they do to the world outside.

  Every operation holds the mutex while it touches these fields, so an operation is a function of
  the node and the sequential order of operations is the order in which they take the mutex. Three
  effects leave the process: a read of the clock and an append to the block file each take the
  next tick of the environment (\<open>n_ticks\<close>), which fixes what the clock shows and whether the disk
  accepts the write; a message handed to the p2p switch is appended to \<open>n_out\<close>.

  A \<open>*blockEntry\<close> is an immutable value once it is in the tree, and a hash enters the tree at most
  once, so comparing two of them by pointer is comparing their hashes.
\<close>

definition checkpointInterval :: u64 where "checkpointInterval = 100"
definition maxOrphans :: nat where "maxOrphans = 100"
definition maxMempool :: nat where "maxMempool = 10000"
definition seenResetAt :: nat where "seenResetAt = 50000"
definition syncBatch :: int where "syncBatch = 500"
definition syncTxBudget :: nat where "syncTxBudget = 5000"
definition mempoolReplyBudget :: nat where "mempoolReplyBudget = 5000"

record blockEntry =
  e_block :: block
  e_hash :: hash
  e_work :: nat

text \<open>The messages of \<open>internal/wire\<close> the node sends and receives, decoded. A pointer may be nil.\<close>

datatype message =
    MsgGetBlocks "hash list" int
  | MsgBlocks "block option list"
  | MsgNewBlock "block option"
  | MsgNewTx "tx option"
  | MsgGetMempool
  | MsgMempool "tx option list"

text \<open>A peer as the node sees it: an identity and the address it can be dialled at.\<close>

record peer =
  peer_id :: nat
  Dial :: string

datatype event = Broadcast message string | SendTo nat message

type_synonym tree = "(hash \<times> blockEntry) list"

record env =
  en_params :: params
  en_ed :: ed25519
  en_wallet :: "wallet option"
  en_sw :: bool
  en_clock :: "nat \<Rightarrow> i64"
  en_disk :: "nat \<Rightarrow> bool"

record node =
  n_blocks :: tree
  n_tip :: "blockEntry option"
  n_state :: state
  n_checkpoints :: "hash \<Rightarrow> state option"
  n_rejected :: "hash set"
  n_orphans :: "(hash \<times> block list) list"
  n_chainHeights :: "u64 \<Rightarrow> hash option"
  n_mempoolTx :: "(hash \<times> tx) list"
  n_mempoolOrder :: "hash list"
  n_pending :: "state option"
  n_pendingDirty :: bool
  n_seenTx :: "hash list"
  n_tipSubs :: "(nat \<times> block list) list"
  n_booting :: bool
  n_stopped :: bool
  n_ticks :: nat
  n_disk :: "block list"
  n_out :: "event list"

definition empty_node :: node where
  "empty_node = \<lparr> n_blocks = [], n_tip = None, n_state = state_New, n_checkpoints = (\<lambda>_. None),
     n_rejected = {}, n_orphans = [], n_chainHeights = (\<lambda>_. None), n_mempoolTx = [],
     n_mempoolOrder = [], n_pending = None, n_pendingDirty = False, n_seenTx = [], n_tipSubs = [],
     n_booting = False, n_stopped = False, n_ticks = 0, n_disk = [], n_out = [] \<rparr>"

definition nowMs :: "env \<Rightarrow> node \<Rightarrow> i64 \<times> node" where
  "nowMs E n = (en_clock E (n_ticks n), n\<lparr>n_ticks := Suc (n_ticks n)\<rparr>)"

text \<open>\<open>store.AppendBlock\<close>: the block reaches the file unless the disk refuses; the error is only logged.\<close>

definition appendBlock :: "env \<Rightarrow> block \<Rightarrow> node \<Rightarrow> node" where
  "appendBlock E b n = n\<lparr>n_ticks := Suc (n_ticks n),
     n_disk := (if en_disk E (n_ticks n) then n_disk n @ [b] else n_disk n)\<rparr>"

definition emit :: "event \<Rightarrow> node \<Rightarrow> node" where
  "emit ev n = n\<lparr>n_out := n_out n @ [ev]\<rparr>"

definition genesisHash :: "env \<Rightarrow> hash" where
  "genesisHash E = block_Hash (Genesis (en_params E))"

definition WalletAddress :: "env \<Rightarrow> address" where
  "WalletAddress E = (case en_wallet E of None \<Rightarrow> '''' | Some w \<Rightarrow> wallet_Address w)"

definition TipHeight :: "node \<Rightarrow> u64" where
  "TipHeight n = (case n_tip n of None \<Rightarrow> 0 | Some t \<Rightarrow> Height (e_block t))"

definition TipHash :: "node \<Rightarrow> hash" where
  "TipHash n = (case n_tip n of None \<Rightarrow> 0 | Some t \<Rightarrow> e_hash t)"

definition GetAccount :: "node \<Rightarrow> address \<Rightarrow> account" where
  "GetAccount n addr = Account (n_state n) addr"

definition MempoolSize :: "node \<Rightarrow> nat" where
  "MempoolSize n = length (n_mempoolTx n)"

definition Stop :: "node \<Rightarrow> node" where
  "Stop n = (if n_stopped n then n else n\<lparr>n_stopped := True\<rparr>)"

subsection \<open>Tip subscriptions\<close>

text \<open>
  A subscriber's channel holds at most four blocks; a send that would block is skipped. A new
  channel has an identity no other live channel has. The iteration order over the subscribers
  is immaterial, each channel being written once.
\<close>

definition tipSubCap :: nat where "tipSubCap = 4"

definition publish :: "block \<Rightarrow> node \<Rightarrow> node" where
  "publish b n = (if n_booting n then n
     else n\<lparr>n_tipSubs := map (\<lambda>(ch, q). (ch, if length q < tipSubCap then q @ [b] else q)) (n_tipSubs n)\<rparr>)"

definition fresh_chan :: "node \<Rightarrow> nat" where
  "fresh_chan n = Suc (fold max (map fst (n_tipSubs n)) 0)"

definition SubscribeTips :: "node \<Rightarrow> block option \<times> nat \<times> node" where
  "SubscribeTips n = (let ch = fresh_chan n in
     (map_option e_block (n_tip n), ch, n\<lparr>n_tipSubs := AList.update ch [] (n_tipSubs n)\<rparr>))"

definition cancelTips :: "nat \<Rightarrow> node \<Rightarrow> node" where
  "cancelTips ch n = n\<lparr>n_tipSubs := AList.delete ch (n_tipSubs n)\<rparr>"

end
