(* ===== verification/Mempool.thy ===== *)
theory Mempool
  imports NodeState "HOL-Library.Product_Lexorder"
begin

text \<open>
  The mempool of \<open>internal/node/node.go\<close>: the pending transactions with their order, the cached
  pending state (the tip state with the mempool applied), and the operations that rebuild both.
  \<open>pendingStateLocked\<close> returns the cached \<open>*State\<close> itself, so what \<open>AddTx\<close> does to it is done to
  \<open>n.pending\<close>.
\<close>

subsection \<open>Rebuilding\<close>

text \<open>The loop of \<open>revalidateMempoolLocked\<close>: keep what still applies, in order.\<close>

fun revalidate_loop :: "(hash \<times> tx) list \<Rightarrow> hash list \<Rightarrow> state \<Rightarrow> (hash \<times> tx) list \<Rightarrow> hash list
    \<Rightarrow> ((hash \<times> tx) list \<times> hash list \<times> state) run" where
  "revalidate_loop mp [] work keepTx keepOrder = Ret (keepTx, keepOrder, work)"
| "revalidate_loop mp (h # hs) work keepTx keepOrder =
     (case map_of mp h of
        None \<Rightarrow> revalidate_loop mp hs work keepTx keepOrder
      | Some t \<Rightarrow> run_bind (ApplyTx t work) (\<lambda>(err, work).
          if err \<noteq> None then revalidate_loop mp hs work keepTx keepOrder
          else revalidate_loop mp hs work (AList.update h t keepTx) (keepOrder @ [h])))"

definition revalidateMempool :: "node \<Rightarrow> node run" where
  "revalidateMempool n =
     run_bind (revalidate_loop (n_mempoolTx n) (n_mempoolOrder n) (Clone (n_state n)) [] [])
       (\<lambda>(keepTx, keepOrder, work). Ret (n\<lparr>n_mempoolTx := keepTx, n_mempoolOrder := keepOrder,
          n_pending := Some work, n_pendingDirty := False\<rparr>))"

text \<open>The loop of \<open>dropConfirmedLocked\<close> over the transactions of the new tip.\<close>

fun drop_loop :: "tx option list \<Rightarrow> (hash \<times> tx) list \<Rightarrow> bool \<Rightarrow> ((hash \<times> tx) list \<times> bool) run" where
  "drop_loop [] mp dropped = Ret (mp, dropped)"
| "drop_loop (q # qs) mp dropped = run_bind (deref q) (\<lambda>t.
     let h = tx_Hash t in
     if map_of mp h \<noteq> None then drop_loop qs (AList.delete h mp) True else drop_loop qs mp dropped)"

definition dropConfirmed :: "blockEntry \<Rightarrow> node \<Rightarrow> node run" where
  "dropConfirmed newTip n =
     run_bind (drop_loop (Txs (e_block newTip)) (n_mempoolTx n) False) (\<lambda>(mp, dropped).
     let n = n\<lparr>n_mempoolTx := mp\<rparr> in
     if dropped \<or> length mp > 0 then revalidateMempool n else Ret (n\<lparr>n_pendingDirty := True\<rparr>))"

text \<open>\<open>rebuildMempoolLocked\<close>: candidates from the mempool and the rolled back blocks, oldest first.\<close>

definition add_cand :: "tx \<Rightarrow> (hash \<times> tx) list \<times> hash list \<Rightarrow> (hash \<times> tx) list \<times> hash list" where
  "add_cand t co = (case co of (cands, order) \<Rightarrow>
     let h = tx_Hash t in
     if map_of cands h = None \<and> \<not> IsCoinbase t then (AList.update h t cands, order @ [h]) else (cands, order))"

fun add_pool :: "(hash \<times> tx) list \<Rightarrow> hash list \<Rightarrow> (hash \<times> tx) list \<times> hash list \<Rightarrow> (hash \<times> tx) list \<times> hash list" where
  "add_pool mp [] co = co"
| "add_pool mp (h # hs) co =
     add_pool mp hs (case map_of mp h of None \<Rightarrow> co | Some t \<Rightarrow> add_cand t co)"

fun tx_hashes :: "tx option list \<Rightarrow> hash list run" where
  "tx_hashes [] = Ret []"
| "tx_hashes (q # qs) = run_bind (deref q) (\<lambda>t. run_bind (tx_hashes qs) (\<lambda>hs. Ret (tx_Hash t # hs)))"

fun rebuild_loop :: "ed25519 \<Rightarrow> (hash \<times> tx) list \<Rightarrow> hash set \<Rightarrow> hash list \<Rightarrow> state \<Rightarrow> (hash \<times> tx) list
    \<Rightarrow> hash list \<Rightarrow> ((hash \<times> tx) list \<times> hash list \<times> state) run" where
  "rebuild_loop ed cands confirmSet [] work newTx newOrder = Ret (newTx, newOrder, work)"
| "rebuild_loop ed cands confirmSet (h # hs) work newTx newOrder =
     run_bind (deref (map_of cands h)) (\<lambda>t.
     if h \<in> confirmSet then rebuild_loop ed cands confirmSet hs work newTx newOrder
     else if tx_Verify ed t \<noteq> None then rebuild_loop ed cands confirmSet hs work newTx newOrder
     else run_bind (ApplyTx t work) (\<lambda>(err, work).
       if err \<noteq> None then rebuild_loop ed cands confirmSet hs work newTx newOrder
       else rebuild_loop ed cands confirmSet hs work (AList.update h t newTx) (newOrder @ [h])))"

text \<open>
  \<open>path\<close> is the value of \<open>pathToGenesisLocked(n.tip)\<close>. The comparison function of the sort reads
  \<open>cands[order[i]]\<close>, which is there for every hash of \<open>order\<close>.
\<close>

definition rebuildMempool :: "env \<Rightarrow> tx option list \<Rightarrow> blockEntry list \<Rightarrow> node \<Rightarrow> node run" where
  "rebuildMempool E rolledBack path n = (
     let co = add_pool (n_mempoolTx n) (n_mempoolOrder n) ([], []) in
     run_bind (deref_all rolledBack) (\<lambda>rb.
     let (cands, order) = fold add_cand rb co in
     run_bind (tx_hashes (concat (map (\<lambda>e. Txs (e_block e)) path))) (\<lambda>confirmed.
     let order = sort_key (\<lambda>h. sint (tx_Time (the (map_of cands h)))) order in
     run_bind (rebuild_loop (en_ed E) cands (set confirmed) order (Clone (n_state n)) [] [])
       (\<lambda>(newTx, newOrder, work). Ret (n\<lparr>n_mempoolTx := newTx, n_mempoolOrder := newOrder,
          n_pending := Some work, n_pendingDirty := False\<rparr>)))))"

subsection \<open>The pending state\<close>

fun pending_loop :: "(hash \<times> tx) list \<Rightarrow> hash list \<Rightarrow> state \<Rightarrow> state run" where
  "pending_loop mp [] work = Ret work"
| "pending_loop mp (h # hs) work = (case map_of mp h of
     None \<Rightarrow> pending_loop mp hs work
   | Some t \<Rightarrow> run_bind (ApplyTx t work) (\<lambda>(err, work). pending_loop mp hs work))"

definition pendingState :: "node \<Rightarrow> (state \<times> node) run" where
  "pendingState n = (case n_pending n of
     Some p \<Rightarrow> if \<not> n_pendingDirty n then Ret (p, n)
       else run_bind (pending_loop (n_mempoolTx n) (n_mempoolOrder n) (Clone (n_state n)))
              (\<lambda>work. Ret (work, n\<lparr>n_pending := Some work, n_pendingDirty := False\<rparr>))
   | None \<Rightarrow> run_bind (pending_loop (n_mempoolTx n) (n_mempoolOrder n) (Clone (n_state n)))
              (\<lambda>work. Ret (work, n\<lparr>n_pending := Some work, n_pendingDirty := False\<rparr>)))"

definition markSeenTx :: "hash \<Rightarrow> node \<Rightarrow> node" where
  "markSeenTx h n = (let seen = List.insert h (n_seenTx n) in
     n\<lparr>n_seenTx := (if length seen > seenResetAt then [] else seen)\<rparr>)"

subsection \<open>Accepting and sending a transaction\<close>

datatype addtx_error = AddInvalid state_error | AddInapplicable apply_error | MempoolFull

definition AddTx :: "env \<Rightarrow> tx \<Rightarrow> string \<Rightarrow> node \<Rightarrow> (addtx_error option \<times> node) run" where
  "AddTx E t exceptPeer n = (
     let h = tx_Hash t in
     if h \<in> set (n_seenTx n) then Ret (None, n)
     else run_bind (pendingState n) (\<lambda>(ps, n).
     case ValidateTx (en_ed E) t ps of (err, ps) \<Rightarrow>
     let n = n\<lparr>n_pending := Some ps\<rparr> in
     (case err of Some e \<Rightarrow> Ret (Some (AddInvalid e), n) | None \<Rightarrow>
      run_bind (ApplyTx t ps) (\<lambda>(err, ps).
      let n = n\<lparr>n_pending := Some ps\<rparr> in
      case err of Some e \<Rightarrow> Ret (Some (AddInapplicable e), n) | None \<Rightarrow>
      if length (n_mempoolTx n) \<ge> maxMempool then Ret (Some MempoolFull, n)
      else let n = markSeenTx h n;
               n = n\<lparr>n_mempoolTx := AList.update h t (n_mempoolTx n),
                     n_mempoolOrder := n_mempoolOrder n @ [h],
                     n_pending := Some ps, n_pendingDirty := False\<rparr>
           in Ret (None, if en_sw E then emit (Broadcast (MsgNewTx (Some t)) exceptPeer) n else n)))))"

datatype send_error = NoWallet | InvalidDestination | SendRejected addtx_error

text \<open>\<open>Send\<close> builds and signs under the mutex, releases it, and adds the result.\<close>

definition build_send :: "env \<Rightarrow> wallet \<Rightarrow> address \<Rightarrow> u64 \<Rightarrow> u64 \<Rightarrow> node \<Rightarrow> (tx \<times> node) run" where
  "build_send E w to_addr amount fee n = (let addr = wallet_Address w in
     run_bind (pendingState n) (\<lambda>(ps, n).
     let nonce = acct_Nonce (Account ps addr) in
     case nowMs E n of (now, n) \<Rightarrow>
     let t = \<lparr> From = addr, To = to_addr, Amount = amount, Fee = fee, tx_Nonce = nonce, tx_Time = now,
               PubKey = Some (wallet_PubKey w), Sig = None \<rparr>
     in Ret (t\<lparr>Sig := Some (wallet_Sign (en_ed E) w (SigningBytes t))\<rparr>, n)))"

definition Send :: "env \<Rightarrow> address \<Rightarrow> u64 \<Rightarrow> u64 \<Rightarrow> node \<Rightarrow> ((send_error + hash) \<times> node) run" where
  "Send E to_addr amount fee n =
     (case en_wallet E of None \<Rightarrow> Ret (Inl NoWallet, n) | Some w \<Rightarrow>
      if \<not> Valid to_addr then Ret (Inl InvalidDestination, n)
      else run_bind (build_send E w to_addr amount fee n) (\<lambda>(t, n).
      run_bind (AddTx E t '''' n) (\<lambda>(err, n).
      case err of Some e \<Rightarrow> Ret (Inl (SendRejected e), n) | None \<Rightarrow> Ret (Inr (tx_Hash t), n))))"

end
