(* ===== verification/Tree.thy ===== *)
theory Tree
  imports Mempool
begin

text \<open>
  The block tree of \<open>internal/node/node.go\<close>: the walks along parent hashes, the orphan pool, the
  choice of the best tip and the removal of an invalid subtree. Go iterates over the map of blocks
  in no fixed order; the model iterates over the association list, and the lemmas show that the
  result does not depend on its order.
\<close>

subsection \<open>Walks\<close>

text \<open>The loop of \<open>anchorLocked\<close>, \<open>k\<close> steps left.\<close>

primrec anchor_walk :: "tree \<Rightarrow> nat \<Rightarrow> blockEntry option \<Rightarrow> blockEntry option" where
  "anchor_walk B 0 cur = cur"
| "anchor_walk B (Suc k) cur = (case cur of None \<Rightarrow> None
     | Some e \<Rightarrow> anchor_walk B k (map_of B (PrevHash (e_block e))))"

definition anchorLocked :: "params \<Rightarrow> tree \<Rightarrow> blockEntry \<Rightarrow> block option" where
  "anchorLocked p B parent =
     (if BlocksPerRetarget p = 0 \<or> (Height (e_block parent) + 1) mod BlocksPerRetarget p \<noteq> 0 then None
      else case anchor_walk B (unat (BlocksPerRetarget p - 1)) (Some parent) of
        None \<Rightarrow> None | Some cur \<Rightarrow> Some (e_block cur))"

text \<open>The loop of \<open>pathToGenesisLocked\<close>; no result when the parent pointers never end.\<close>

partial_function (option) path_loop :: "tree \<Rightarrow> blockEntry list \<Rightarrow> blockEntry option \<Rightarrow> blockEntry list option" where
  "path_loop B path cur = (case cur of None \<Rightarrow> Some path
     | Some e \<Rightarrow> path_loop B (path @ [e]) (map_of B (PrevHash (e_block e))))"

definition pathToGenesis :: "tree \<Rightarrow> blockEntry \<Rightarrow> blockEntry list run" where
  "pathToGenesis B e = run_of_option (path_loop B [] (Some e))"

text \<open>The in-place reversal, two indices moving towards each other.\<close>

function reverse_loop :: "'a list \<Rightarrow> nat \<Rightarrow> nat \<Rightarrow> 'a list" where
  "reverse_loop path i j = (if i < j
     then reverse_loop (path[i := path ! j, j := path ! i]) (i + 1) (j - 1) else path)"
  by pat_completeness auto
termination
  by (relation "measure (\<lambda>(path, i, j). j - i)") auto

declare reverse_loop.simps [simp del]

definition reverse :: "'a list \<Rightarrow> 'a list" where
  "reverse path = reverse_loop path 0 (length path - 1)"

definition tailAfter :: "blockEntry list \<Rightarrow> u64 \<Rightarrow> blockEntry list" where
  "tailAfter path fromHeight = filter (\<lambda>e. Height (e_block e) \<ge> fromHeight) path"

subsection \<open>Orphans\<close>

definition orphan_count :: "node \<Rightarrow> nat" where
  "orphan_count n = sum_list (map (\<lambda>(k, l). length l) (n_orphans n))"

definition addOrphan :: "block \<Rightarrow> node \<Rightarrow> node" where
  "addOrphan b n = (let h = block_Hash b in
     if list_ex (\<lambda>(k, l). list_ex (\<lambda>have_b. block_Hash have_b = h) l) (n_orphans n) then n
     else if orphan_count n \<ge> maxOrphans then n
     else n\<lparr>n_orphans := AList.update (PrevHash b)
            ((case map_of (n_orphans n) (PrevHash b) of None \<Rightarrow> [] | Some l \<Rightarrow> l) @ [b]) (n_orphans n)\<rparr>)"

text \<open>\<open>promoteOrphansLocked\<close> inserts each waiting block; \<open>ins\<close> is the insertion, its error only logged.\<close>

fun promote_list :: "(block \<Rightarrow> node \<Rightarrow> ('e \<times> node) run) \<Rightarrow> block list \<Rightarrow> node \<Rightarrow> node run" where
  "promote_list ins [] n = Ret n"
| "promote_list ins (b # l) n = run_bind (ins b n) (\<lambda>(err, n). promote_list ins l n)"

definition promoteOrphans :: "(block \<Rightarrow> node \<Rightarrow> ('e \<times> node) run) \<Rightarrow> hash \<Rightarrow> node \<Rightarrow> node run" where
  "promoteOrphans ins parent n = (case map_of (n_orphans n) parent of None \<Rightarrow> Ret n
     | Some l \<Rightarrow> promote_list ins l (n\<lparr>n_orphans := AList.delete parent (n_orphans n)\<rparr>))"

subsection \<open>The best tip\<close>

text \<open>More work, or the same work and the smaller hash in hexadecimal.\<close>

definition better :: "blockEntry \<Rightarrow> blockEntry \<Rightarrow> bool" where
  "better e best \<longleftrightarrow> e_work e > e_work best
     \<or> (e_work e = e_work best \<and> hash_String (e_hash e) < hash_String (e_hash best))"

fun best_loop :: "hash set \<Rightarrow> tree \<Rightarrow> blockEntry option \<Rightarrow> blockEntry option" where
  "best_loop rej [] best = best"
| "best_loop rej ((h, e) # B) best =
     (if e_hash e \<in> rej then best_loop rej B best
      else best_loop rej B (case best of None \<Rightarrow> Some e | Some b \<Rightarrow> if better e b then Some e else Some b))"

subsection \<open>Removing a subtree\<close>

definition childrenLocked :: "tree \<Rightarrow> hash \<Rightarrow> blockEntry list" where
  "childrenLocked B parent = filter (\<lambda>e. PrevHash (e_block e) = parent) (map snd B)"

fun reject_list :: "(blockEntry \<Rightarrow> node \<Rightarrow> node run) \<Rightarrow> blockEntry list \<Rightarrow> node \<Rightarrow> node run" where
  "reject_list rec [] n = Ret n"
| "reject_list rec (c # cs) n = run_bind (rec c n) (\<lambda>n. reject_list rec cs n)"

text \<open>The recursive closure, with a bound on its depth.\<close>

primrec reject :: "nat \<Rightarrow> blockEntry \<Rightarrow> node \<Rightarrow> node run" where
  "reject 0 x n = Diverge"
| "reject (Suc fuel) x n = (
     let n = n\<lparr>n_rejected := insert (e_hash x) (n_rejected n), n_blocks := AList.delete (e_hash x) (n_blocks n)\<rparr>
     in reject_list (reject fuel) (childrenLocked (n_blocks n) (e_hash x)) n)"

definition rejectSubtree :: "blockEntry \<Rightarrow> node \<Rightarrow> node run" where
  "rejectSubtree e n = reject (Suc (length (n_blocks n))) e n"

end
