(* ===== verification/ChainSwitch.thy ===== *)
theory ChainSwitch
  imports Tree
begin

text \<open>
  Fork choice and insertion of \<open>internal/node/node.go\<close>: replaying a branch, switching the active
  chain to it, choosing the best tip and inserting a block with the orphans that wait for it.

  \<open>insertBlockLocked\<close> and \<open>promoteOrphansLocked\<close> call each other. The model bounds the depth of
  the recursion: an inserted orphan has left the pool, so a depth of one more than the number of
  waiting orphans is never exceeded.
\<close>

subsection \<open>Switching the active chain\<close>

datatype switch_error = StateInvalid block_state_error | ReplayFailed hash block_state_error | NoCommonAncestor

text \<open>The loop of \<open>replayLocked\<close>; \<open>fresh\<close> is the state it mutates.\<close>

fun replayLocked :: "env \<Rightarrow> blockEntry list \<Rightarrow> state \<Rightarrow> node \<Rightarrow> (switch_error option \<times> state \<times> node) run" where
  "replayLocked E [] fresh n = Ret (None, fresh, n)"
| "replayLocked E (e # path) fresh n =
     (if Height (e_block e) = 0 then replayLocked E path fresh n
      else run_bind (ApplyBlock (en_ed E) (en_params E) (e_block e) fresh) (\<lambda>(err, fresh).
        case err of
          Some x \<Rightarrow> run_bind (rejectSubtree e n) (\<lambda>n. Ret (Some (ReplayFailed (e_hash e) x), fresh, n))
        | None \<Rightarrow>
            let n = (if Height (e_block e) mod checkpointInterval = 0
                     then n\<lparr>n_checkpoints := (n_checkpoints n)(e_hash e \<mapsto> Clone fresh)\<rparr> else n)
            in replayLocked E path fresh n))"

fun last_checkpoint :: "(hash \<Rightarrow> state option) \<Rightarrow> blockEntry list \<Rightarrow> blockEntry option \<Rightarrow> blockEntry option" where
  "last_checkpoint cps [] best = best"
| "last_checkpoint cps (e # path) best =
     last_checkpoint cps path (if cps (e_hash e) \<noteq> None then Some e else best)"

definition baseState :: "blockEntry list \<Rightarrow> node \<Rightarrow> state run" where
  "baseState newPath n = (case last_checkpoint (n_checkpoints n) newPath None of
     None \<Rightarrow> Ret state_New
   | Some best \<Rightarrow> run_bind (deref (n_checkpoints n (e_hash best))) (\<lambda>s. Ret (Clone s)))"

fun start_height :: "(hash \<Rightarrow> state option) \<Rightarrow> blockEntry list \<Rightarrow> u64 \<Rightarrow> u64" where
  "start_height cps [] start = start"
| "start_height cps (e # path) start =
     start_height cps path (if cps (e_hash e) \<noteq> None then Height (e_block e) + 1 else start)"

fun index_heights :: "blockEntry list \<Rightarrow> (u64 \<Rightarrow> hash option) \<Rightarrow> (u64 \<Rightarrow> hash option)" where
  "index_heights [] m = m"
| "index_heights (e # path) m = index_heights path (m(Height (e_block e) \<mapsto> e_hash e))"

definition commitChain :: "env \<Rightarrow> state \<Rightarrow> blockEntry list \<Rightarrow> tx option list \<Rightarrow> node \<Rightarrow> node run" where
  "commitChain E fresh newPath rolledBack n = (
     if newPath = [] then Panic
     else let newTip = newPath ! (length newPath - 1);
              pathSet = set (map e_hash newPath);
              n = n\<lparr>n_chainHeights := index_heights newPath (\<lambda>_. None),
                    n_checkpoints := (\<lambda>h. if h \<in> pathSet then n_checkpoints n h else None),
                    n_state := fresh, n_tip := Some newTip, n_pendingDirty := True\<rparr>
          in run_bind (pathToGenesis (n_blocks n) newTip) (\<lambda>path. rebuildMempool E rolledBack path n))"

text \<open>The first branch: no tip yet.\<close>

definition switch_first :: "env \<Rightarrow> blockEntry \<Rightarrow> node \<Rightarrow> (switch_error option \<times> node) run" where
  "switch_first E newTip n =
     run_bind (pathToGenesis (n_blocks n) newTip) (\<lambda>newPath.
     let newPath = reverse newPath in
     run_bind (replayLocked E newPath state_New n) (\<lambda>(err, fresh, n).
     case err of Some x \<Rightarrow> Ret (Some x, n)
     | None \<Rightarrow> run_bind (commitChain E fresh newPath [] n) (\<lambda>n. Ret (None, n))))"

text \<open>The second: the new tip is a child of the tip.\<close>

definition switch_child :: "env \<Rightarrow> blockEntry \<Rightarrow> node \<Rightarrow> (switch_error option \<times> node) run" where
  "switch_child E newTip n =
     run_bind (ApplyBlock (en_ed E) (en_params E) (e_block newTip) (Clone (n_state n))) (\<lambda>(err, fresh).
     case err of
       Some x \<Rightarrow> run_bind (rejectSubtree newTip n) (\<lambda>n. Ret (Some (StateInvalid x), n))
     | None \<Rightarrow>
         let n = (if Height (e_block newTip) mod checkpointInterval = 0
                  then n\<lparr>n_checkpoints := (n_checkpoints n)(e_hash newTip \<mapsto> Clone fresh)\<rparr> else n);
             n = n\<lparr>n_chainHeights := (n_chainHeights n)(Height (e_block newTip) \<mapsto> e_hash newTip),
                   n_state := fresh, n_tip := Some newTip, n_pendingDirty := True\<rparr>
         in run_bind (dropConfirmed newTip n) (\<lambda>n. Ret (None, publish (e_block newTip) n)))"

text \<open>The third: another branch, replayed from the last checkpoint on it.\<close>

fun find_fork :: "hash set \<Rightarrow> blockEntry list \<Rightarrow> blockEntry option" where
  "find_fork oldSet [] = None"
| "find_fork oldSet (e # path) = (if e_hash e \<in> oldSet then Some e else find_fork oldSet path)"

definition rolled_back :: "blockEntry \<Rightarrow> blockEntry list \<Rightarrow> tx option list" where
  "rolled_back fork oldPath =
     concat (map (\<lambda>e. Txs (e_block e)) (filter (\<lambda>e. Height (e_block e) > Height (e_block fork)) oldPath))"

definition switch_branch :: "env \<Rightarrow> blockEntry \<Rightarrow> blockEntry \<Rightarrow> node \<Rightarrow> (switch_error option \<times> node) run" where
  "switch_branch E oldTip newTip n =
     run_bind (pathToGenesis (n_blocks n) newTip) (\<lambda>newPath.
     let newPath = reverse newPath in
     run_bind (pathToGenesis (n_blocks n) oldTip) (\<lambda>oldPath.
     let oldSet = set (map e_hash oldPath) in
     case find_fork oldSet newPath of None \<Rightarrow> Ret (Some NoCommonAncestor, n)
     | Some fork \<Rightarrow>
         run_bind (baseState newPath n) (\<lambda>fresh.
         let startHeight = start_height (n_checkpoints n) newPath 0;
             tail = tailAfter newPath startHeight in
         run_bind (replayLocked E tail fresh n) (\<lambda>(err, fresh, n).
         case err of Some x \<Rightarrow> Ret (Some x, n)
         | None \<Rightarrow> run_bind (commitChain E fresh newPath (rolled_back fork oldPath) n)
                     (\<lambda>n. Ret (None, publish (e_block newTip) n))))))"

definition switchChain :: "env \<Rightarrow> blockEntry \<Rightarrow> node \<Rightarrow> (switch_error option \<times> node) run" where
  "switchChain E newTip n = (case n_tip n of
     None \<Rightarrow> switch_first E newTip n
   | Some t \<Rightarrow> if PrevHash (e_block newTip) = e_hash t then switch_child E newTip n
       else switch_branch E t newTip n)"

text \<open>A failed switch is logged; the selection is not run again.\<close>

definition selectTip :: "env \<Rightarrow> node \<Rightarrow> node run" where
  "selectTip E n = (case best_loop (n_rejected n) (n_blocks n) None of
     None \<Rightarrow> Ret n
   | Some best \<Rightarrow> if map_option e_hash (n_tip n) = Some (e_hash best) then Ret n
       else run_bind (switchChain E best n) (\<lambda>(err, n). Ret n))"

subsection \<open>Insertion\<close>

datatype insert_error =
    PreviouslyRejected | UnknownGenesis | ErrOrphan | InvalidBlock block_error
  | WrongDifficulty u64 u64 | InvalidPow block_error

definition store_entry :: "blockEntry \<Rightarrow> node \<Rightarrow> node" where
  "store_entry e n = n\<lparr>n_blocks := AList.update (e_hash e) e (n_blocks n)\<rparr>"

text \<open>A validated block enters the tree and, unless it was read from there, the block file.\<close>

definition accept_block :: "env \<Rightarrow> block \<Rightarrow> bool \<Rightarrow> blockEntry \<Rightarrow> node \<Rightarrow> node" where
  "accept_block E b fromDisk parent n = (
     let n = store_entry \<lparr> e_block = b, e_hash = block_Hash b, e_work = e_work parent + unat (Difficulty b) \<rparr> n
     in if \<not> fromDisk then appendBlock E b n else n)"

text \<open>Once the orphans are in, it is announced and the tip selected.\<close>

definition finish_insert :: "env \<Rightarrow> block \<Rightarrow> bool \<Rightarrow> string \<Rightarrow> node \<Rightarrow> (insert_error option \<times> node) run" where
  "finish_insert E b announce exceptPeer n = (
     let n = (if announce \<and> \<not> n_booting n \<and> en_sw E
              then emit (Broadcast (MsgNewBlock (Some b)) exceptPeer) n else n)
     in if \<not> n_booting n then run_bind (selectTip E n) (\<lambda>n. Ret (None, n)) else Ret (None, n))"

primrec insertBlock :: "nat \<Rightarrow> env \<Rightarrow> block \<Rightarrow> bool \<Rightarrow> bool \<Rightarrow> string \<Rightarrow> node \<Rightarrow> (insert_error option \<times> node) run" where
  "insertBlock 0 E b fromDisk announce exceptPeer n = Diverge"
| "insertBlock (Suc fuel) E b fromDisk announce exceptPeer n = (
     let h = block_Hash b in
     if map_of (n_blocks n) h \<noteq> None then Ret (None, n)
     else if h \<in> n_rejected n then Ret (Some PreviouslyRejected, n)
     else if Height b = 0 then
       (if h \<noteq> genesisHash E then Ret (Some UnknownGenesis, n)
        else Ret (None, (store_entry \<lparr> e_block = b, e_hash = h, e_work = 0 \<rparr> n)
                          \<lparr>n_chainHeights := (n_chainHeights n)(0 \<mapsto> h)\<rparr>))
     else case map_of (n_blocks n) (PrevHash b) of None \<Rightarrow> Ret (Some ErrOrphan, addOrphan b n)
     | Some parent \<Rightarrow>
       (case nowMs E n of (now, n) \<Rightarrow>
        run_bind (ValidateBasic (en_params E) b (Some (e_block parent)) now) (\<lambda>err.
        case err of Some x \<Rightarrow> Ret (Some (InvalidBlock x), n) | None \<Rightarrow>
        let want = NextDifficulty (en_params E) (Some (e_block parent))
                     (anchorLocked (en_params E) (n_blocks n) parent) in
        if Difficulty b \<noteq> want then Ret (Some (WrongDifficulty (Difficulty b) want), n)
        else case ValidatePoW b of Some x \<Rightarrow> Ret (Some (InvalidPow x), n) | None \<Rightarrow>
        run_bind (promoteOrphans (\<lambda>b. insertBlock fuel E b False True '''') h (accept_block E b fromDisk parent n))
          (finish_insert E b announce exceptPeer))))"

definition insertBlockLocked :: "env \<Rightarrow> block \<Rightarrow> bool \<Rightarrow> bool \<Rightarrow> string \<Rightarrow> node \<Rightarrow> (insert_error option \<times> node) run" where
  "insertBlockLocked E b fromDisk announce exceptPeer n =
     insertBlock (Suc (orphan_count n)) E b fromDisk announce exceptPeer n"

end
