(* ===== verification/NodeApi.thy ===== *)
theory NodeApi
  imports ChainSwitch
begin

text \<open>
  The operations of \<open>internal/node/node.go\<close> around the chain: starting a node from its block file,
  building a candidate for the miner and submitting its solution, and the read-only queries the
  HTTP API serves. \<open>peers\<close> and \<open>rate\<close> stand for the answers of the p2p switch and of the miner.
\<close>

subsection \<open>Start\<close>

datatype new_error = InsertGenesis insert_error | LoadBlock u64 insert_error | AppendGenesis

fun load_loop :: "env \<Rightarrow> block list \<Rightarrow> node \<Rightarrow> (new_error option \<times> node) run" where
  "load_loop E [] n = Ret (None, n)"
| "load_loop E (b # bs) n = run_bind (insertBlockLocked E b True False '''' n) (\<lambda>(err, n).
     case err of Some x \<Rightarrow> Ret (Some (LoadBlock (Height b) x), n) | None \<Rightarrow> load_loop E bs n)"

text \<open>
  \<open>New\<close> once the store is open and \<open>loaded\<close> is what it holds, up to the start of the p2p switch.
  The genesis block is written to a file that held no block; that write must succeed.
\<close>

definition boot_blocks :: "env \<Rightarrow> block list \<Rightarrow> node \<Rightarrow> (new_error option \<times> node) run" where
  "boot_blocks E loaded n =
     (if length loaded = 0 then
        (let genesis = Genesis (en_params E) in
         run_bind (insertBlockLocked E genesis False False '''' n) (\<lambda>(err, n).
         case err of Some x \<Rightarrow> Ret (Some (InsertGenesis x), n)
         | None \<Rightarrow> if en_disk E (n_ticks n) then Ret (None, appendBlock E genesis n)
                   else Ret (Some AppendGenesis, appendBlock E genesis n)))
      else load_loop E loaded n)"

definition New :: "env \<Rightarrow> block list \<Rightarrow> (new_error option \<times> node) run" where
  "New E loaded = run_bind (boot_blocks E loaded (empty_node\<lparr>n_booting := True\<rparr>)) (\<lambda>(err, n).
     case err of Some x \<Rightarrow> Ret (Some x, n)
     | None \<Rightarrow> run_bind (selectTip E (n\<lparr>n_booting := False\<rparr>)) (\<lambda>n. Ret (None, n)))"

subsection \<open>Mining\<close>

fun apply_candidates :: "tx list \<Rightarrow> state \<Rightarrow> tx list run" where
  "apply_candidates [] work = Ret []"
| "apply_candidates (t # ts) work = run_bind (ApplyTx t work) (\<lambda>(err, work).
     if err \<noteq> None then apply_candidates ts work
     else run_bind (apply_candidates ts work) (\<lambda>rest. Ret (t # rest)))"

text \<open>The order of the sort: higher fee first, then the older one.\<close>

definition fee_order :: "tx \<Rightarrow> int \<times> int" where
  "fee_order t = (- int (unat (Fee t)), sint (tx_Time t))"

definition pool_txs :: "node \<Rightarrow> tx list" where
  "pool_txs n = map (\<lambda>h. the (map_of (n_mempoolTx n) h))
     (filter (\<lambda>h. map_of (n_mempoolTx n) h \<noteq> None) (n_mempoolOrder n))"

definition candidate_time :: "env \<Rightarrow> blockEntry \<Rightarrow> node \<Rightarrow> i64 \<times> node" where
  "candidate_time E tip n = (case nowMs E n of (now, n) \<Rightarrow>
     (if sint now \<le> sint (Time (e_block tip)) then Time (e_block tip) + 1 else now, n))"

definition truncate_txs :: "params \<Rightarrow> tx list \<Rightarrow> tx list run" where
  "truncate_txs p txs = (if int (length txs) > MaxTxsPerBlock p - 1
     then (if MaxTxsPerBlock p - 1 < 0 then Panic else Ret (take (nat (MaxTxsPerBlock p - 1)) txs))
     else Ret txs)"

fun sum_fees :: "tx list \<Rightarrow> u64 \<Rightarrow> u64" where
  "sum_fees [] feeSum = feeSum"
| "sum_fees (t # ts) feeSum = sum_fees ts (feeSum + Fee t)"

definition coinbase_tx :: "address \<Rightarrow> u64 \<Rightarrow> u64 \<Rightarrow> i64 \<Rightarrow> tx" where
  "coinbase_tx miner amount height now = \<lparr> From = CoinbaseAddress, To = miner, Amount = amount, Fee = 0,
     tx_Nonce = height, tx_Time = now, PubKey = None, Sig = None \<rparr>"

definition candidate_txs :: "env \<Rightarrow> node \<Rightarrow> tx list run" where
  "candidate_txs E n = run_bind (apply_candidates (sort_key fee_order (pool_txs n)) (Clone (n_state n)))
     (truncate_txs (en_params E))"

definition BuildCandidate :: "env \<Rightarrow> address \<Rightarrow> node \<Rightarrow> (block option \<times> node) run" where
  "BuildCandidate E miner n = (case n_tip n of None \<Rightarrow> Ret (None, n) | Some tip \<Rightarrow>
     case candidate_time E tip n of (now, n) \<Rightarrow>
     run_bind (candidate_txs E n) (\<lambda>txs.
     let height = Height (e_block tip) + 1 in
     run_bind (RewardAt (en_params E) height) (\<lambda>reward.
     let coinbase = coinbase_tx miner (reward + sum_fees txs 0) height now;
         blockTxs = map Some (coinbase # txs) in
     run_bind (MerkleRoot blockTxs) (\<lambda>root.
     Ret (Some \<lparr> Height = height, PrevHash = e_hash tip, Time = now,
        Difficulty = NextDifficulty (en_params E) (Some (e_block tip))
                       (anchorLocked (en_params E) (n_blocks n) tip),
        Miner = miner, ExtraNonce = 0, Merkle = root, Nonce = 0, Txs = blockTxs \<rparr>, n)))))"

definition SubmitSolution :: "env \<Rightarrow> block \<Rightarrow> node \<Rightarrow> (insert_error option \<times> node) run" where
  "SubmitSolution E b n = insertBlockLocked E b False True '''' n"

subsection \<open>Queries\<close>

record info =
  i_Name :: string
  i_Ticker :: string
  i_Height :: u64
  i_Tip :: hash
  i_Difficulty :: u64
  i_NextReward :: u64
  i_Supply :: u64
  i_Address :: address
  i_Balance :: u64
  i_Mempool :: nat
  i_Peers :: nat
  i_Hashrate :: u64
  i_TargetTime :: i64

fun sum_balances :: "(address \<times> account) list \<Rightarrow> u64 \<Rightarrow> u64" where
  "sum_balances [] acc = acc"
| "sum_balances ((a, acct) # s) acc = sum_balances s (acc + Balance acct)"

definition Info :: "env \<Rightarrow> nat \<Rightarrow> u64 option \<Rightarrow> node \<Rightarrow> info run" where
  "Info E peers rate n = (
     let height = TipHeight n;
         diff = (case n_tip n of None \<Rightarrow> 0 | Some t \<Rightarrow> Difficulty (e_block t)) in
     run_bind (RewardAt (en_params E) (height + 1)) (\<lambda>next.
     Ret \<lparr> i_Name = ''bluGOLD'', i_Ticker = ''BLG'', i_Height = height, i_Tip = TipHash n,
       i_Difficulty = diff, i_NextReward = next,
       i_Supply = sum_balances (Accounts (n_state n)) 0, i_Address = WalletAddress E,
       i_Balance = Balance (Account (n_state n) (WalletAddress E)), i_Mempool = length (n_mempoolTx n),
       i_Peers = (if en_sw E then peers else 0), i_Hashrate = (case rate of None \<Rightarrow> 0 | Some r \<Rightarrow> r),
       i_TargetTime = TargetBlockTime (en_params E) \<rparr>))"

record summary =
  s_Height :: u64
  s_Hash :: hash
  s_Time :: i64
  s_Difficulty :: u64
  s_Miner :: address
  s_TxCount :: nat
  s_Amount :: u64

definition summarize :: "blockEntry \<Rightarrow> summary run" where
  "summarize e = (let b = e_block e in
     run_bind (case Txs b of [] \<Rightarrow> Ret 0 | q # _ \<Rightarrow> run_bind (deref q) (\<lambda>t. Ret (Amount t))) (\<lambda>amount.
     Ret \<lparr> s_Height = Height b, s_Hash = e_hash e, s_Time = Time b, s_Difficulty = Difficulty b,
       s_Miner = Miner b, s_TxCount = length (Txs b), s_Amount = amount \<rparr>))"

text \<open>The loop, \<open>k\<close> rounds left; \<open>h - i\<close> never wraps under its guard.\<close>

fun recent_loop :: "node \<Rightarrow> u64 \<Rightarrow> nat \<Rightarrow> nat \<Rightarrow> summary list run" where
  "recent_loop n h i 0 = Ret []"
| "recent_loop n h i (Suc k) =
     (if unat h < i then Ret []
      else case n_chainHeights n (h - of_nat i) of None \<Rightarrow> Ret [] | Some hs \<Rightarrow>
      case map_of (n_blocks n) hs of None \<Rightarrow> Ret [] | Some e \<Rightarrow>
      run_bind (summarize e) (\<lambda>s. run_bind (recent_loop n h (Suc i) k) (\<lambda>rest. Ret (s # rest))))"

definition RecentBlocks :: "int \<Rightarrow> node \<Rightarrow> summary list run" where
  "RecentBlocks count n = (let count = (if count \<le> 0 then 10 else count) in
     case n_tip n of None \<Rightarrow> Ret [] | Some t \<Rightarrow> recent_loop n (Height (e_block t)) 0 (nat count))"

end
