(* ===== verification/Sync.thy ===== *)
theory Sync
  imports NodeApi
begin

text \<open>
  The exchange with peers, \<open>internal/node/node.go\<close>: block locators, the answer to one, and the
  handler of every message. A payload that does not decode is \<open>None\<close>.
\<close>

subsection \<open>Locators\<close>

text \<open>The inner loop of \<open>locatorLocked\<close>: at most \<open>k\<close> parents back, stopping at height 0.\<close>

fun step_back :: "tree \<Rightarrow> nat \<Rightarrow> blockEntry option \<Rightarrow> blockEntry option" where
  "step_back B k cur = (if k = 0 then cur else case cur of None \<Rightarrow> None
     | Some e \<Rightarrow> if Height (e_block e) = 0 then cur
         else step_back B (k - 1) (map_of B (PrevHash (e_block e))))"

declare step_back.simps [simp del]

partial_function (option) locator_loop :: "env \<Rightarrow> tree \<Rightarrow> hash list \<Rightarrow> u64 \<Rightarrow> blockEntry option \<Rightarrow> hash list option" where
  "locator_loop E B out step cur = (case cur of
     None \<Rightarrow> Some (out @ [genesisHash E])
   | Some e \<Rightarrow> if Height (e_block e) = 0 then Some (out @ [e_hash e])
       else locator_loop E B (out @ [e_hash e])
              (if length out + 1 > 10 then step * 2 else step)
              (step_back B (unat (if length out + 1 > 10 then step * 2 else step)) cur))"

definition locatorLocked :: "env \<Rightarrow> tree \<Rightarrow> blockEntry option \<Rightarrow> hash list run" where
  "locatorLocked E B e = (case e of None \<Rightarrow> Ret [genesisHash E]
     | Some _ \<Rightarrow> run_of_option (locator_loop E B [] 1 e))"

definition tipLocator :: "env \<Rightarrow> node \<Rightarrow> hash list run" where
  "tipLocator E n = locatorLocked E (n_blocks n) (n_tip n)"

definition sendGetBlocks :: "peer \<Rightarrow> hash list \<Rightarrow> node \<Rightarrow> node" where
  "sendGetBlocks p locator n = (if length locator = 0 then n
     else emit (SendTo (peer_id p) (MsgGetBlocks locator syncBatch)) n)"

text \<open>Where the answer starts: after the first entry that sits on our active chain.\<close>

fun locator_start :: "node \<Rightarrow> hash list \<Rightarrow> u64" where
  "locator_start n [] = 1"
| "locator_start n (h # locator) = (case map_of (n_blocks n) h of
     None \<Rightarrow> locator_start n locator
   | Some e \<Rightarrow> if (case n_chainHeights n (Height (e_block e)) of None \<Rightarrow> 0 | Some on_chain \<Rightarrow> on_chain) \<noteq> h
       then locator_start n locator else Height (e_block e) + 1)"

text \<open>The loop over the heights; \<open>h\<close> wraps with the machine's addition, \<open>k\<close> blocks may still be added.\<close>

fun collect :: "node \<Rightarrow> u64 \<Rightarrow> u64 \<Rightarrow> nat \<Rightarrow> nat \<Rightarrow> block list" where
  "collect n tip_height h txs 0 = []"
| "collect n tip_height h txs (Suc k) =
     (if \<not> h \<le> tip_height then []
      else case n_chainHeights n h of None \<Rightarrow> [] | Some hs \<Rightarrow>
      case map_of (n_blocks n) hs of None \<Rightarrow> [] | Some e \<Rightarrow>
      if txs + length (Txs (e_block e)) \<ge> syncTxBudget then [e_block e]
      else e_block e # collect n tip_height (h + 1) (txs + length (Txs (e_block e))) k)"

definition blocksAfterLocator :: "hash list \<Rightarrow> nat \<Rightarrow> node \<Rightarrow> block list" where
  "blocksAfterLocator locator count n = (case n_tip n of None \<Rightarrow> []
     | Some t \<Rightarrow> collect n (Height (e_block t)) (locator_start n locator) 0 count)"

subsection \<open>Blocks from peers\<close>

definition acceptRemoteBlock :: "env \<Rightarrow> block \<Rightarrow> peer \<Rightarrow> bool \<Rightarrow> node \<Rightarrow> (bool \<times> node) run" where
  "acceptRemoteBlock E b p announce n = (let h = block_Hash b in
     if map_of (n_blocks n) h \<noteq> None \<or> h \<in> n_rejected n then Ret (False, n)
     else run_bind (insertBlockLocked E b False announce (Dial p) n) (\<lambda>(err, n).
       case err of None \<Rightarrow> Ret (True, n)
       | Some x \<Rightarrow> if x = ErrOrphan
           then run_bind (locatorLocked E (n_blocks n) (n_tip n)) (\<lambda>locator.
                  Ret (False, sendGetBlocks p locator n))
           else Ret (False, n)))"

text \<open>The loop of \<open>onBlocks\<close>; a nil block panics when its hash is read.\<close>

fun accept_loop :: "env \<Rightarrow> peer \<Rightarrow> block option list \<Rightarrow> nat \<Rightarrow> hash \<Rightarrow> node \<Rightarrow> (nat \<times> hash \<times> node) run" where
  "accept_loop E p [] accepted deepest n = Ret (accepted, deepest, n)"
| "accept_loop E p (q # qs) accepted deepest n = run_bind (deref q) (\<lambda>b.
     run_bind (acceptRemoteBlock E b p False n) (\<lambda>(ok, n).
     if ok then accept_loop E p qs (Suc accepted) (block_Hash b) n
     else accept_loop E p qs accepted deepest n))"

definition onBlocks :: "env \<Rightarrow> peer \<Rightarrow> block option list option \<Rightarrow> node \<Rightarrow> node run" where
  "onBlocks E p payload n = (case payload of None \<Rightarrow> Ret n | Some qs \<Rightarrow>
     if length qs = 0 then Ret n
     else run_bind (accept_loop E p qs 0 0 n) (\<lambda>(accepted, deepest, n).
     if accepted = 0 then Ret n
     else let anchor = (case map_of (n_blocks n) deepest of None \<Rightarrow> n_tip n | Some e \<Rightarrow> Some e) in
     run_bind (locatorLocked E (n_blocks n) anchor) (\<lambda>locator. Ret (sendGetBlocks p locator n))))"

definition onNewBlock :: "env \<Rightarrow> peer \<Rightarrow> block option option \<Rightarrow> node \<Rightarrow> node run" where
  "onNewBlock E p payload n = (case payload of None \<Rightarrow> Ret n | Some None \<Rightarrow> Ret n
     | Some (Some b) \<Rightarrow> run_bind (acceptRemoteBlock E b p True n) (\<lambda>(ok, n). Ret n))"

definition onGetBlocks :: "env \<Rightarrow> peer \<Rightarrow> (hash list \<times> int) option \<Rightarrow> node \<Rightarrow> node run" where
  "onGetBlocks E p payload n = (case payload of None \<Rightarrow> Ret n | Some (locator, req_count) \<Rightarrow>
     let count = (if req_count \<le> 0 \<or> req_count > syncBatch then syncBatch else req_count);
         out = blocksAfterLocator locator (nat count) n
     in if length out = 0 then Ret n else Ret (emit (SendTo (peer_id p) (MsgBlocks (map Some out))) n))"

subsection \<open>Transactions from peers\<close>

definition onNewTx :: "env \<Rightarrow> peer \<Rightarrow> tx option option \<Rightarrow> node \<Rightarrow> node run" where
  "onNewTx E p payload n = (case payload of None \<Rightarrow> Ret n | Some None \<Rightarrow> Ret n
     | Some (Some t) \<Rightarrow> run_bind (AddTx E t (Dial p) n) (\<lambda>(err, n). Ret n))"

definition mempool_reply :: "node \<Rightarrow> tx list" where
  "mempool_reply n = take mempoolReplyBudget (pool_txs n)"

definition onGetMempool :: "peer \<Rightarrow> node \<Rightarrow> node" where
  "onGetMempool p n = (let txs = mempool_reply n in
     if length txs = 0 then n else emit (SendTo (peer_id p) (MsgMempool (map Some txs))) n)"

fun mempool_loop :: "env \<Rightarrow> peer \<Rightarrow> tx option list \<Rightarrow> node \<Rightarrow> node run" where
  "mempool_loop E p [] n = Ret n"
| "mempool_loop E p (q # qs) n = (case q of None \<Rightarrow> mempool_loop E p qs n
     | Some t \<Rightarrow> run_bind (AddTx E t (Dial p) n) (\<lambda>(err, n). mempool_loop E p qs n))"

definition onMempool :: "env \<Rightarrow> peer \<Rightarrow> tx option list option \<Rightarrow> node \<Rightarrow> node run" where
  "onMempool E p payload n = (case payload of None \<Rightarrow> Ret n | Some qs \<Rightarrow> mempool_loop E p qs n)"

subsection \<open>Dispatch\<close>

text \<open>\<open>onMessage\<close> on a payload that decodes; version and peers messages never reach it.\<close>

definition onMessage :: "env \<Rightarrow> peer \<Rightarrow> message \<Rightarrow> node \<Rightarrow> node run" where
  "onMessage E p msg n = (case msg of
     MsgGetBlocks locator count \<Rightarrow> onGetBlocks E p (Some (locator, count)) n
   | MsgBlocks qs \<Rightarrow> onBlocks E p (Some qs) n
   | MsgNewBlock q \<Rightarrow> onNewBlock E p (Some q) n
   | MsgNewTx q \<Rightarrow> onNewTx E p (Some q) n
   | MsgGetMempool \<Rightarrow> Ret (onGetMempool p n)
   | MsgMempool qs \<Rightarrow> onMempool E p (Some qs) n)"

definition onPeerConnect :: "env \<Rightarrow> peer \<Rightarrow> node \<Rightarrow> node run" where
  "onPeerConnect E p n = run_bind (tipLocator E n) (\<lambda>locator.
     Ret (emit (SendTo (peer_id p) MsgGetMempool) (sendGetBlocks p locator n)))"

text \<open>One tick of \<open>syncLoop\<close>; \<open>None\<close> when the loop returns.\<close>

definition sync_tick :: "env \<Rightarrow> node \<Rightarrow> node option run" where
  "sync_tick E n = (if \<not> en_sw E \<or> n_stopped n then Ret None
     else run_bind (tipLocator E n) (\<lambda>locator.
       if length locator = 0 then Ret (Some n)
       else Ret (Some (emit (Broadcast (MsgGetBlocks locator syncBatch) '''') n))))"

end
