(* ===== verification/Wire.thy ===== *)
theory Wire
  imports JsonTypes Sync Switch
begin

text \<open>
  \<open>internal/wire/wire.go\<close> and the JSON forms of transactions and blocks: the envelope, the messages,
  the frames they travel in, and what a node does with an envelope it has read. A connection is the
  bytes it delivers before it ends. The payload of an envelope, a \<open>json.RawMessage\<close>, is the value its
  text denotes; where the field is missing it is nil, which no \<open>Unmarshal\<close> accepts.
\<close>

subsection \<open>Transactions and blocks\<close>

definition omit_empty :: "string \<Rightarrow> bytes option \<Rightarrow> (string \<times> json) list" where
  "omit_empty n bs = (if slice_bytes bs = [] then [] else [(n, enc_bytes bs)])"

definition enc_tx :: "tx \<Rightarrow> json" where
  "enc_tx t = JObj ([(''from'', enc_string (From t)), (''to'', enc_string (To t)), (''amount'', enc_u64 (Amount t)),
     (''fee'', enc_u64 (Fee t)), (''nonce'', enc_u64 (tx_Nonce t)), (''time'', enc_i64 (tx_Time t))]
     @ omit_empty ''pub'' (PubKey t) @ omit_empty ''sig'' (Sig t))"

definition zero_tx :: tx where
  "zero_tx = \<lparr> From = '''', To = '''', Amount = 0, Fee = 0, tx_Nonce = 0, tx_Time = 0, PubKey = None, Sig = None \<rparr>"

definition tx_fields :: "tx field list" where
  "tx_fields = [field ''from'' dec_string From (\<lambda>x. From_update (\<lambda>_. x)), field ''to'' dec_string To (\<lambda>x. To_update (\<lambda>_. x)),
     field ''amount'' dec_u64 Amount (\<lambda>x. Amount_update (\<lambda>_. x)), field ''fee'' dec_u64 Fee (\<lambda>x. Fee_update (\<lambda>_. x)),
     field ''nonce'' dec_u64 tx_Nonce (\<lambda>x. tx_Nonce_update (\<lambda>_. x)), field ''time'' dec_i64 tx_Time (\<lambda>x. tx_Time_update (\<lambda>_. x)),
     field ''pub'' dec_bytes PubKey (\<lambda>x. PubKey_update (\<lambda>_. x)), field ''sig'' dec_bytes Sig (\<lambda>x. Sig_update (\<lambda>_. x))]"

definition dec_tx :: "json \<Rightarrow> tx \<Rightarrow> tx option" where
  "dec_tx = dec_struct tx_fields"

definition enc_block :: "block \<Rightarrow> json" where
  "enc_block b = JObj [(''height'', enc_u64 (Height b)), (''prev'', enc_hash (PrevHash b)), (''time'', enc_i64 (Time b)),
     (''difficulty'', enc_u64 (Difficulty b)), (''miner'', enc_string (Miner b)), (''extra_nonce'', enc_u64 (ExtraNonce b)),
     (''merkle'', enc_hash (Merkle b)), (''nonce'', enc_u64 (Nonce b)), (''txs'', enc_slice (enc_pointer enc_tx) (Txs b))]"

definition zero_block :: block where
  "zero_block = \<lparr> Height = 0, PrevHash = 0, Time = 0, Difficulty = 0, Miner = '''', ExtraNonce = 0, Merkle = 0, Nonce = 0, Txs = [] \<rparr>"

definition dec_txs :: "json \<Rightarrow> tx option list \<Rightarrow> tx option list option" where
  "dec_txs = dec_slice (dec_pointer dec_tx zero_tx) None"

definition block_fields :: "block field list" where
  "block_fields = [field ''height'' dec_u64 Height (\<lambda>x. Height_update (\<lambda>_. x)), field ''prev'' dec_hash PrevHash (\<lambda>x. PrevHash_update (\<lambda>_. x)),
     field ''time'' dec_i64 Time (\<lambda>x. Time_update (\<lambda>_. x)), field ''difficulty'' dec_u64 Difficulty (\<lambda>x. Difficulty_update (\<lambda>_. x)),
     field ''miner'' dec_string Miner (\<lambda>x. Miner_update (\<lambda>_. x)), field ''extra_nonce'' dec_u64 ExtraNonce (\<lambda>x. ExtraNonce_update (\<lambda>_. x)),
     field ''merkle'' dec_hash Merkle (\<lambda>x. Merkle_update (\<lambda>_. x)), field ''nonce'' dec_u64 Nonce (\<lambda>x. Nonce_update (\<lambda>_. x)),
     field ''txs'' dec_txs Txs (\<lambda>x. Txs_update (\<lambda>_. x))]"

definition dec_block :: "json \<Rightarrow> block \<Rightarrow> block option" where
  "dec_block = dec_struct block_fields"

subsection \<open>Envelopes and messages\<close>

definition MaxFrameSize :: nat where
  "MaxFrameSize = 8388608"

record envelope =
  env_Type :: string
  env_Payload :: "json option"

definition NewEnvelope :: "string \<Rightarrow> json \<Rightarrow> envelope" where
  "NewEnvelope msgType payload = \<lparr> env_Type = msgType, env_Payload = Some payload \<rparr>"

definition enc_envelope :: "envelope \<Rightarrow> json" where
  "enc_envelope e = JObj ((''type'', enc_string (env_Type e)) #
     (case env_Payload e of None \<Rightarrow> [] | Some v \<Rightarrow> [(''payload'', v)]))"

definition dec_envelope :: "json \<Rightarrow> envelope \<Rightarrow> envelope option" where
  "dec_envelope = dec_struct [field ''type'' dec_string env_Type (\<lambda>x. env_Type_update (\<lambda>_. x)),
     field ''payload'' (\<lambda>v old. Some (Some v)) env_Payload (\<lambda>x. env_Payload_update (\<lambda>_. x))]"

definition zero_envelope :: envelope where
  "zero_envelope = \<lparr> env_Type = '''', env_Payload = None \<rparr>"

text \<open>\<open>VersionMsg\<close>: a zero nonce is left out.\<close>

definition enc_version :: "version \<Rightarrow> json" where
  "enc_version v = JObj ([(''protocol'', enc_int (v_Protocol v)), (''listen_addr'', enc_string (v_ListenAddr v)), (''height'', enc_u64 (v_Height v))]
     @ (if v_Nonce v = 0 then [] else [(''nonce'', enc_u64 (v_Nonce v))]))"

definition zero_version :: version where
  "zero_version = \<lparr> v_Protocol = 0, v_ListenAddr = '''', v_Height = 0, v_Nonce = 0 \<rparr>"

definition dec_version :: "json \<Rightarrow> version \<Rightarrow> version option" where
  "dec_version = dec_struct [field ''protocol'' dec_int v_Protocol (\<lambda>x. v_Protocol_update (\<lambda>_. x)),
     field ''listen_addr'' dec_string v_ListenAddr (\<lambda>x. v_ListenAddr_update (\<lambda>_. x)),
     field ''height'' dec_u64 v_Height (\<lambda>x. v_Height_update (\<lambda>_. x)), field ''nonce'' dec_u64 v_Nonce (\<lambda>x. v_Nonce_update (\<lambda>_. x))]"

text \<open>The messages that are structs with one field are that field.\<close>

definition enc_one :: "string \<Rightarrow> json \<Rightarrow> json" where
  "enc_one n v = JObj [(n, v)]"

definition dec_one :: "string \<Rightarrow> (json \<Rightarrow> 'a \<Rightarrow> 'a option) \<Rightarrow> json \<Rightarrow> 'a \<Rightarrow> 'a option" where
  "dec_one n dec = dec_struct [field n dec id (\<lambda>x _. x)]"

definition dec_peers :: "json \<Rightarrow> string list \<Rightarrow> string list option" where
  "dec_peers = dec_one ''addrs'' (dec_slice dec_string '''')"

definition dec_getblocks :: "json \<Rightarrow> hash list \<times> int \<Rightarrow> (hash list \<times> int) option" where
  "dec_getblocks = dec_struct [field ''locator'' (dec_slice dec_hash 0) fst (\<lambda>x r. (x, snd r)), field ''count'' dec_int snd (\<lambda>x r. (fst r, x))]"

definition dec_blocks :: "json \<Rightarrow> block option list \<Rightarrow> block option list option" where
  "dec_blocks = dec_one ''blocks'' (dec_slice (dec_pointer dec_block zero_block) None)"

definition dec_newblock :: "json \<Rightarrow> block option \<Rightarrow> block option option" where
  "dec_newblock = dec_one ''block'' (dec_pointer dec_block zero_block)"

definition dec_newtx :: "json \<Rightarrow> tx option \<Rightarrow> tx option option" where
  "dec_newtx = dec_one ''tx'' (dec_pointer dec_tx zero_tx)"

definition dec_mempool :: "json \<Rightarrow> tx option list \<Rightarrow> tx option list option" where
  "dec_mempool = dec_one ''txs'' dec_txs"

text \<open>The envelope of a message the node sends.\<close>

definition message_envelope :: "message \<Rightarrow> envelope" where
  "message_envelope msg = (case msg of
     MsgGetBlocks locator count \<Rightarrow> NewEnvelope ''getblocks'' (JObj [(''locator'', enc_slice enc_hash locator), (''count'', enc_int count)])
   | MsgBlocks bs \<Rightarrow> NewEnvelope ''blocks'' (enc_one ''blocks'' (enc_array (enc_pointer enc_block) bs))
   | MsgNewBlock b \<Rightarrow> NewEnvelope ''newblock'' (enc_one ''block'' (enc_pointer enc_block b))
   | MsgNewTx t \<Rightarrow> NewEnvelope ''newtx'' (enc_one ''tx'' (enc_pointer enc_tx t))
   | MsgGetMempool \<Rightarrow> NewEnvelope ''getmempool'' (JObj [])
   | MsgMempool ts \<Rightarrow> NewEnvelope ''mempool'' (enc_one ''txs'' (enc_array (enc_pointer enc_tx) ts)))"

definition payload :: "(json \<Rightarrow> 'a \<Rightarrow> 'a option) \<Rightarrow> 'a \<Rightarrow> envelope \<Rightarrow> 'a option" where
  "payload dec zero e = (case env_Payload e of None \<Rightarrow> None | Some v \<Rightarrow> dec v zero)"

text \<open>\<open>onMessage\<close> on an envelope; each handler reads the payload itself and drops what it cannot read.\<close>

definition onEnvelope :: "env \<Rightarrow> peer \<Rightarrow> envelope \<Rightarrow> node \<Rightarrow> node run" where
  "onEnvelope E p e n = (
     if env_Type e = ''getblocks'' then onGetBlocks E p (payload dec_getblocks ([], 0) e) n
     else if env_Type e = ''blocks'' then onBlocks E p (payload dec_blocks [] e) n
     else if env_Type e = ''newblock'' then onNewBlock E p (payload dec_newblock None e) n
     else if env_Type e = ''newtx'' then onNewTx E p (payload dec_newtx None e) n
     else if env_Type e = ''getmempool'' then Ret (onGetMempool p n)
     else if env_Type e = ''mempool'' then onMempool E p (payload dec_mempool [] e) n
     else Ret n)"

text \<open>What the switch sees of an envelope.\<close>

definition envelope_frame :: "envelope \<Rightarrow> frame" where
  "envelope_frame e = \<lparr> f_Type = env_Type e, f_version = payload dec_version zero_version e, f_addrs = payload dec_peers [] e \<rparr>"

subsection \<open>Frames\<close>

datatype frame_error = FrameTooLarge nat | EOF | UnexpectedEOF | WriteFailed | BadEnvelope | EmptyType

text \<open>One \<open>Write\<close>: \<open>None\<close> when it succeeds, otherwise how much it wrote before it failed.\<close>

definition write_call :: "nat option \<Rightarrow> bytes \<Rightarrow> bool \<times> bytes" where
  "write_call fate data = (case fate of None \<Rightarrow> (True, data) | Some k \<Rightarrow> (False, take k data))"

definition WriteFrame :: "nat option \<Rightarrow> nat option \<Rightarrow> envelope \<Rightarrow> frame_error option \<times> bytes" where
  "WriteFrame fate1 fate2 env = (let data = string_bytes (Marshal enc_envelope env) in
     if length data > MaxFrameSize then (Some (FrameTooLarge (length data)), [])
     else case write_call fate1 (be_bytes 4 (of_nat (length data) :: u32)) of (ok, out) \<Rightarrow>
       if \<not> ok then (Some WriteFailed, out)
       else case write_call fate2 data of (ok, out') \<Rightarrow> (if ok then None else Some WriteFailed, out @ out'))"

text \<open>\<open>io.ReadFull\<close> of \<open>k\<close> bytes.\<close>

definition ReadFull :: "nat \<Rightarrow> bytes \<Rightarrow> (frame_error + bytes) \<times> bytes" where
  "ReadFull k s = (if k \<le> length s then (Inr (take k s), drop k s)
     else (Inl (if s = [] then EOF else UnexpectedEOF), []))"

definition bytes_string :: "bytes \<Rightarrow> string" where
  "bytes_string bs = map (\<lambda>b. char_of (unat b)) bs"

definition ReadFrame :: "bytes \<Rightarrow> (frame_error + envelope) \<times> bytes" where
  "ReadFrame s = (case ReadFull 4 s of (Inl e, s) \<Rightarrow> (Inl e, s) | (Inr l, s) \<Rightarrow>
     let n = SetBytes l in
     if n > MaxFrameSize then (Inl (FrameTooLarge n), s)
     else case ReadFull n s of (Inl e, s) \<Rightarrow> (Inl e, s) | (Inr buf, s) \<Rightarrow>
       (case Unmarshal dec_envelope zero_envelope (bytes_string buf) of
          None \<Rightarrow> (Inl BadEnvelope, s)
        | Some env \<Rightarrow> if env_Type env = '''' then (Inl EmptyType, s) else (Inr env, s)))"

end
