(* ===== verification/WireFacts.thy ===== *)
theory WireFacts
  imports Wire
begin

text \<open>
  Round trips of the wire format: every type the node sends is a \<open>json_codec\<close>, so what one node writes
  another reads, alone and in a stream of frames.
\<close>

subsection \<open>Struct fields\<close>

declare fold_name.simps [simp del]

lemma fold_names [simp]:
  "fold_name ''from'' = ''FROM''" "fold_name ''to'' = ''TO''" "fold_name ''amount'' = ''AMOUNT''" "fold_name ''fee'' = ''FEE''"
  "fold_name ''nonce'' = ''NONCE''" "fold_name ''time'' = ''TIME''" "fold_name ''pub'' = ''PUB''" "fold_name ''sig'' = ''SIG''"
  "fold_name ''height'' = ''HEIGHT''" "fold_name ''prev'' = ''PREV''" "fold_name ''difficulty'' = ''DIFFICULTY''"
  "fold_name ''miner'' = ''MINER''" "fold_name ''extra_nonce'' = ''EXTRA_NONCE''" "fold_name ''merkle'' = ''MERKLE''"
  "fold_name ''txs'' = ''TXS''" "fold_name ''type'' = ''TYPE''" "fold_name ''payload'' = ''PAYLOAD''"
  "fold_name ''protocol'' = ''PROTOCOL''" "fold_name ''listen_addr'' = ''LISTEN_ADDR''" "fold_name ''locator'' = ''LOCATOR''"
  "fold_name ''count'' = ''COUNT''" "fold_name ''addrs'' = ''ADDRS''" "fold_name ''blocks'' = ''BLOCKS''"
  "fold_name ''block'' = ''BLOCK''" "fold_name ''tx'' = ''TX''"
  by code_simp+

lemma utf8_ok_ascii_simp [simp]: "code c < 128 \<Longrightarrow> utf8_ok (c # s) = utf8_ok s"
  by simp

lemmas codec_rounds [simp] = u64_json.dec_enc[simplified] i64_json.dec_enc[simplified] int_json.dec_enc hash_json.dec_enc[simplified]
  bytes_json.dec_enc[simplified]

lemma string_round [simp]: "dec_string (enc_string s) old = Some s"
  by (simp add: dec_string_def enc_string_def)

lemma json_ok_basic [simp]:
  "json_ok (enc_u64 n)" "json_ok (enc_i64 i)" "json_ok (enc_int k)" "json_ok (enc_hash h)" "json_ok (enc_bytes bs)"
  "json_ok (enc_string s) = utf8_ok s"
  using u64_json.enc_ok[of n] i64_json.enc_ok[of i] hash_json.enc_ok[of h] bytes_json.enc_ok[of bs]
  by (simp_all add: enc_int_def number_ok_fmt_i enc_string_def)

lemma depth_basic [simp]:
  "depth (enc_u64 n) = 0" "depth (enc_i64 i) = 0" "depth (enc_int k) = 0" "depth (enc_hash h) = 0" "depth (enc_bytes bs) = 0"
  "depth (enc_string s) = 0"
  using u64_json.enc_ok[of n] i64_json.enc_ok[of i] hash_json.enc_ok[of h] bytes_json.enc_ok[of bs]
  by (simp_all add: enc_int_def enc_string_def)

subsection \<open>Transactions\<close>

text \<open>What survives: well-formed strings, and no byte slice that is empty but not nil.\<close>

definition tx_json_ok :: "tx \<Rightarrow> bool" where
  "tx_json_ok t \<longleftrightarrow> utf8_ok (From t) \<and> utf8_ok (To t) \<and> PubKey t \<noteq> Some [] \<and> Sig t \<noteq> Some []"

lemma omit_empty_cases: "bs \<noteq> Some [] \<Longrightarrow> omit_empty n bs = (case bs of None \<Rightarrow> [] | Some _ \<Rightarrow> [(n, enc_bytes bs)])"
  by (cases bs) (simp_all add: omit_empty_def slice_bytes_def)

interpretation tx_json: json_codec enc_tx dec_tx zero_tx tx_json_ok "Suc 0"
proof unfold_locales
  fix t assume ok: "tx_json_ok t"
  then have o': "omit_empty ''pub'' (PubKey t) = (case PubKey t of None \<Rightarrow> [] | Some _ \<Rightarrow> [(''pub'', enc_bytes (PubKey t))])"
    "omit_empty ''sig'' (Sig t) = (case Sig t of None \<Rightarrow> [] | Some _ \<Rightarrow> [(''sig'', enc_bytes (Sig t))])"
    by (simp_all add: tx_json_ok_def omit_empty_cases)
  show "dec_tx (enc_tx t) zero_tx = Some t"
    unfolding enc_tx_def o' dec_tx_def tx_fields_def dec_struct_def zero_tx_def field_def
    by (cases "PubKey t"; cases "Sig t"; cases t; simp)
  show "json_ok (enc_tx t) \<and> depth (enc_tx t) \<le> Suc 0"
    using ok unfolding enc_tx_def o' depth_le_Suc by (auto simp: tx_json_ok_def split: option.splits)
qed

lemma enc_tx_not_null: "enc_tx t \<noteq> JNull"
  by (simp add: enc_tx_def)

definition tx_ptr_ok :: "tx option \<Rightarrow> bool" where
  "tx_ptr_ok q = (case q of None \<Rightarrow> True | Some t \<Rightarrow> tx_json_ok t)"

interpretation tx_ptr: json_codec "enc_pointer enc_tx" "dec_pointer dec_tx zero_tx" None tx_ptr_ok "Suc 0"
  using tx_json.pointer[OF enc_tx_not_null] unfolding tx_ptr_ok_def[abs_def] .

interpretation tx_slice: json_codec "enc_slice (enc_pointer enc_tx)" dec_txs "[]" "list_all tx_ptr_ok" 2
  using tx_ptr.slice by (simp add: dec_txs_def numeral_2_eq_2)

interpretation tx_array: json_codec "enc_array (enc_pointer enc_tx)" dec_txs "[]" "list_all tx_ptr_ok" 2
  using tx_ptr.array by (simp add: dec_txs_def numeral_2_eq_2)

subsection \<open>Blocks\<close>

definition block_json_ok :: "block \<Rightarrow> bool" where
  "block_json_ok b \<longleftrightarrow> utf8_ok (Miner b) \<and> list_all tx_ptr_ok (Txs b)"

interpretation block_json: json_codec enc_block dec_block zero_block block_json_ok 3
proof unfold_locales
  fix b assume ok: "block_json_ok b"
  then have t: "dec_txs (enc_slice (enc_pointer enc_tx) (Txs b)) [] = Some (Txs b)" by (simp add: tx_slice.dec_enc block_json_ok_def)
  show "dec_block (enc_block b) zero_block = Some b"
    using t unfolding enc_block_def dec_block_def block_fields_def dec_struct_def zero_block_def field_def by (cases b) simp
  have "3 = Suc 2" by simp
  then show "json_ok (enc_block b) \<and> depth (enc_block b) \<le> 3"
    using ok tx_slice.enc_ok[of "Txs b"] unfolding enc_block_def \<open>3 = Suc 2\<close> depth_le_Suc by (simp add: block_json_ok_def)
qed

lemma enc_block_not_null: "enc_block b \<noteq> JNull"
  by (simp add: enc_block_def)

definition block_ptr_ok :: "block option \<Rightarrow> bool" where
  "block_ptr_ok q = (case q of None \<Rightarrow> True | Some b \<Rightarrow> block_json_ok b)"

interpretation block_ptr: json_codec "enc_pointer enc_block" "dec_pointer dec_block zero_block" None block_ptr_ok 3
  using block_json.pointer[OF enc_block_not_null] unfolding block_ptr_ok_def[abs_def] .

interpretation block_array: json_codec "enc_array (enc_pointer enc_block)" "dec_slice (dec_pointer dec_block zero_block) None" "[]"
    "list_all block_ptr_ok" "Suc 3"
  by (rule block_ptr.array)

subsection \<open>Messages\<close>

lemma dec_one_enc: "dec v zero = Some x \<Longrightarrow> dec_one n dec (enc_one n v) zero = Some x"
  by (simp add: dec_one_def enc_one_def dec_struct_def field_def)

definition message_json_ok :: "message \<Rightarrow> bool" where
  "message_json_ok msg \<longleftrightarrow> (case msg of MsgGetBlocks hs c \<Rightarrow> int_ok c | MsgBlocks bs \<Rightarrow> list_all block_ptr_ok bs
     | MsgNewBlock q \<Rightarrow> block_ptr_ok q | MsgNewTx q \<Rightarrow> tx_ptr_ok q | MsgGetMempool \<Rightarrow> True | MsgMempool ts \<Rightarrow> list_all tx_ptr_ok ts)"

text \<open>A handler that gets the envelope of a message does what the node does with the message.\<close>

lemma onEnvelope_message: "message_json_ok msg \<Longrightarrow> onEnvelope E p (message_envelope msg) n = onMessage E p msg n"
proof (cases msg)
  case (MsgGetBlocks hs c)
  moreover assume "message_json_ok msg"
  moreover have "dec_slice dec_hash 0 (enc_slice enc_hash hs) [] = Some hs" by (rule hashes_json.dec_enc) (simp add: list_all_iff)
  ultimately show ?thesis
    by (simp add: message_json_ok_def message_envelope_def NewEnvelope_def onEnvelope_def onMessage_def payload_def
        dec_getblocks_def dec_struct_def field_def)
qed (simp_all add: message_json_ok_def message_envelope_def NewEnvelope_def onEnvelope_def onMessage_def payload_def
    dec_blocks_def dec_newblock_def dec_newtx_def dec_mempool_def dec_one_enc
    block_array.dec_enc block_ptr.dec_enc tx_ptr.dec_enc tx_array.dec_enc)

definition version_ok :: "version \<Rightarrow> bool" where
  "version_ok v \<longleftrightarrow> int_ok (v_Protocol v) \<and> utf8_ok (v_ListenAddr v)"

interpretation version_json: json_codec enc_version dec_version zero_version version_ok "Suc 0"
proof unfold_locales
  fix v assume "version_ok v"
  then show "dec_version (enc_version v) zero_version = Some v"
    unfolding enc_version_def dec_version_def dec_struct_def zero_version_def field_def
    by (cases v) (simp add: version_ok_def)
  show "json_ok (enc_version v) \<and> depth (enc_version v) \<le> Suc 0"
    using \<open>version_ok v\<close> unfolding enc_version_def depth_le_Suc by (auto simp: version_ok_def)
qed

subsection \<open>Envelopes and frames\<close>

definition envelope_ok :: "envelope \<Rightarrow> bool" where
  "envelope_ok e \<longleftrightarrow> env_Type e \<noteq> '''' \<and> utf8_ok (env_Type e)
     \<and> (case env_Payload e of None \<Rightarrow> True | Some v \<Rightarrow> json_ok v \<and> depth v < maxNestingDepth)"

interpretation envelope_json: json_codec enc_envelope dec_envelope zero_envelope envelope_ok maxNestingDepth
proof unfold_locales
  fix e assume ok: "envelope_ok e"
  show "dec_envelope (enc_envelope e) zero_envelope = Some e"
    unfolding enc_envelope_def dec_envelope_def dec_struct_def zero_envelope_def field_def
    by (cases "env_Payload e"; cases e; simp)
  have "maxNestingDepth = Suc 9999" by (simp add: maxNestingDepth_def)
  then show "json_ok (enc_envelope e) \<and> depth (enc_envelope e) \<le> maxNestingDepth"
    using ok unfolding enc_envelope_def \<open>maxNestingDepth = Suc 9999\<close> depth_le_Suc
    by (auto simp: envelope_ok_def maxNestingDepth_def split: option.splits)
qed

lemma bytes_string_bytes [simp]: "bytes_string (string_bytes s) = s"
  by (simp add: bytes_string_def string_bytes_def unat_of_char_byte comp_def)

lemma length_prefix: "n < 2 ^ 32 \<Longrightarrow> SetBytes (be_bytes 4 (of_nat n :: u32)) = n"
  by (simp add: SetBytes_be_bytes unat_of_nat)

definition frame_bytes :: "envelope \<Rightarrow> bytes" where
  "frame_bytes e = be_bytes 4 (of_nat (length (Marshal enc_envelope e)) :: u32) @ string_bytes (Marshal enc_envelope e)"

lemma WriteFrame_ok: "length (Marshal enc_envelope e) \<le> MaxFrameSize \<Longrightarrow> WriteFrame None None e = (None, frame_bytes e)"
  by (simp add: WriteFrame_def write_call_def frame_bytes_def Let_def)

lemma ReadFrame_frame:
  assumes "envelope_ok e" and "length (Marshal enc_envelope e) \<le> MaxFrameSize"
  shows "ReadFrame (frame_bytes e @ rest) = (Inr e, rest)"
proof -
  let ?data = "string_bytes (Marshal enc_envelope e)"
  have n: "SetBytes (be_bytes 4 (of_nat (length ?data) :: u32)) = length ?data"
    using assms(2) by (intro length_prefix) (simp add: MaxFrameSize_def)
  have "ReadFull 4 (frame_bytes e @ rest) = (Inr (be_bytes 4 (of_nat (length ?data) :: u32)), ?data @ rest)"
    by (simp add: ReadFull_def frame_bytes_def)
  moreover have "ReadFull (length ?data) (?data @ rest) = (Inr ?data, rest)" by (simp add: ReadFull_def)
  moreover have "Unmarshal dec_envelope zero_envelope (Marshal enc_envelope e) = Some e"
    by (rule envelope_json.Unmarshal_Marshal[OF order_refl assms(1)])
  ultimately show ?thesis
    using n assms by (simp add: ReadFrame_def Let_def envelope_ok_def del: length_string_bytes) (simp add: MaxFrameSize_def)
qed

end
