(* ===== verification/TreeChange.thy ===== *)
theory TreeChange
  imports TreeInv
begin

text \<open>
  How the two changes of the tree act on it: a validated entry extends it, the removal of a
  subtree takes out exactly descendants of its root, and both leave the branches of the other
  entries as they were. \<open>rejectSubtreeLocked\<close> ends within its bound.
\<close>

subsection \<open>A larger tree has the same branches\<close>

lemma parent_agree:
  assumes "tree_inv E B" and "map_of B \<subseteq>\<^sub>m map_of B'" and "map_of B' 0 = None" and "map_of B h = Some e"
  shows "map_of B' (PrevHash (e_block e)) = map_of B (PrevHash (e_block e))"
proof (cases "Height (e_block e) = 0")
  case True
  from tree_genesis(2)[OF assms(1,4) True] assms(1,3) show ?thesis by (simp add: tree_inv_def)
next
  case False
  from tree_parent[OF assms(1,4) False] obtain par where "map_of B (PrevHash (e_block e)) = Some par" by metis
  with assms(2) show ?thesis by (simp add: map_le_def dom_def)
qed

lemma anchor_walk_agree:
  assumes "tree_inv E B" and "map_of B \<subseteq>\<^sub>m map_of B'" and "map_of B' 0 = None"
    and "\<forall>e. cur = Some e \<longrightarrow> (\<exists>h. map_of B h = Some e)"
  shows "anchor_walk B' k cur = anchor_walk B k cur"
  using assms(4)
proof (induction k arbitrary: cur)
  case (Suc k)
  show ?case
  proof (cases cur)
    case (Some e)
    with Suc.prems obtain h where "map_of B h = Some e" by blast
    from parent_agree[OF assms(1-3) this] Suc.IH Some show ?thesis by auto
  qed simp
qed simp

lemma anchor_agree:
  assumes "tree_inv E B" and "map_of B \<subseteq>\<^sub>m map_of B'" and "map_of B' 0 = None" and "map_of B h = Some e"
  shows "anchorLocked p B' e = anchorLocked p B e"
proof -
  have "anchor_walk B' k (Some e) = anchor_walk B k (Some e)" for k
    using anchor_walk_agree[OF assms(1-3)] assms(4) by blast
  then show ?thesis by (simp add: anchorLocked_def)
qed

lemma branch_agree:
  assumes "tree_inv E B" and "map_of B \<subseteq>\<^sub>m map_of B'" and "map_of B' 0 = None" and "map_of B h = Some e"
  shows "branch B' e = branch B e"
  using assms(1,4)
proof (induction rule: tree_induct)
  case (child h e par)
  from parent_agree[OF assms(1-3) child(1)] child show ?case by (simp add: branch_child)
qed (simp add: branch_genesis)

subsection \<open>A new entry\<close>

definition new_entry_ok :: "env \<Rightarrow> tree \<Rightarrow> blockEntry \<Rightarrow> bool" where
  "new_entry_ok E B e \<longleftrightarrow> map_of B (e_hash e) = None \<and> e_hash e \<noteq> 0 \<and> block_Hash (e_block e) = e_hash e
     \<and> Height (e_block e) \<noteq> 0 \<and> entry_ok E B e"

lemma extend_le: "map_of B k = None \<Longrightarrow> map_of B \<subseteq>\<^sub>m map_of (AList.update k e B)"
  by (auto simp: map_le_def)

lemma entry_ok_agree:
  assumes "tree_inv E B" and "map_of B \<subseteq>\<^sub>m map_of B'" and "map_of B' 0 = None"
    and "entry_ok E B e"
  shows "entry_ok E B' e"
proof (cases "Height (e_block e) = 0")
  case False
  with assms(4) obtain par :: blockEntry and now where p: "map_of B (PrevHash (e_block e)) = Some par"
    "basic_ok (en_params E) (e_block e) (e_block par) now"
    "Difficulty (e_block e) = NextDifficulty (en_params E) (Some (e_block par)) (anchorLocked (en_params E) B par)"
    "ValidatePoW (e_block e) = None" "e_work e = e_work par + unat (Difficulty (e_block e))"
    by (auto simp: entry_ok_def Let_def)
  have "map_of B' (PrevHash (e_block e)) = Some par" using assms(2) p(1) by (auto simp: map_le_def dom_def)
  moreover have "Difficulty (e_block e) = NextDifficulty (en_params E) (Some (e_block par)) (anchorLocked (en_params E) B' par)"
    using p(3) anchor_agree[OF assms(1-3) p(1), of "en_params E"] by simp
  ultimately have "map_of B' (PrevHash (e_block e)) = Some par \<and> basic_ok (en_params E) (e_block e) (e_block par) now
      \<and> Difficulty (e_block e) = NextDifficulty (en_params E) (Some (e_block par)) (anchorLocked (en_params E) B' par)
      \<and> ValidatePoW (e_block e) = None \<and> e_work e = e_work par + unat (Difficulty (e_block e))"
    using p(2,4,5) by blast
  with False show ?thesis unfolding entry_ok_def Let_def if_not_P[OF False] by (intro exI)
qed (use assms(4) in \<open>simp add: entry_ok_def\<close>)

lemma tree_extend:
  assumes inv: "tree_inv E B" and new: "new_entry_ok E B e"
  shows "tree_inv E (AList.update (e_hash e) e B)"
proof -
  let ?B = "AList.update (e_hash e) e B"
  have le: "map_of B \<subseteq>\<^sub>m map_of ?B" and z: "map_of ?B 0 = None"
    using new inv extend_le[of B "e_hash e" e] by (auto simp: new_entry_ok_def tree_inv_def)
  have "e_hash x = h \<and> block_Hash (e_block x) = h \<and> entry_ok E ?B x" if "map_of ?B h = Some x" for h x
  proof (cases "h = e_hash e")
    case True
    with that have "x = e" by simp
    with new True entry_ok_agree[OF inv le z, of e] show ?thesis by (simp add: new_entry_ok_def)
  next
    case False
    with that have m: "map_of B h = Some x" by simp
    from tree_invD(1,2)[OF inv m] entry_ok_agree[OF inv le z tree_invD(3)[OF inv m]] show ?thesis by simp
  qed
  moreover have "keys_ok ?B" "map_of ?B (genesisHash E) \<noteq> None"
    using inv by (auto simp: tree_inv_def)
  ultimately show ?thesis using z unfolding tree_inv_def by blast
qed

subsection \<open>Removing a subtree\<close>

inductive descends :: "tree \<Rightarrow> hash \<Rightarrow> hash \<Rightarrow> bool" for B r where
  self: "descends B r r"
| child: "descends B r (PrevHash (e_block e)) \<Longrightarrow> map_of B h = Some e \<Longrightarrow> descends B r h"

lemma descends_mono:
  assumes "descends B r h" and "map_of B \<subseteq>\<^sub>m map_of B'"
  shows "descends B' r h"
  using assms(1)
proof induction
  case (child e h)
  with assms(2) have "map_of B' h = Some e" by (auto simp: map_le_def dom_def)
  with child show ?case by (blast intro: descends.child)
qed (rule descends.self)

lemma descends_trans:
  assumes "descends B m h" and "descends B r m"
  shows "descends B r h"
  using assms by induction (blast intro: descends.child)+

text \<open>The root lies on the branch of each of its descendants.\<close>

lemma descends_branch:
  assumes inv: "tree_inv E B" and r: "map_of B (e_hash x) = Some x"
    and "descends B (e_hash x) h" and "map_of B h = Some e"
  shows "x \<in> set (branch B e)"
  using assms(3,4)
proof (induction arbitrary: e)
  case self
  with r show ?case by simp
next
  case (child e' h)
  then have [simp]: "e' = e" by simp
  show ?case
  proof (cases "Height (e_block e) = 0")
    case True
    have "PrevHash (e_block e) = 0" using tree_genesis(2)[OF inv child.prems True] by simp
    with child.hyps(1) have "descends B (e_hash x) 0" by simp
    moreover have "map_of B 0 = None" using inv by (simp add: tree_inv_def)
    ultimately have "e_hash x = 0" by (cases rule: descends.cases) auto
    then show ?thesis using r inv by (simp add: tree_inv_def)
  next
    case False
    obtain par where par: "map_of B (PrevHash (e_block e)) = Some par"
      "unat (Height (e_block e)) = Suc (unat (Height (e_block par)))"
      by (rule tree_parent[OF inv child.prems False])
    then have "x \<in> set (branch B par)" using child.IH by simp
    then show ?thesis by (simp add: branch_child[OF par])
  qed
qed

definition drop_keys :: "hash set \<Rightarrow> tree \<Rightarrow> tree" where
  "drop_keys D B = filter (\<lambda>(h, e). h \<notin> D) B"

lemma map_of_drop_keys [simp]: "map_of (drop_keys D B) h = (if h \<in> D then None else map_of B h)"
  by (induction B) (auto simp: drop_keys_def)

lemma drop_keys_Un: "drop_keys D1 (drop_keys D2 B) = drop_keys (D2 \<union> D1) B"
  by (auto simp: drop_keys_def intro!: filter_cong)

lemma drop_keys_delete: "AList.delete k B = drop_keys {k} B"
  unfolding AList.delete_eq drop_keys_def by (rule filter_cong) auto

lemma drop_keys_le: "map_of (drop_keys D B) \<subseteq>\<^sub>m map_of B"
  by (auto simp: map_le_def)

lemma keys_ok_drop_keys: "keys_ok B \<Longrightarrow> keys_ok (drop_keys D B)"
  by (simp add: keys_ok_def drop_keys_def distinct_map_filter)

lemma length_drop_keys_le: "length (drop_keys D B) \<le> length B"
  by (simp add: drop_keys_def)

text \<open>\<open>D\<close> was removed: the entries and nothing else, and no remaining entry names a parent in it.\<close>

definition removed :: "hash set \<Rightarrow> node \<Rightarrow> node \<Rightarrow> bool" where
  "removed D n n' \<longleftrightarrow> n' = n\<lparr>n_rejected := n_rejected n \<union> D, n_blocks := drop_keys D (n_blocks n)\<rparr>
     \<and> (\<forall>h e. map_of (n_blocks n') h = Some e \<longrightarrow> PrevHash (e_block e) \<notin> D)"

definition keyed :: "tree \<Rightarrow> bool" where
  "keyed B \<longleftrightarrow> keys_ok B \<and> (\<forall>h e. map_of B h = Some e \<longrightarrow> e_hash e = h)"

lemma keyed_drop_keys: "keyed B \<Longrightarrow> keyed (drop_keys D B)"
  by (auto simp: keyed_def keys_ok_drop_keys split: if_splits)

lemma childrenLocked_iff:
  "keyed B \<Longrightarrow> c \<in> set (childrenLocked B h) \<longleftrightarrow> map_of B (e_hash c) = Some c \<and> PrevHash (e_block c) = h"
  unfolding childrenLocked_def keyed_def
  by (auto simp: keys_ok_mem_iff[symmetric]) (metis keys_ok_mem_iff snd_conv rev_image_eqI)+

definition rejectable :: "tree \<Rightarrow> blockEntry \<Rightarrow> bool" where
  "rejectable B x \<longleftrightarrow> map_of B (e_hash x) \<noteq> None \<or> (\<forall>h e. map_of B h = Some e \<longrightarrow> PrevHash (e_block e) \<noteq> e_hash x)"

lemma removed_keeps_rejectable:
  assumes "removed D n n'" and "rejectable (n_blocks n) c"
  shows "rejectable (n_blocks n') c"
  using assms unfolding removed_def rejectable_def
  by (auto split: if_splits) metis+

lemma removed_trans:
  assumes "removed D1 n n1" and "removed D2 n1 n2"
  shows "removed (D1 \<union> D2) n n2"
proof -
  have eq: "n2 = n\<lparr>n_rejected := n_rejected n \<union> (D1 \<union> D2), n_blocks := drop_keys (D1 \<union> D2) (n_blocks n)\<rparr>"
    using assms by (auto simp: removed_def drop_keys_Un Un_assoc)
  moreover have "PrevHash (e_block e) \<notin> D1 \<union> D2" if "map_of (n_blocks n2) h = Some e" for h e
  proof -
    have "map_of (n_blocks n1) h = Some e"
      using that assms by (auto simp: removed_def split: if_splits)
    with that assms show ?thesis unfolding removed_def by blast
  qed
  ultimately show ?thesis unfolding removed_def by blast
qed

lemma removed_le: "removed D n n' \<Longrightarrow> map_of (n_blocks n') \<subseteq>\<^sub>m map_of (n_blocks n)"
  by (auto simp: removed_def drop_keys_le)

lemma removed_keyed: "removed D n n' \<Longrightarrow> keyed (n_blocks n) \<Longrightarrow> keyed (n_blocks n')"
  by (auto simp: removed_def keyed_drop_keys)

lemma removed_length: "removed D n n' \<Longrightarrow> length (n_blocks n') \<le> length (n_blocks n)"
  by (auto simp: removed_def length_drop_keys_le)

text \<open>The result of one call: its root and only descendants of it are gone.\<close>

definition reject_result :: "blockEntry \<Rightarrow> node \<Rightarrow> node run \<Rightarrow> bool" where
  "reject_result x n r \<longleftrightarrow> (\<exists>D n'. r = Ret n' \<and> removed D n n' \<and> e_hash x \<in> D
     \<and> (\<forall>h \<in> D. descends (n_blocks n) (e_hash x) h))"

lemma reject_list_result:
  assumes rec: "\<And>x n. keyed (n_blocks n) \<Longrightarrow> length (n_blocks n) < k \<Longrightarrow> rejectable (n_blocks n) x
      \<Longrightarrow> reject_result x n (rec x n)"
    and "keyed (n_blocks n)" and "length (n_blocks n) < k" and "\<forall>c \<in> set cs. rejectable (n_blocks n) c"
  shows "\<exists>D n'. reject_list rec cs n = Ret n' \<and> removed D n n' \<and> e_hash ` set cs \<subseteq> D
     \<and> (\<forall>h \<in> D. \<exists>c \<in> set cs. descends (n_blocks n) (e_hash c) h)"
  using assms(2-4)
proof (induction cs arbitrary: n)
  case Nil
  have "removed {} n n" by (simp add: removed_def drop_keys_def)
  then show ?case by auto
next
  case (Cons c cs)
  from rec[OF Cons.prems(1,2), of c] Cons.prems(3) obtain D1 n1 where
    1: "rec c n = Ret n1" "removed D1 n n1" "e_hash c \<in> D1" "\<forall>h \<in> D1. descends (n_blocks n) (e_hash c) h"
    by (auto simp: reject_result_def)
  have "\<forall>c \<in> set cs. rejectable (n_blocks n1) c"
    using Cons.prems(3) removed_keeps_rejectable[OF 1(2)] by simp
  from Cons.IH[OF removed_keyed[OF 1(2) Cons.prems(1)] _ this] removed_length[OF 1(2)] Cons.prems(2)
  obtain D2 n2 where
    2: "reject_list rec cs n1 = Ret n2" "removed D2 n1 n2" "e_hash ` set cs \<subseteq> D2"
    "\<forall>h \<in> D2. \<exists>c \<in> set cs. descends (n_blocks n1) (e_hash c) h" by auto
  have "\<forall>h \<in> D1 \<union> D2. \<exists>c \<in> set (c # cs). descends (n_blocks n) (e_hash c) h"
    using 1(4) 2(4) descends_mono[OF _ removed_le[OF 1(2)]] by fastforce
  moreover have "reject_list rec (c # cs) n = Ret n2" using 1(1) 2(1) by simp
  moreover have "e_hash ` set (c # cs) \<subseteq> D1 \<union> D2" using 1(3) 2(3) by auto
  ultimately show ?case using removed_trans[OF 1(2) 2(2)] by blast
qed

lemma reject_result:
  "keyed (n_blocks n) \<Longrightarrow> length (n_blocks n) < fuel \<Longrightarrow> rejectable (n_blocks n) x
   \<Longrightarrow> reject_result x n (reject fuel x n)"
proof (induction fuel arbitrary: x n)
  case (Suc fuel)
  define n1 where "n1 = n\<lparr>n_rejected := insert (e_hash x) (n_rejected n), n_blocks := AList.delete (e_hash x) (n_blocks n)\<rparr>"
  let ?cs = "childrenLocked (n_blocks n1) (e_hash x)"
  have b1: "n_blocks n1 = drop_keys {e_hash x} (n_blocks n)" by (simp add: n1_def drop_keys_delete)
  have k1: "keyed (n_blocks n1)" using Suc.prems(1) by (simp add: b1 keyed_drop_keys)
  have cs: "c \<in> set ?cs \<longleftrightarrow> map_of (n_blocks n1) (e_hash c) = Some c \<and> PrevHash (e_block c) = e_hash x" for c
    by (rule childrenLocked_iff[OF k1])
  have "\<exists>D n'. reject_list (reject fuel) ?cs n1 = Ret n' \<and> removed D n1 n' \<and> e_hash ` set ?cs \<subseteq> D
     \<and> (\<forall>h \<in> D. \<exists>c \<in> set ?cs. descends (n_blocks n1) (e_hash c) h)"
  proof (cases "map_of (n_blocks n) (e_hash x) = None")
    case True
    then have same: "drop_keys {e_hash x} (n_blocks n) = n_blocks n"
      unfolding drop_keys_def by (auto simp: filter_id_conv map_of_eq_None_iff image_iff)
    have "?cs = []"
      using Suc.prems(3) True cs unfolding rejectable_def b1 same by (metis list.set_intros(1) neq_Nil_conv)
    moreover have "removed {} n1 n1" by (simp add: removed_def drop_keys_def)
    ultimately show ?thesis by auto
  next
    case False
    have "length (n_blocks n1) < length (n_blocks n)"
    proof -
      from False obtain e where "(e_hash x, e) \<in> set (n_blocks n)" by (auto dest: map_of_SomeD)
      then show ?thesis unfolding b1 drop_keys_def by (intro length_filter_less) auto
    qed
    then have len: "length (n_blocks n1) < fuel" using Suc.prems(2) by simp
    have "\<forall>c \<in> set ?cs. rejectable (n_blocks n1) c" using cs by (simp add: rejectable_def)
    from reject_list_result[OF Suc.IH k1 len this] show ?thesis by blast
  qed
  then obtain D n' where r: "reject_list (reject fuel) ?cs n1 = Ret n'" "removed D n1 n'" "e_hash ` set ?cs \<subseteq> D"
    "\<forall>h \<in> D. \<exists>c \<in> set ?cs. descends (n_blocks n1) (e_hash c) h" by blast
  have le: "map_of (n_blocks n1) \<subseteq>\<^sub>m map_of (n_blocks n)" by (simp add: b1 drop_keys_le)
  have "reject (Suc fuel) x n = Ret n'" using r(1) by (simp add: n1_def Let_def)
  moreover have "removed (insert (e_hash x) D) n n'"
  proof -
    have "n' = n\<lparr>n_rejected := n_rejected n \<union> insert (e_hash x) D, n_blocks := drop_keys (insert (e_hash x) D) (n_blocks n)\<rparr>"
      using r(2) by (auto simp: removed_def n1_def drop_keys_delete drop_keys_Un)
    moreover have "PrevHash (e_block e) \<notin> insert (e_hash x) D" if m: "map_of (n_blocks n') h = Some e" for h e
    proof -
      from r(2) m have "PrevHash (e_block e) \<notin> D" and hD: "h \<notin> D" and m1: "map_of (n_blocks n1) h = Some e"
        by (auto simp: removed_def split: if_splits)
      moreover have "PrevHash (e_block e) \<noteq> e_hash x"
      proof
        assume "PrevHash (e_block e) = e_hash x"
        moreover have "e_hash e = h" using k1 m1 by (simp add: keyed_def)
        ultimately have "e \<in> set ?cs" using cs m1 by simp
        with r(3) \<open>e_hash e = h\<close> hD show False by auto
      qed
      ultimately show ?thesis by simp
    qed
    ultimately show ?thesis unfolding removed_def by blast
  qed
  moreover have "\<forall>h \<in> insert (e_hash x) D. descends (n_blocks n) (e_hash x) h"
  proof -
    have "descends (n_blocks n) (e_hash x) h" if "h \<in> D" for h
    proof -
      from r(4) that obtain c where c: "c \<in> set ?cs" "descends (n_blocks n1) (e_hash c) h" by blast
      have mc: "map_of (n_blocks n) (e_hash c) = Some c" using c(1) cs le by (auto simp: map_le_def dom_def)
      have "descends (n_blocks n) (e_hash x) (e_hash c)"
        using c(1) cs mc by (metis descends.child descends.self)
      with descends_mono[OF c(2) le] show ?thesis by (rule descends_trans)
    qed
    then show ?thesis by (simp add: descends.self)
  qed
  ultimately show ?case unfolding reject_result_def by blast
qed simp

lemma tree_keyed: "tree_inv E B \<Longrightarrow> keyed B"
  by (simp add: tree_inv_def keyed_def)

lemma rejectSubtree_result:
  assumes "tree_inv E (n_blocks n)" and "map_of (n_blocks n) (e_hash x) = Some x"
  shows "reject_result x n (rejectSubtree x n)"
  unfolding rejectSubtree_def
  using reject_result[of n "Suc (length (n_blocks n))" x] tree_keyed[OF assms(1)] assms(2)
  by (simp add: rejectable_def)

text \<open>Removing a subtree that does not hold the genesis block keeps the invariant.\<close>

lemma tree_removed:
  assumes inv: "tree_inv E (n_blocks n)" and rem: "removed D n n'" and gen: "genesisHash E \<notin> D"
  shows "tree_inv E (n_blocks n')"
proof -
  let ?B = "n_blocks n" and ?B' = "n_blocks n'"
  have b: "?B' = drop_keys D ?B" using rem by (simp add: removed_def)
  have up: "PrevHash (e_block e) \<notin> D" if "map_of ?B' h = Some e" for h e
    using rem that by (simp add: removed_def)
  have le: "map_of ?B' \<subseteq>\<^sub>m map_of ?B" by (simp add: b drop_keys_le)
  have agree: "map_of ?B' (PrevHash (e_block e)) = map_of ?B (PrevHash (e_block e))"
    if "map_of ?B' h = Some e" for h e using up[OF that] by (simp add: b)
  have walk: "anchor_walk ?B' k cur = anchor_walk ?B k cur" if "\<forall>e. cur = Some e \<longrightarrow> (\<exists>h. map_of ?B' h = Some e)" for k cur
    using that
  proof (induction k arbitrary: cur)
    case (Suc k)
    show ?case
    proof (cases cur)
      case (Some e)
      with Suc.prems obtain h where "map_of ?B' h = Some e" by blast
      have "\<forall>x. map_of ?B' (PrevHash (e_block e)) = Some x \<longrightarrow> (\<exists>h. map_of ?B' h = Some x)" by blast
      from Suc.IH[OF this] agree[OF \<open>map_of ?B' h = Some e\<close>] Some show ?thesis by simp
    qed simp
  qed simp
  have "e_hash e = h \<and> block_Hash (e_block e) = h \<and> entry_ok E ?B' e" if m': "map_of ?B' h = Some e" for h e
  proof -
    have m: "map_of ?B h = Some e" using m' le by (auto simp: map_le_def dom_def)
    have "entry_ok E ?B' e"
    proof (cases "Height (e_block e) = 0")
      case True
      with tree_invD(3)[OF inv m] show ?thesis by (simp add: entry_ok_def)
    next
      case False
      from tree_invD(3)[OF inv m] False obtain par :: blockEntry and now where p: "map_of ?B (PrevHash (e_block e)) = Some par"
        "basic_ok (en_params E) (e_block e) (e_block par) now"
        "Difficulty (e_block e) = NextDifficulty (en_params E) (Some (e_block par)) (anchorLocked (en_params E) ?B par)"
        "ValidatePoW (e_block e) = None" "e_work e = e_work par + unat (Difficulty (e_block e))"
        by (auto simp: entry_ok_def Let_def)
      have mp: "map_of ?B' (PrevHash (e_block e)) = Some par" using agree[OF m'] p(1) by simp
      have w: "anchor_walk ?B' k (Some par) = anchor_walk ?B k (Some par)" for k using walk mp by blast
      then have "anchorLocked (en_params E) ?B' par = anchorLocked (en_params E) ?B par"
        by (simp add: anchorLocked_def)
      with p(2-5) mp show ?thesis unfolding entry_ok_def Let_def if_not_P[OF False] by (metis)
    qed
    with tree_invD(1,2)[OF inv m] show ?thesis by simp
  qed
  moreover have "keys_ok ?B'" "map_of ?B' 0 = None" "map_of ?B' (genesisHash E) \<noteq> None"
    using inv gen by (auto simp: b tree_inv_def keys_ok_drop_keys)
  ultimately show ?thesis unfolding tree_inv_def by blast
qed

end
