(* ===== verification/PoolInv.thy ===== *)
theory PoolInv
  imports Sync
begin

text \<open>
  The mempool's own invariant: every pending transaction is keyed by its hash, is no coinbase and
  verifies, and the cached pending state is one the ledger's arithmetic cannot overflow on. Every
  operation of \<open>Mempool\<close> returns from such a node and keeps the invariant.
\<close>

subsection \<open>States without overflow\<close>

definition small :: "state \<Rightarrow> bool" where
  "small s \<longleftrightarrow> keys_ok s \<and> total_supply s < 2 ^ 64"

lemma small_New [simp]: "small state_New"
  by (simp add: small_def state_New_def)

lemma Clone_id [simp]: "Clone s = s"
  by (simp add: Clone_def)

text \<open>Applying a transaction never panics there, and the result is small again, even on an error.\<close>

lemma ApplyTx_small:
  assumes "small s"
  obtains err s' where "ApplyTx t s = Ret (err, s')" and "small s'"
    and "err \<noteq> None \<Longrightarrow> abs_state s' = abs_state s"
    and "err = None \<longleftrightarrow> spec_tx t (abs_state s) \<noteq> None"
    and "err = None \<Longrightarrow> spec_tx t (abs_state s) = Some (abs_state s')"
proof -
  from assms have "keys_ok s" "total_supply s < 2 ^ 64" by (simp_all add: small_def)
  from ApplyTx_refines[OF this, of t] obtain rs where rs: "ApplyTx t s = Ret rs" "tx_refines t s rs" by blast
  obtain err s' where [simp]: "rs = (err, s')" by fastforce
  show ?thesis
  proof (cases err)
    case None
    with rs tx_refines_None[of t s s'] assms show ?thesis
      by (intro that[of err s']) (auto simp: small_def)
  next
    case (Some x)
    with rs tx_refines_Some[of t s x s'] assms show ?thesis
      by (intro that[of err s']) (auto simp: small_def abs_state_def)
  qed
qed

lemma ValidateTx_small:
  assumes "small s" and "ValidateTx ed t s = (err, s')"
  shows "small s'" and "abs_state s' = abs_state s"
  using ValidateTx_facts[of s ed t err s'] assms by (auto simp: small_def abs_state_def)

subsection \<open>The invariant\<close>

definition pool_ok :: "ed25519 \<Rightarrow> (hash \<times> tx) list \<Rightarrow> bool" where
  "pool_ok ed mp \<longleftrightarrow> keys_ok mp \<and> (\<forall>h t. map_of mp h = Some t \<longrightarrow> tx_Hash t = h \<and> tx_Verify ed t = None \<and> \<not> IsCoinbase t)"

definition pool_inv :: "env \<Rightarrow> node \<Rightarrow> bool" where
  "pool_inv E n \<longleftrightarrow> pool_ok (en_ed E) (n_mempoolTx n) \<and> (\<forall>s. n_pending n = Some s \<longrightarrow> small s)"

lemma pool_ok_Nil [simp]: "pool_ok ed []"
  by (simp add: pool_ok_def)

lemma pool_ok_update: "pool_ok ed mp \<Longrightarrow> tx_Hash t = h \<Longrightarrow> tx_Verify ed t = None \<Longrightarrow> \<not> IsCoinbase t
   \<Longrightarrow> pool_ok ed (AList.update h t mp)"
  by (simp add: pool_ok_def)

lemma pool_ok_delete: "pool_ok ed mp \<Longrightarrow> pool_ok ed (AList.delete h mp)"
  by (simp add: pool_ok_def)

subsection \<open>The loops\<close>

lemma revalidate_loop_ok:
  assumes "pool_ok ed mp" and "small work" and "pool_ok ed keepTx"
  shows "\<exists>kt ko w. revalidate_loop mp hs work keepTx keepOrder = Ret (kt, ko, w) \<and> pool_ok ed kt \<and> small w"
  using assms
proof (induction hs arbitrary: work keepTx keepOrder)
  case (Cons h hs)
  show ?case
  proof (cases "map_of mp h")
    case (Some t)
    obtain err w where w: "ApplyTx t work = Ret (err, w)" "small w" using ApplyTx_small[OF Cons.prems(2)] by metis
    have t: "tx_Hash t = h" "tx_Verify ed t = None" "\<not> IsCoinbase t"
      using Cons.prems(1) Some by (auto simp: pool_ok_def)
    have "pool_ok ed (AList.update h t keepTx)" using Cons.prems(3) t by (rule pool_ok_update)
    with Cons.IH[OF Cons.prems(1) w(2)] Cons.prems(3) w(1) Some show ?thesis by auto
  qed (use Cons in simp)
qed simp

lemma pending_loop_ok: "small work \<Longrightarrow> \<exists>w. pending_loop mp hs work = Ret w \<and> small w"
proof (induction hs arbitrary: work)
  case (Cons h hs)
  show ?case
  proof (cases "map_of mp h")
    case (Some t)
    obtain err w where "ApplyTx t work = Ret (err, w)" "small w" using ApplyTx_small[OF Cons.prems] by metis
    with Cons.IH Some show ?thesis by simp
  qed (use Cons in simp)
qed simp

lemma drop_loop_ok: "pool_ok ed mp \<Longrightarrow> \<exists>mp' d'. drop_loop (map Some ts) mp d = Ret (mp', d') \<and> pool_ok ed mp'"
  by (induction ts arbitrary: mp d) (simp_all add: Let_def pool_ok_delete)

definition cands_ok :: "(hash \<times> tx) list \<times> hash list \<Rightarrow> bool" where
  "cands_ok co \<longleftrightarrow> (case co of (cands, order) \<Rightarrow> (\<forall>h \<in> set order. map_of cands h \<noteq> None)
     \<and> (\<forall>h t. map_of cands h = Some t \<longrightarrow> tx_Hash t = h \<and> \<not> IsCoinbase t))"

lemma cands_ok_Nil: "cands_ok ([], [])"
  by (simp add: cands_ok_def)

lemma add_cand_ok: "cands_ok co \<Longrightarrow> cands_ok (add_cand t co)"
  by (auto simp: cands_ok_def add_cand_def Let_def split: prod.splits if_splits)

lemma add_pool_ok: "cands_ok co \<Longrightarrow> cands_ok (add_pool mp hs co)"
  by (induction hs arbitrary: co) (auto simp: add_cand_ok split: option.split)

lemma fold_add_cand_ok: "cands_ok co \<Longrightarrow> cands_ok (fold add_cand ts co)"
  by (induction ts arbitrary: co) (simp_all add: add_cand_ok)

lemma tx_hashes_ok: "tx_hashes (map Some ts) = Ret (map tx_Hash ts)"
  by (induction ts) simp_all

lemma rebuild_loop_ok:
  assumes "cands_ok (cands, order)" and "set hs \<subseteq> set order" and "small work" and "pool_ok ed newTx"
  shows "\<exists>nt no w. rebuild_loop ed cands conf hs work newTx newOrder = Ret (nt, no, w) \<and> pool_ok ed nt \<and> small w"
  using assms(2-4)
proof (induction hs arbitrary: work newTx newOrder)
  case (Cons h hs)
  from Cons.prems(1) assms(1) obtain t where t: "map_of cands h = Some t" "tx_Hash t = h" "\<not> IsCoinbase t"
    by (auto simp: cands_ok_def)
  obtain err w where w: "ApplyTx t work = Ret (err, w)" "small w" using ApplyTx_small[OF Cons.prems(2)] by metis
  have "set hs \<subseteq> set order" using Cons.prems(1) by simp
  note IH = Cons.IH[OF this]
  show ?case
  proof (cases "h \<notin> conf \<and> tx_Verify ed t = None \<and> err = None")
    case True
    then have "pool_ok ed (AList.update h t newTx)" using pool_ok_update[OF Cons.prems(3) t(2)] t(3) by simp
    with True t(1) w IH show ?thesis by simp
  next
    case False
    with t(1) w IH Cons.prems show ?thesis by (cases "h \<in> conf"; cases "tx_Verify ed t = None") simp_all
  qed
qed simp

subsection \<open>The operations\<close>

lemma revalidateMempool_ok:
  assumes "pool_inv E n" and "small (n_state n)"
  shows "\<exists>mp ord w. revalidateMempool n = Ret (n\<lparr>n_mempoolTx := mp, n_mempoolOrder := ord, n_pending := Some w, n_pendingDirty := False\<rparr>)
     \<and> pool_ok (en_ed E) mp \<and> small w"
proof -
  obtain kt ko w where "revalidate_loop (n_mempoolTx n) (n_mempoolOrder n) (n_state n) [] [] = Ret (kt, ko, w)"
    "pool_ok (en_ed E) kt" "small w"
    using revalidate_loop_ok[of "en_ed E" "n_mempoolTx n" "n_state n" "[]" "n_mempoolOrder n" "[]"] assms
    by (auto simp: pool_inv_def)
  then show ?thesis
    by (intro exI[of _ kt] exI[of _ ko] exI[of _ w]) (simp add: revalidateMempool_def)
qed

text \<open>Which fields the mempool operations may change.\<close>

definition same_chain :: "node \<Rightarrow> node \<Rightarrow> bool" where
  "same_chain n n' \<longleftrightarrow> n_blocks n' = n_blocks n \<and> n_tip n' = n_tip n \<and> n_state n' = n_state n
     \<and> n_checkpoints n' = n_checkpoints n \<and> n_rejected n' = n_rejected n \<and> n_orphans n' = n_orphans n
     \<and> n_chainHeights n' = n_chainHeights n \<and> n_booting n' = n_booting n \<and> n_disk n' = n_disk n"

lemma same_chain_refl [simp]: "same_chain n n"
  by (simp add: same_chain_def)

lemma same_chain_trans: "same_chain n n1 \<Longrightarrow> same_chain n1 n2 \<Longrightarrow> same_chain n n2"
  by (simp add: same_chain_def)

lemma dropConfirmed_ok:
  assumes "pool_inv E n" and "small (n_state n)" and "no_nil (e_block e)"
  shows "\<exists>n'. dropConfirmed e n = Ret n' \<and> pool_inv E n' \<and> same_chain n n'"
proof -
  from assms(3) obtain ts where ts: "Txs (e_block e) = map Some ts" by (auto simp: no_nil_iff)
  obtain mp d where d: "drop_loop (map Some ts) (n_mempoolTx n) False = Ret (mp, d)" "pool_ok (en_ed E) mp"
    using drop_loop_ok[of "en_ed E" "n_mempoolTx n" ts False] assms(1) by (auto simp: pool_inv_def)
  let ?n = "n\<lparr>n_mempoolTx := mp\<rparr>"
  have "pool_inv E ?n" "small (n_state ?n)" using assms d by (simp_all add: pool_inv_def)
  from revalidateMempool_ok[OF this] obtain mp' ord w where
    "revalidateMempool ?n = Ret (?n\<lparr>n_mempoolTx := mp', n_mempoolOrder := ord, n_pending := Some w, n_pendingDirty := False\<rparr>)"
    "pool_ok (en_ed E) mp'" "small w" by blast
  with d ts assms(1) show ?thesis by (auto simp: dropConfirmed_def Let_def pool_inv_def same_chain_def)
qed

lemma rebuildMempool_ok:
  assumes "pool_inv E n" and "small (n_state n)" and "list_all (\<lambda>q. q \<noteq> None) rb" and "\<forall>e \<in> set path. no_nil (e_block e)"
  shows "\<exists>n'. rebuildMempool E rb path n = Ret n' \<and> pool_inv E n' \<and> same_chain n n'"
proof -
  have rb: "rb = map Some (map the rb)" using assms(3) by (induction rb) auto
  have "concat (map (\<lambda>e. Txs (e_block e)) path) = map Some (concat (map (\<lambda>e. map the (Txs (e_block e))) path))"
    using assms(4) by (induction path) (auto simp: no_nil_iff)
  then obtain cs where cs: "tx_hashes (concat (map (\<lambda>e. Txs (e_block e)) path)) = Ret cs" using tx_hashes_ok by metis
  define co where "co = fold add_cand (map the rb) (add_pool (n_mempoolTx n) (n_mempoolOrder n) ([], []))"
  obtain cands order where co2: "co = (cands, order)" by fastforce
  have ok: "cands_ok (cands, order)" using fold_add_cand_ok add_pool_ok cands_ok_Nil co2 co_def by metis
  let ?order = "sort_key (\<lambda>h. sint (tx_Time (the (map_of cands h)))) order"
  obtain nt no w where r: "rebuild_loop (en_ed E) cands (set cs) ?order (n_state n) [] [] = Ret (nt, no, w)"
    "pool_ok (en_ed E) nt" "small w"
    using rebuild_loop_ok[OF ok, of ?order "n_state n" "en_ed E" "[]" "set cs" "[]"] assms(2) by auto
  have "deref_all rb = Ret (map the rb)" by (subst rb) (rule deref_all_map_Some)
  then have "rebuildMempool E rb path n = Ret (n\<lparr>n_mempoolTx := nt, n_mempoolOrder := no, n_pending := Some w, n_pendingDirty := False\<rparr>)"
    using cs r(1) co2 by (simp add: rebuildMempool_def Let_def co_def)
  with r show ?thesis by (simp add: pool_inv_def same_chain_def)
qed

lemma pendingState_ok:
  assumes "pool_inv E n" and "small (n_state n)"
  shows "\<exists>ps n'. pendingState n = Ret (ps, n') \<and> small ps \<and> n' = n\<lparr>n_pending := Some ps, n_pendingDirty := False\<rparr>"
proof (cases "n_pending n \<noteq> None \<and> \<not> n_pendingDirty n")
  case True
  then obtain p where "n_pending n = Some p" "\<not> n_pendingDirty n" by auto
  moreover from this have "n = n\<lparr>n_pending := Some p, n_pendingDirty := False\<rparr>" by simp
  ultimately show ?thesis using assms by (auto simp: pendingState_def pool_inv_def)
next
  case False
  obtain w where "pending_loop (n_mempoolTx n) (n_mempoolOrder n) (n_state n) = Ret w" "small w"
    using pending_loop_ok[OF assms(2)] by blast
  with False show ?thesis by (auto simp: pendingState_def split: option.split)
qed

lemma AddTx_ok:
  assumes "pool_inv E n" and "small (n_state n)"
  shows "\<exists>err n'. AddTx E t ex n = Ret (err, n') \<and> pool_inv E n' \<and> same_chain n n'"
proof (cases "tx_Hash t \<in> set (n_seenTx n)")
  case True
  then show ?thesis using assms by (simp add: AddTx_def)
next
  case False
  from pendingState_ok[OF assms] obtain ps where ps: "pendingState n = Ret (ps, n\<lparr>n_pending := Some ps, n_pendingDirty := False\<rparr>)"
    "small ps" by blast
  obtain verr ps1 where v: "ValidateTx (en_ed E) t ps = (verr, ps1)" by fastforce
  note v' = ValidateTx_small[OF ps(2) v]
  show ?thesis
  proof (cases verr)
    case (Some x)
    with False ps v v' assms show ?thesis by (simp add: AddTx_def pool_inv_def same_chain_def)
  next
    case None
    obtain err ps2 where a: "ApplyTx t ps1 = Ret (err, ps2)" "small ps2" using ApplyTx_small[OF v'(1)] by metis
    show ?thesis
    proof (cases err)
      case (Some x)
      with False ps v None a assms show ?thesis by (simp add: AddTx_def pool_inv_def same_chain_def)
    next
      case ok: None
      have "tx_Verify (en_ed E) t = None" using v None by (auto simp: ValidateTx_def split: option.splits)
      moreover have "\<not> IsCoinbase t" using a ok by (auto simp: ApplyTx_def)
      ultimately have "pool_ok (en_ed E) (AList.update (tx_Hash t) t (n_mempoolTx n))"
        using assms(1) pool_ok_update by (simp add: pool_inv_def)
      with False ps v None a ok assms show ?thesis
        by (simp add: AddTx_def pool_inv_def same_chain_def Let_def markSeenTx_def emit_def)
    qed
  qed
qed

end
