(* ===== verification/NodeInv.thy ===== *)
theory NodeInv
  imports TreeChange PoolInv
begin

text \<open>
  The invariant of a node: its tree is well formed, nothing rejected is in it, its state is the
  replay of the branch of its tip and every checkpoint the replay of the branch of its block.
  This theory shows that replaying a branch, from the genesis block or from a checkpoint, computes
  that replay, and that both outcomes keep the invariant.
\<close>

definition params_ok :: "params \<Rightarrow> bool" where
  "params_ok p \<longleftrightarrow> HalvingInterval p \<noteq> 0 \<and> 2 * unat (HalvingInterval p) * unat (InitialReward p) < 2 ^ 64"

subsection \<open>The state at an entry\<close>

definition branch_replay :: "env \<Rightarrow> tree \<Rightarrow> blockEntry \<Rightarrow> (block_state_error option \<times> state) run" where
  "branch_replay E B e = replay (en_ed E) (en_params E) (map e_block (branch B e)) state_New"

definition valid_at :: "env \<Rightarrow> tree \<Rightarrow> blockEntry \<Rightarrow> state \<Rightarrow> bool" where
  "valid_at E B e s \<longleftrightarrow> branch_replay E B e = Ret (None, s)"

lemma rewards_append [simp]: "rewards p (bs @ cs) = rewards p bs + rewards p cs"
  by (simp add: rewards_def)

lemma total_supply_New [simp]: "total_supply state_New = 0"
  by (simp add: state_New_def)

text \<open>Any initial part of a branch replays without a panic, leaving room for the rewards to come.\<close>

lemma replay_part:
  assumes "params_ok (en_params E)" and "tree_inv E B" and "map_of B h = Some e" and "branch B e = pre @ post"
  shows "\<exists>err s. replay (en_ed E) (en_params E) (map e_block pre) state_New = Ret (err, s) \<and> keys_ok s
     \<and> (err = None \<longrightarrow> total_supply s = rewards (en_params E) (map e_block pre)
          \<and> total_supply s + rewards (en_params E) (map e_block post) < 2 ^ 64)"
proof -
  let ?p = "en_params E"
  have "rewards ?p (map e_block (branch B e)) < 2 ^ 64"
    using rewards_cap[OF branch_ascending[OF assms(2,3)], of ?p] assms(1) by (simp add: params_ok_def)
  then have r: "rewards ?p (map e_block pre) + rewards ?p (map e_block post) < 2 ^ 64"
    by (simp add: assms(4))
  have "list_all no_nil (map e_block pre)"
    using branch_no_nil[OF assms(2,3)] by (auto simp: list_all_iff assms(4))
  moreover have "keys_ok state_New" by (simp add: state_New_def)
  moreover have "HalvingInterval ?p \<noteq> 0" using assms(1) by (simp add: params_ok_def)
  ultimately obtain err s where "replay (en_ed E) ?p (map e_block pre) state_New = Ret (err, s)" "keys_ok s"
    "err = None \<longrightarrow> total_supply s = total_supply state_New + rewards ?p (map e_block pre)"
    using replay_returns[of state_New ?p "map e_block pre" "en_ed E"] r by auto
  with r show ?thesis by auto
qed

lemma valid_at_supply:
  assumes "params_ok (en_params E)" and "tree_inv E B" and "map_of B h = Some e" and "valid_at E B e s"
  shows "total_supply s = rewards (en_params E) (map e_block (branch B e))" and "small s"
proof -
  from replay_part[OF assms(1-3), of "branch B e" "[]"] assms(4)
  show "total_supply s = rewards (en_params E) (map e_block (branch B e))" and "small s"
    by (simp_all add: valid_at_def branch_replay_def small_def)
qed

lemma replay_snoc:
  "replay ed p (bs @ [b]) s = run_bind (replay ed p bs s) (\<lambda>(err, s).
     if err \<noteq> None then Ret (err, s) else if Height b = 0 then Ret (None, s)
     else ApplyBlock ed p b s)"
proof -
  have "run_bind (ApplyBlock ed p b s) (\<lambda>(e, s). if e = None then Ret (None, s) else Ret (e, s)) = ApplyBlock ed p b s" for s
    by (cases "ApplyBlock ed p b s") auto
  moreover have "replay ed p [b] s = (if Height b = 0 then Ret (None, s) else
      run_bind (ApplyBlock ed p b s) (\<lambda>(e, s). if e = None then Ret (None, s) else Ret (e, s)))" for s
    by (simp cong: if_cong prod.case_cong)
  ultimately show ?thesis unfolding replay_append
    by (cases "replay ed p bs s") (auto split: prod.split)
qed

lemma valid_prefix:
  assumes "tree_inv E B" and "map_of B h = Some e" and "valid_at E B e s" and "x \<in> set (branch B e)"
  shows "\<exists>s'. valid_at E B x s'"
proof -
  from branch_split[OF assms(1,2,4)] obtain post where "branch B e = branch B x @ post" by blast
  with assms(3) have "run_bind (branch_replay E B x) (\<lambda>(err, s). if err = None
      then replay (en_ed E) (en_params E) (map e_block post) s else Ret (err, s)) = Ret (None, s)"
    by (simp add: valid_at_def branch_replay_def replay_append)
  then show ?thesis by (auto simp: valid_at_def run_bind_eq_Ret split: if_splits)
qed

lemma valid_at_unique: "valid_at E B e s \<Longrightarrow> valid_at E B e s' \<Longrightarrow> s = s'"
  by (simp add: valid_at_def)

lemma valid_at_agree:
  assumes "tree_inv E B" and "map_of B \<subseteq>\<^sub>m map_of B'" and "map_of B' 0 = None" and "map_of B h = Some e"
  shows "valid_at E B' e s \<longleftrightarrow> valid_at E B e s"
  by (simp add: valid_at_def branch_replay_def branch_agree[OF assms])

subsection \<open>The invariant\<close>

definition checkpoints_ok :: "env \<Rightarrow> tree \<Rightarrow> (hash \<Rightarrow> state option) \<Rightarrow> bool" where
  "checkpoints_ok E B cps \<longleftrightarrow> (\<forall>h s. cps h = Some s \<longrightarrow> (\<exists>e. map_of B h = Some e \<and> valid_at E B e s
     \<and> Height (e_block e) mod checkpointInterval = 0))"

definition tip_ok :: "env \<Rightarrow> node \<Rightarrow> bool" where
  "tip_ok E n \<longleftrightarrow> (case n_tip n of None \<Rightarrow> n_state n = state_New
     | Some t \<Rightarrow> map_of (n_blocks n) (e_hash t) = Some t \<and> valid_at E (n_blocks n) t (n_state n)
         \<and> n_chainHeights n = index_heights (branch (n_blocks n) t) (\<lambda>_. None))"

text \<open>
  The blocks the analysis covers: no nil transaction (reading one panics, before any other check)
  and not the all-zero hash.
\<close>

definition wire_ok :: "block \<Rightarrow> bool" where
  "wire_ok b \<longleftrightarrow> block_Hash b \<noteq> 0 \<and> no_nil b"

definition orphans_ok :: "node \<Rightarrow> bool" where
  "orphans_ok n \<longleftrightarrow> keys_ok (n_orphans n) \<and> (\<forall>k l. map_of (n_orphans n) k = Some l \<longrightarrow> (\<forall>b \<in> set l. wire_ok b))"

definition node_inv :: "env \<Rightarrow> node \<Rightarrow> bool" where
  "node_inv E n \<longleftrightarrow> tree_inv E (n_blocks n) \<and> checkpoints_ok E (n_blocks n) (n_checkpoints n)
     \<and> (\<forall>h \<in> n_rejected n. map_of (n_blocks n) h = None) \<and> tip_ok E n \<and> orphans_ok n \<and> pool_inv E n"

lemma node_invD:
  assumes "node_inv E n"
  shows "tree_inv E (n_blocks n)" and "checkpoints_ok E (n_blocks n) (n_checkpoints n)"
    and "h \<in> n_rejected n \<Longrightarrow> map_of (n_blocks n) h = None" and "tip_ok E n" and "orphans_ok n" and "pool_inv E n"
  using assms by (auto simp: node_inv_def)

lemma node_state_small:
  assumes "params_ok (en_params E)" and "node_inv E n"
  shows "small (n_state n)"
proof (cases "n_tip n")
  case None
  then show ?thesis using node_invD(4)[OF assms(2)] by (simp add: tip_ok_def)
next
  case (Some t)
  then show ?thesis
    using node_invD(4)[OF assms(2)] valid_at_supply(2)[OF assms(1) node_invD(1)[OF assms(2)]]
    by (auto simp: tip_ok_def)
qed

lemma same_chain_inv:
  assumes "node_inv E n" and "same_chain n n'" and "pool_inv E n'"
  shows "node_inv E n'"
  using assms by (cases "n_tip n") (simp_all add: node_inv_def same_chain_def tip_ok_def orphans_ok_def)

text \<open>Entries leave the tree only by being rejected.\<close>

definition shrinks :: "node \<Rightarrow> node \<Rightarrow> bool" where
  "shrinks n n' \<longleftrightarrow> map_of (n_blocks n') \<subseteq>\<^sub>m map_of (n_blocks n) \<and> n_rejected n \<subseteq> n_rejected n'
     \<and> dom (map_of (n_blocks n)) \<subseteq> dom (map_of (n_blocks n')) \<union> n_rejected n'"

lemma shrinks_refl: "n_blocks n' = n_blocks n \<Longrightarrow> n_rejected n' = n_rejected n \<Longrightarrow> shrinks n n'"
  by (simp add: shrinks_def)

lemma shrinks_trans:
  assumes "shrinks n n1" and "shrinks n1 n2"
  shows "shrinks n n2"
proof -
  have "map_of (n_blocks n2) \<subseteq>\<^sub>m map_of (n_blocks n)" using assms map_le_trans unfolding shrinks_def by blast
  moreover have "n_rejected n \<subseteq> n_rejected n2" using assms unfolding shrinks_def by blast
  moreover have "dom (map_of (n_blocks n)) \<subseteq> dom (map_of (n_blocks n2)) \<union> n_rejected n2"
    using assms unfolding shrinks_def by blast
  ultimately show ?thesis by (simp only: shrinks_def)
qed

text \<open>The fields a change of the tip leaves alone.\<close>

definition frame :: "node \<Rightarrow> node \<Rightarrow> bool" where
  "frame n n' \<longleftrightarrow> n_orphans n' = n_orphans n \<and> n_booting n' = n_booting n \<and> n_disk n' = n_disk n \<and> shrinks n n'"

lemma frame_refl [simp]: "frame n n"
  by (simp add: frame_def shrinks_refl)

lemma frame_trans: "frame n n1 \<Longrightarrow> frame n1 n2 \<Longrightarrow> frame n n2"
  by (auto simp: frame_def intro: shrinks_trans)

lemma same_chain_frame: "same_chain n n' \<Longrightarrow> frame n n'"
  by (simp add: same_chain_def frame_def shrinks_refl)

subsection \<open>Rejecting an invalid block\<close>

lemma reject_invalid:
  assumes inv: "node_inv E n" and x: "map_of (n_blocks n) (e_hash x) = Some x"
    and bad: "\<not> (\<exists>s. valid_at E (n_blocks n) x s)"
  shows "\<exists>n'. rejectSubtree x n = Ret n' \<and> node_inv E n' \<and> frame n n' \<and> n_tip n' = n_tip n \<and> n_rejected n' \<noteq> {}"
proof -
  let ?B = "n_blocks n"
  note tree = node_invD(1)[OF inv]
  from rejectSubtree_result[OF tree x] obtain D n' where
    r: "rejectSubtree x n = Ret n'" and rem: "removed D n n'" and xD: "e_hash x \<in> D" and D: "\<forall>h \<in> D. descends ?B (e_hash x) h"
    by (auto simp: reject_result_def)
  have n': "n' = n\<lparr>n_rejected := n_rejected n \<union> D, n_blocks := drop_keys D ?B\<rparr>" using rem by (simp add: removed_def)
  have keep: "h \<notin> D" if "map_of ?B h = Some e" and "valid_at E ?B e s" for h e s
  proof
    assume "h \<in> D"
    then have "x \<in> set (branch ?B e)" using descends_branch[OF tree x] D that(1) by blast
    from valid_prefix[OF tree that this] bad show False by blast
  qed
  obtain g where g: "map_of ?B (genesisHash E) = Some g" using tree by (auto simp: tree_inv_def)
  have gen: "genesisHash E \<notin> D"
  proof
    assume "genesisHash E \<in> D"
    then have xg: "x \<in> set (branch ?B g)" using descends_branch[OF tree x] D g by blast
    obtain g' where "map_of ?B (genesisHash E) = Some g'" "Height (e_block g') = 0"
      using branch_genesis_first[OF tree g] by blast
    with g have "Height (e_block g) = 0" by simp
    with xg have "x = g" "Height (e_block x) = 0" by (simp_all add: branch_genesis)
    then have "valid_at E ?B x state_New" by (simp add: valid_at_def branch_replay_def branch_genesis)
    with bad show False by blast
  qed
  have tree': "tree_inv E (n_blocks n')" by (rule tree_removed[OF tree rem gen])
  have le: "map_of (n_blocks n') \<subseteq>\<^sub>m map_of ?B" by (rule removed_le[OF rem])
  have zero: "map_of ?B 0 = None" using tree by (simp add: tree_inv_def)
  have valid': "map_of (n_blocks n') h = Some e \<and> valid_at E (n_blocks n') e s \<and> branch (n_blocks n') e = branch ?B e"
    if "map_of ?B h = Some e" and "valid_at E ?B e s" for h e s
  proof -
    have "map_of (n_blocks n') h = Some e" using keep[OF that] that(1) by (simp add: n')
    with valid_at_agree[OF tree' le zero this] branch_agree[OF tree' le zero this] that(2) show ?thesis by simp
  qed
  have "checkpoints_ok E (n_blocks n') (n_checkpoints n')"
  proof -
    have "n_checkpoints n' = n_checkpoints n" by (simp add: n')
    with node_invD(2)[OF inv] valid' show ?thesis unfolding checkpoints_ok_def by metis
  qed
  moreover have "tip_ok E n'"
  proof (cases "n_tip n")
    case None
    then show ?thesis using node_invD(4)[OF inv] by (simp add: tip_ok_def n')
  next
    case (Some t)
    then have "map_of ?B (e_hash t) = Some t" "valid_at E ?B t (n_state n)"
      "n_chainHeights n = index_heights (branch ?B t) (\<lambda>_. None)"
      using node_invD(4)[OF inv] by (simp_all add: tip_ok_def)
    with valid'[of "e_hash t" t] Some show ?thesis by (simp add: tip_ok_def n')
  qed
  moreover have "\<forall>h \<in> n_rejected n'. map_of (n_blocks n') h = None"
    using node_invD(3)[OF inv] by (auto simp: n')
  moreover have "orphans_ok n'" "pool_inv E n'"
    using node_invD(5,6)[OF inv] by (simp_all add: n' orphans_ok_def pool_inv_def)
  ultimately have "node_inv E n'" using tree' by (simp add: node_inv_def)
  moreover have "frame n n'" using le by (auto simp: n' frame_def shrinks_def dom_def)
  ultimately show ?thesis using r xD by (auto simp: n')
qed

end
