(* ===== verification/SwitchInv.thy ===== *)
theory SwitchInv
  imports NodeInv
begin

text \<open>
  Fork choice keeps the node's invariant: replaying a branch from its last checkpoint computes the
  state a replay from the genesis block computes, a switch installs it or removes the block that
  does not apply, and no switch panics.
\<close>

subsection \<open>Replaying the rest of a branch\<close>

lemma branch_replay_snoc:
  assumes "branch B e = pre @ [e]"
  shows "branch_replay E B e = run_bind (replay (en_ed E) (en_params E) (map e_block pre) state_New)
     (\<lambda>(err, s). if err \<noteq> None then Ret (err, s) else if Height (e_block e) = 0 then Ret (None, s)
        else ApplyBlock (en_ed E) (en_params E) (e_block e) s)"
  by (simp add: branch_replay_def assms replay_snoc)

lemma checkpoint_added:
  assumes "node_inv E n" and "map_of (n_blocks n) (e_hash e) = Some e" and "valid_at E (n_blocks n) e s"
    and "Height (e_block e) mod checkpointInterval = 0"
  shows "node_inv E (n\<lparr>n_checkpoints := (n_checkpoints n)(e_hash e \<mapsto> s)\<rparr>)"
proof -
  have "checkpoints_ok E (n_blocks n) ((n_checkpoints n)(e_hash e \<mapsto> s))"
    using node_invD(2)[OF assms(1)] assms(2-4) by (auto simp: checkpoints_ok_def)
  with assms(1) show ?thesis
    by (cases "n_tip n") (simp_all add: node_inv_def tip_ok_def orphans_ok_def pool_inv_def)
qed

lemma checkpoint_valid:
  assumes "checkpoints_ok E B cps" and "cps h = Some s" and "map_of B h = Some e"
  shows "valid_at E B e s" and "Height (e_block e) mod checkpointInterval = 0"
  using assms unfolding checkpoints_ok_def by (metis option.inject)+

text \<open>The node with other checkpoints.\<close>

definition only_checkpoints :: "node \<Rightarrow> node \<Rightarrow> bool" where
  "only_checkpoints n n' \<longleftrightarrow> (\<exists>cps. n' = n\<lparr>n_checkpoints := cps\<rparr>)"

lemma only_checkpointsD:
  assumes "only_checkpoints n n'"
  shows "n_blocks n' = n_blocks n" and "n_tip n' = n_tip n" and "frame n n'" and "n_rejected n' = n_rejected n"
  using assms by (auto simp: only_checkpoints_def frame_def shrinks_refl)

definition replay_result :: "env \<Rightarrow> blockEntry \<Rightarrow> node \<Rightarrow> (switch_error option \<times> state \<times> node) run \<Rightarrow> bool" where
  "replay_result E e n r \<longleftrightarrow> (\<exists>err s n'. r = Ret (err, s, n') \<and> node_inv E n' \<and> frame n n' \<and> n_tip n' = n_tip n
     \<and> (err = None \<longrightarrow> only_checkpoints n n' \<and> valid_at E (n_blocks n) e s) \<and> (err \<noteq> None \<longrightarrow> n_rejected n' \<noteq> {} \<and> \<not> (\<exists>s. valid_at E (n_blocks n) e s)))"

lemma replay_result_checkpoints:
  assumes "only_checkpoints n n1" and "replay_result E e n1 r"
  shows "replay_result E e n r"
proof -
  from assms(2) obtain err s n' where r: "r = Ret (err, s, n')" "node_inv E n'" "frame n1 n'" "n_tip n' = n_tip n1"
    "err = None \<longrightarrow> only_checkpoints n1 n' \<and> valid_at E (n_blocks n1) e s" "err \<noteq> None \<longrightarrow> n_rejected n' \<noteq> {} \<and> \<not> (\<exists>s. valid_at E (n_blocks n1) e s)" unfolding replay_result_def by blast
  note eqs = only_checkpointsD[OF assms(1)]
  have "only_checkpoints n1 n' \<Longrightarrow> only_checkpoints n n'"
    using assms(1) by (auto simp: only_checkpoints_def)
  with r eqs frame_trans[OF eqs(3) r(3)] show ?thesis unfolding replay_result_def by auto
qed

lemma replayLocked_result:
  assumes ok: "params_ok (en_params E)"
    and "node_inv E n" and "map_of (n_blocks n) h = Some e" and "branch (n_blocks n) e = pre @ path"
    and "replay (en_ed E) (en_params E) (map e_block pre) state_New = Ret (None, fresh)"
  shows "replay_result E e n (replayLocked E path fresh n)"
  using assms(2-5)
proof (induction path arbitrary: pre fresh n)
  case Nil
  then show ?case
    by (auto simp: replay_result_def only_checkpoints_def valid_at_def branch_replay_def intro: exI[of _ "n_checkpoints n"])
next
  case (Cons x path)
  let ?B = "n_blocks n"
  note tree = node_invD(1)[OF Cons.prems(1)]
  have pre: "branch ?B x = pre @ [x]" by (rule branch_prefix[OF tree Cons.prems(2,3)])
  have mx: "map_of ?B (e_hash x) = Some x"
    using branch_subset[OF tree Cons.prems(2), of x] Cons.prems(3) by simp
  have split: "branch ?B e = (pre @ [x]) @ path" using Cons.prems(3) by simp
  show ?case
  proof (cases "Height (e_block x) = 0")
    case True
    then have "replay (en_ed E) (en_params E) (map e_block (pre @ [x])) state_New = Ret (None, fresh)"
      using Cons.prems(4) by (simp add: replay_append)
    from Cons.IH[OF Cons.prems(1,2) split this] True show ?thesis by simp
  next
    case False
    obtain err s where bs: "branch_replay E ?B x = Ret (err, s)"
      using replay_part[OF ok tree mx, of "branch ?B x" "[]"] by (auto simp: branch_replay_def)
    then have ab: "ApplyBlock (en_ed E) (en_params E) (e_block x) fresh = Ret (err, s)"
      using branch_replay_snoc[OF pre, of E] Cons.prems(4) False by simp
    show ?thesis
    proof (cases err)
      case (Some err')
      then have "\<not> (\<exists>s. valid_at E ?B x s)" using bs by (simp add: valid_at_def)
      moreover have "x \<in> set (branch ?B e)" by (simp add: split)
      ultimately have "\<not> (\<exists>s. valid_at E ?B e s)" using valid_prefix[OF tree Cons.prems(2)] by blast
      moreover from reject_invalid[OF Cons.prems(1) mx \<open>\<not> (\<exists>s. valid_at E ?B x s)\<close>] obtain n' where
        "rejectSubtree x n = Ret n'" "node_inv E n'" "frame n n'" "n_tip n' = n_tip n" "n_rejected n' \<noteq> {}" by blast
      ultimately show ?thesis using False ab Some by (simp add: replay_result_def)
    next
      case None
      define n1 where "n1 = (if Height (e_block x) mod checkpointInterval = 0
        then n\<lparr>n_checkpoints := (n_checkpoints n)(e_hash x \<mapsto> Clone s)\<rparr> else n)"
      have vx: "valid_at E ?B x s" using bs None by (simp add: valid_at_def)
      have inv1: "node_inv E n1" using checkpoint_added[OF Cons.prems(1) mx vx] Cons.prems(1) by (simp add: n1_def)
      have oc: "only_checkpoints n n1" unfolding n1_def only_checkpoints_def
        by (cases "Height (e_block x) mod checkpointInterval = 0") (auto intro: exI[of _ "n_checkpoints n"])
      note eqs = only_checkpointsD[OF oc]
      have "replay (en_ed E) (en_params E) (map e_block (pre @ [x])) state_New = Ret (None, s)"
        using bs None pre by (simp add: branch_replay_def)
      from Cons.IH[OF inv1 _ _ this, unfolded eqs, OF Cons.prems(2) split]
      have "replay_result E e n1 (replayLocked E path s n1)" .
      then have "replay_result E e n (replayLocked E path s n1)"
        by (rule replay_result_checkpoints[OF oc])
      moreover have "replayLocked E (x # path) fresh n = replayLocked E path s n1"
        using False ab None by (simp add: n1_def Let_def)
      ultimately show ?thesis by simp
    qed
  qed
qed

subsection \<open>Starting at the last checkpoint\<close>

lemma last_checkpoint_split:
  "last_checkpoint cps path best = Some e \<Longrightarrow>
     (best = Some e \<and> (\<forall>x \<in> set path. cps (e_hash x) = None))
     \<or> (\<exists>pre post. path = pre @ e # post \<and> cps (e_hash e) \<noteq> None \<and> (\<forall>x \<in> set post. cps (e_hash x) = None))"
proof (induction path arbitrary: best)
  case (Cons y path)
  show ?case
  proof (cases "cps (e_hash y) = None")
    case True
    then have "last_checkpoint cps path best = Some e" using Cons.prems by simp
    from Cons.IH[OF this] show ?thesis
    proof
      assume "\<exists>pre post. path = pre @ e # post \<and> cps (e_hash e) \<noteq> None \<and> (\<forall>x \<in> set post. cps (e_hash x) = None)"
      then obtain pre post where "y # path = (y # pre) @ e # post" "cps (e_hash e) \<noteq> None" "\<forall>x \<in> set post. cps (e_hash x) = None"
        by auto
      then show ?thesis by blast
    qed (use True in simp)
  next
    case False
    then have "last_checkpoint cps path (Some y) = Some e" using Cons.prems by simp
    from Cons.IH[OF this] show ?thesis
    proof
      assume "\<exists>pre post. path = pre @ e # post \<and> cps (e_hash e) \<noteq> None \<and> (\<forall>x \<in> set post. cps (e_hash x) = None)"
      then obtain pre post where "y # path = (y # pre) @ e # post" "cps (e_hash e) \<noteq> None" "\<forall>x \<in> set post. cps (e_hash x) = None"
        by auto
      then show ?thesis by blast
    next
      assume "Some y = Some e \<and> (\<forall>x \<in> set path. cps (e_hash x) = None)"
      with False have "y # path = [] @ e # path" "cps (e_hash e) \<noteq> None" "\<forall>x \<in> set path. cps (e_hash x) = None" by auto
      then show ?thesis by blast
    qed
  qed
qed simp

lemma last_checkpoint_None:
  "last_checkpoint cps path best = None \<longleftrightarrow> best = None \<and> (\<forall>x \<in> set path. cps (e_hash x) = None)"
  by (induction path arbitrary: best) auto

lemma start_height_append: "start_height cps (p @ q) st = start_height cps q (start_height cps p st)"
  by (induction p arbitrary: st) simp_all

lemma start_height_none: "\<forall>x \<in> set p. cps (e_hash x) = None \<Longrightarrow> start_height cps p st = st"
  by (induction p) simp_all

text \<open>
  What the switch replays: the part of the branch above the last checkpoint. A checkpointed height
  is a multiple of the interval, so the height after it does not wrap.
\<close>

lemma tail_after_checkpoint:
  assumes tree: "tree_inv E B" and e: "map_of B h = Some e" and split: "branch B e = pre @ x # post"
    and mult: "Height (e_block x) mod checkpointInterval = 0"
  shows "tailAfter (branch B e) (Height (e_block x) + 1) = post"
proof -
  let ?H = "\<lambda>x. unat (Height (e_block x))"
  have hs: "map ?H pre @ ?H x # map ?H post = [0..<Suc (?H e)]"
    using branch_heights[OF tree e] by (simp add: split)
  have "sorted_wrt (<) (map ?H pre @ ?H x # map ?H post)" unfolding hs by (rule sorted_wrt_upt)
  then have lt: "\<forall>y \<in> set pre. ?H y < ?H x" "\<forall>y \<in> set post. ?H x < ?H y"
    by (auto simp: sorted_wrt_append)
  have "?H x \<noteq> 2 ^ 64 - 1"
  proof
    assume "?H x = 2 ^ 64 - 1"
    moreover have "?H x mod 100 = 0"
      using mult by (simp add: checkpointInterval_def unat_mod word_arith_nat_mod[symmetric] word_unat_eq_iff)
    ultimately show False by simp
  qed
  then have suc: "unat (Height (e_block x) + 1) = Suc (?H x)"
    using unat_u64_less[of "Height (e_block x)"] by (simp add: unat_word_ariths)
  have "tailAfter (pre @ x # post) (Height (e_block x) + 1) = post"
  proof -
    have "filter (\<lambda>y. Suc (?H x) \<le> ?H y) pre = []" using lt(1) by (auto simp: filter_empty_conv)
    moreover have "filter (\<lambda>y. Suc (?H x) \<le> ?H y) post = post" using lt(2) by (simp add: filter_id_conv Suc_le_eq)
    ultimately show ?thesis by (simp add: tailAfter_def word_le_nat_alt suc)
  qed
  then show ?thesis by (simp add: split)
qed

lemma base_and_tail:
  assumes inv: "node_inv E n" and e: "map_of (n_blocks n) h = Some e"
  shows "\<exists>pre post s. branch (n_blocks n) e = pre @ post \<and> baseState (branch (n_blocks n) e) n = Ret s
     \<and> tailAfter (branch (n_blocks n) e) (start_height (n_checkpoints n) (branch (n_blocks n) e) 0) = post
     \<and> replay (en_ed E) (en_params E) (map e_block pre) state_New = Ret (None, s)"
proof -
  let ?br = "branch (n_blocks n) e" and ?cps = "n_checkpoints n"
  note tree = node_invD(1)[OF inv]
  show ?thesis
  proof (cases "last_checkpoint ?cps ?br None")
    case None
    then have "\<forall>x \<in> set ?br. ?cps (e_hash x) = None" by (simp add: last_checkpoint_None)
    then have "start_height ?cps ?br 0 = 0" by (rule start_height_none)
    then have "tailAfter ?br (start_height ?cps ?br 0) = ?br" by (simp add: tailAfter_def)
    moreover have "baseState ?br n = Ret state_New" using None by (simp add: baseState_def)
    ultimately show ?thesis by (intro exI[of _ "[]"] exI[of _ ?br] exI[of _ state_New]) simp
  next
    case (Some x)
    then obtain pre post where p: "?br = pre @ x # post" "?cps (e_hash x) \<noteq> None" "\<forall>y \<in> set post. ?cps (e_hash y) = None"
      using last_checkpoint_split[OF Some] by auto
    obtain s where s: "?cps (e_hash x) = Some s" using p(2) by auto
    have mx: "map_of (n_blocks n) (e_hash x) = Some x" using branch_subset[OF tree e, of x] p(1) by simp
    have v: "valid_at E (n_blocks n) x s" and m: "Height (e_block x) mod checkpointInterval = 0"
      using checkpoint_valid[OF node_invD(2)[OF inv] s mx] by simp_all
    have "start_height ?cps ?br 0 = Height (e_block x) + 1"
      using p by (simp add: start_height_append start_height_none)
    then have "tailAfter ?br (start_height ?cps ?br 0) = post"
      using tail_after_checkpoint[OF tree e p(1) m] by simp
    moreover have "baseState ?br n = Ret s" using Some s by (simp add: baseState_def)
    moreover have "replay (en_ed E) (en_params E) (map e_block (pre @ [x])) state_New = Ret (None, s)"
      using v branch_prefix[OF tree e p(1)] by (simp add: valid_at_def branch_replay_def)
    ultimately show ?thesis using p(1)
      by (intro exI[of _ "pre @ [x]"] exI[of _ post] exI[of _ s]) simp
  qed
qed

end
