(* ===== verification/SwitchSafe.thy ===== *)
theory SwitchSafe
  imports SwitchInv
begin

text \<open>
  The three ways to switch, and the selection of the tip: each returns, keeps the node's invariant,
  and either installs the new tip or leaves the old one in place.
\<close>

definition switch_result :: "env \<Rightarrow> blockEntry \<Rightarrow> node \<Rightarrow> (switch_error option \<times> node) run \<Rightarrow> bool" where
  "switch_result E best n r \<longleftrightarrow> (\<exists>err n'. r = Ret (err, n') \<and> node_inv E n' \<and> frame n n'
     \<and> n_tip n' = (if err = None then Some best else n_tip n) \<and> (if err = None then n_rejected n' = n_rejected n
          else n_rejected n' \<noteq> {} \<and> \<not> (\<exists>s. valid_at E (n_blocks n) best s)))"

lemma reverse_rev: "reverse xs = rev xs"
proof -
  have gen: "reverse_loop (a @ ys @ b) (length a) (length a + length ys - 1) = a @ rev ys @ b" for a ys b :: "'a list"
  proof (induction "length ys" arbitrary: a ys b rule: less_induct)
    case less
    show ?case
    proof (cases "length ys < 2")
      case True
      then have "rev ys = ys" by (cases ys; cases "tl ys") auto
      moreover have "\<not> length a < length a + length ys - 1" using True by auto
      ultimately show ?thesis by (subst reverse_loop.simps) simp
    next
      case False
      then obtain x zs y where ys: "ys = x # zs @ [y]"
        by (metis append_butlast_last_id length_0_conv length_Cons less_2_cases_iff list.exhaust One_nat_def)
      have i: "(a @ ys @ b) ! length a = x" and j: "(a @ ys @ b) ! (length a + length ys - 1) = y"
        by (simp_all add: ys nth_append)
      have upd: "(a @ ys @ b)[length a := y, length a + length ys - 1 := x] = (a @ [y]) @ zs @ ([x] @ b)"
        by (simp add: ys list_update_append)
      have "reverse_loop (a @ ys @ b) (length a) (length a + length ys - 1)
          = reverse_loop ((a @ [y]) @ zs @ ([x] @ b)) (length a + 1) (length a + length ys - 1 - 1)"
      proof -
        have "length a < length a + length ys - 1" using False by linarith
        then show ?thesis using i j upd by (subst reverse_loop.simps) simp
      qed
      also have "\<dots> = (a @ [y]) @ rev zs @ ([x] @ b)"
        using less[of zs "a @ [y]" "[x] @ b"] by (simp add: ys)
      finally show ?thesis by (simp add: ys)
    qed
  qed
  from gen[of "[]" xs "[]"] show ?thesis by (simp add: reverse_def)
qed

lemma publish_inv: "node_inv E n \<Longrightarrow> node_inv E (publish b n)"
  and publish_frame: "frame n (publish b n)" and publish_tip [simp]: "n_tip (publish b n) = n_tip n"
  by (cases "n_tip n"; simp add: publish_def node_inv_def tip_ok_def orphans_ok_def pool_inv_def frame_def shrinks_refl)+

subsection \<open>Installing a branch\<close>

lemma install_inv:
  assumes "node_inv E n" and "map_of (n_blocks n) (e_hash e) = Some e" and "valid_at E (n_blocks n) e s"
    and "\<forall>h t. cps h = Some t \<longrightarrow> n_checkpoints n h = Some t"
  shows "node_inv E (n\<lparr>n_chainHeights := index_heights (branch (n_blocks n) e) (\<lambda>_. None),
      n_checkpoints := cps, n_state := s, n_tip := Some e, n_pendingDirty := True\<rparr>)"
proof -
  have "checkpoints_ok E (n_blocks n) cps"
    using node_invD(2)[OF assms(1)] assms(4) unfolding checkpoints_ok_def by metis
  with assms(1-3) show ?thesis by (simp add: node_inv_def tip_ok_def orphans_ok_def pool_inv_def)
qed

lemma branch_last_nth: "branch B e ! (length (branch B e) - 1) = e"
  by (metis last_branch last_conv_nth branch_nonempty)

lemma commitChain_ok:
  assumes ok: "params_ok (en_params E)" and inv: "node_inv E n" and e: "map_of (n_blocks n) (e_hash e) = Some e"
    and v: "valid_at E (n_blocks n) e s" and rb: "list_all (\<lambda>q. q \<noteq> None) rb"
  shows "\<exists>n'. commitChain E s (branch (n_blocks n) e) rb n = Ret n' \<and> node_inv E n' \<and> frame n n' \<and> n_tip n' = Some e
     \<and> n_rejected n' = n_rejected n"
proof -
  let ?B = "n_blocks n"
  define n1 where "n1 = n\<lparr>n_chainHeights := index_heights (branch ?B e) (\<lambda>_. None),
      n_checkpoints := (\<lambda>h. if h \<in> set (map e_hash (branch ?B e)) then n_checkpoints n h else None),
      n_state := s, n_tip := Some e, n_pendingDirty := True\<rparr>"
  note tree = node_invD(1)[OF inv]
  have inv1: "node_inv E n1" unfolding n1_def using inv e v by (rule install_inv) (auto split: if_splits)
  have f: "frame n n1" "n_tip n1 = Some e" "n_blocks n1 = ?B" "n_rejected n1 = n_rejected n" by (simp_all add: n1_def frame_def shrinks_refl)
  have "\<forall>x \<in> set (rev (branch ?B e)). no_nil (e_block x)" using branch_no_nil[OF tree e] by simp
  from rebuildMempool_ok[OF node_invD(6)[OF inv1] node_state_small[OF ok inv1] rb this]
  obtain n' where n': "rebuildMempool E rb (rev (branch ?B e)) n1 = Ret n'" "pool_inv E n'" "same_chain n1 n'" by blast
  have "commitChain E s (branch ?B e) rb n = Ret n'"
    using pathToGenesis_eq[OF tree e] n'(1)
    by (simp add: commitChain_def Let_def branch_last_nth[unfolded One_nat_def] n1_def)
  moreover have "n_tip n' = Some e" "n_rejected n' = n_rejected n" using n'(3) f(2,4) by (simp_all add: same_chain_def)
  ultimately show ?thesis
    using same_chain_inv[OF inv1 n'(3,2)] frame_trans[OF f(1) same_chain_frame[OF n'(3)]] by blast
qed

subsection \<open>The three branches of the switch\<close>

lemma switch_first_result:
  assumes ok: "params_ok (en_params E)" and inv: "node_inv E n" and e: "map_of (n_blocks n) (e_hash e) = Some e"
  shows "switch_result E e n (switch_first E e n)"
proof -
  let ?B = "n_blocks n"
  note tree = node_invD(1)[OF inv]
  have "branch ?B e = [] @ branch ?B e" by simp
  from replayLocked_result[OF ok inv e this, of state_New] have
    "replay_result E e n (replayLocked E (branch ?B e) state_New n)" by simp
  then obtain err s n1 where r: "replayLocked E (branch ?B e) state_New n = Ret (err, s, n1)" "node_inv E n1"
    "frame n n1" "n_tip n1 = n_tip n" "err = None \<longrightarrow> only_checkpoints n n1 \<and> valid_at E ?B e s"
    "err \<noteq> None \<longrightarrow> n_rejected n1 \<noteq> {} \<and> \<not> (\<exists>s. valid_at E ?B e s)"
    by (auto simp: replay_result_def)
  show ?thesis
  proof (cases err)
    case (Some x)
    with r show ?thesis
      by (simp add: switch_first_def pathToGenesis_eq[OF tree e] reverse_rev switch_result_def)
  next
    case None
    with r(5) have oc: "only_checkpoints n n1" and v: "valid_at E ?B e s" by auto
    note eqs = only_checkpointsD[OF oc]
    from commitChain_ok[OF ok r(2), of e s "[]"] e v eqs obtain n' where
      "commitChain E s (branch ?B e) [] n1 = Ret n'" "node_inv E n'" "frame n1 n'" "n_tip n' = Some e"
      "n_rejected n' = n_rejected n" by auto
    with r None frame_trans[OF r(3)] show ?thesis
      by (simp add: switch_first_def pathToGenesis_eq[OF tree e] reverse_rev switch_result_def)
  qed
qed

lemma switch_child_result:
  assumes ok: "params_ok (en_params E)" and inv: "node_inv E n" and e: "map_of (n_blocks n) (e_hash e) = Some e"
    and t: "n_tip n = Some t" and par: "PrevHash (e_block e) = e_hash t"
  shows "switch_result E e n (switch_child E e n)"
proof -
  let ?B = "n_blocks n"
  note tree = node_invD(1)[OF inv]
  from node_invD(4)[OF inv] t have mt: "map_of ?B (e_hash t) = Some t" and vt: "valid_at E ?B t (n_state n)"
    and ch: "n_chainHeights n = index_heights (branch ?B t) (\<lambda>_. None)" by (simp_all add: tip_ok_def)
  have nz: "Height (e_block e) \<noteq> 0"
  proof
    assume "Height (e_block e) = 0"
    from tree_genesis(4)[OF tree e this] mt par show False by simp
  qed
  obtain par' where "map_of ?B (PrevHash (e_block e)) = Some par'" "unat (Height (e_block e)) = Suc (unat (Height (e_block par')))"
    by (rule tree_parent[OF tree e nz])
  then have br: "branch ?B e = branch ?B t @ [e]" using mt par by (simp add: branch_child)
  obtain err s where bs: "branch_replay E ?B e = Ret (err, s)"
    using replay_part[OF ok tree e, of "branch ?B e" "[]"] by (auto simp: branch_replay_def)
  then have ab: "ApplyBlock (en_ed E) (en_params E) (e_block e) (n_state n) = Ret (err, s)"
    using branch_replay_snoc[OF br, of E] vt nz by (simp add: valid_at_def branch_replay_def)
  show ?thesis
  proof (cases err)
    case (Some x)
    then have bad: "\<not> (\<exists>s. valid_at E ?B e s)" using bs by (simp add: valid_at_def)
    from reject_invalid[OF inv e bad] obtain n' where
      "rejectSubtree e n = Ret n'" "node_inv E n'" "frame n n'" "n_tip n' = n_tip n" "n_rejected n' \<noteq> {}" by blast
    with Some ab bad show ?thesis by (simp add: switch_child_def switch_result_def)
  next
    case None
    have ve: "valid_at E ?B e s" using bs None by (simp add: valid_at_def)
    define cps where "cps = (if Height (e_block e) mod checkpointInterval = 0
      then (n_checkpoints n)(e_hash e \<mapsto> s) else n_checkpoints n)"
    have invc: "node_inv E (n\<lparr>n_checkpoints := cps\<rparr>)"
      using checkpoint_added[OF inv e ve] inv by (auto simp: cps_def)
    define n1 where "n1 = n\<lparr>n_checkpoints := cps, n_chainHeights := (n_chainHeights n)(Height (e_block e) \<mapsto> e_hash e),
      n_state := s, n_tip := Some e, n_pendingDirty := True\<rparr>"
    have idx: "index_heights (xs @ [y]) m = (index_heights xs m)(Height (e_block y) \<mapsto> e_hash y)" for xs y m
      by (induction xs arbitrary: m) simp_all
    have n1_eq: "n1 = n\<lparr>n_checkpoints := cps\<rparr>\<lparr>n_chainHeights := index_heights (branch ?B e) (\<lambda>_. None),
        n_checkpoints := cps, n_state := s, n_tip := Some e, n_pendingDirty := True\<rparr>"
      by (rule node.equality) (simp_all add: n1_def br idx ch)
    from install_inv[OF invc, of e s cps] e ve have inv1: "node_inv E n1"
      unfolding n1_eq by simp
    have "no_nil (e_block e)" by (rule branch_no_nil[OF tree e]) simp
    from dropConfirmed_ok[OF node_invD(6)[OF inv1] node_state_small[OF ok inv1] this] obtain n2 where
      n2: "dropConfirmed e n1 = Ret n2" "pool_inv E n2" "same_chain n1 n2" by blast
    have "switch_child E e n = Ret (None, publish (e_block e) n2)"
    proof -
      have "n1 = (if Height (e_block e) mod checkpointInterval = 0
            then n\<lparr>n_checkpoints := (n_checkpoints n)(e_hash e \<mapsto> Clone s)\<rparr> else n)
          \<lparr>n_chainHeights := (n_chainHeights n)(Height (e_block e) \<mapsto> e_hash e), n_state := s, n_tip := Some e, n_pendingDirty := True\<rparr>"
        by (rule node.equality) (simp_all add: n1_def cps_def)
      with ab None n2(1) show ?thesis
        by (cases "Height (e_block e) mod checkpointInterval = 0") (simp_all add: switch_child_def)
    qed
    moreover have "node_inv E (publish (e_block e) n2)" by (rule publish_inv[OF same_chain_inv[OF inv1 n2(3,2)]])
    moreover have "frame n (publish (e_block e) n2)"
      using frame_trans[OF same_chain_frame[OF n2(3)] publish_frame] by (simp add: frame_def shrinks_def n1_def)
    moreover have "n_tip n2 = Some e" "n_rejected (publish (e_block e) n2) = n_rejected n"
      using n2(3) by (simp_all add: same_chain_def n1_def publish_def)
    ultimately show ?thesis by (simp add: switch_result_def)
  qed
qed

lemma find_fork_hit: "x \<in> set path \<Longrightarrow> e_hash x \<in> old \<Longrightarrow> \<exists>f. find_fork old path = Some f"
  by (induction path) auto

lemma rolled_back_no_nil:
  assumes "\<forall>x \<in> set path. no_nil (e_block x)"
  shows "list_all (\<lambda>q. q \<noteq> None) (rolled_back f path)"
  using assms by (auto simp: rolled_back_def no_nil_def list_all_iff)

lemma switch_branch_result:
  assumes ok: "params_ok (en_params E)" and inv: "node_inv E n" and e: "map_of (n_blocks n) (e_hash e) = Some e"
    and t: "n_tip n = Some t"
  shows "switch_result E e n (switch_branch E t e n)"
proof -
  let ?B = "n_blocks n"
  note tree = node_invD(1)[OF inv]
  from node_invD(4)[OF inv] t have mt: "map_of ?B (e_hash t) = Some t" by (simp add: tip_ok_def)
  obtain g where g: "g \<in> set (branch ?B e)" "g \<in> set (branch ?B t)"
    using branch_genesis_first[OF tree e] branch_genesis_first[OF tree mt] by fastforce
  obtain f where f: "find_fork (set (map e_hash (rev (branch ?B t)))) (branch ?B e) = Some f"
    using find_fork_hit[OF g(1)] g(2) by fastforce
  obtain pre post fresh where bt: "branch ?B e = pre @ post" "baseState (branch ?B e) n = Ret fresh"
    "tailAfter (branch ?B e) (start_height (n_checkpoints n) (branch ?B e) 0) = post"
    "replay (en_ed E) (en_params E) (map e_block pre) state_New = Ret (None, fresh)"
    using base_and_tail[OF inv e] by blast
  from replayLocked_result[OF ok inv e bt(1,4)] obtain err s n1 where
    r: "replayLocked E post fresh n = Ret (err, s, n1)" "node_inv E n1" "frame n n1" "n_tip n1 = n_tip n"
    "err = None \<longrightarrow> only_checkpoints n n1 \<and> valid_at E ?B e s" "err \<noteq> None \<longrightarrow> n_rejected n1 \<noteq> {} \<and> \<not> (\<exists>s. valid_at E ?B e s)"
    by (auto simp: replay_result_def)
  have run: "switch_branch E t e n = (case err of Some x \<Rightarrow> Ret (Some x, n1)
      | None \<Rightarrow> run_bind (commitChain E s (branch ?B e) (rolled_back f (rev (branch ?B t))) n1)
                 (\<lambda>n. Ret (None, publish (e_block e) n)))"
    using f bt(2,3) r(1) unfolding switch_branch_def
    by (simp add: pathToGenesis_eq[OF tree e] pathToGenesis_eq[OF tree mt] reverse_rev Let_def split: option.split)
  show ?thesis
  proof (cases err)
    case (Some x)
    with r run show ?thesis by (simp add: switch_result_def)
  next
    case None
    with r(5) have oc: "only_checkpoints n n1" and v: "valid_at E ?B e s" by auto
    note eqs = only_checkpointsD[OF oc]
    have "list_all (\<lambda>q. q \<noteq> None) (rolled_back f (rev (branch ?B t)))"
      by (rule rolled_back_no_nil) (use branch_no_nil[OF tree mt] in auto)
    with commitChain_ok[OF ok r(2), of e s] e v eqs obtain n' where
      n': "commitChain E s (branch ?B e) (rolled_back f (rev (branch ?B t))) n1 = Ret n'" "node_inv E n'" "frame n1 n'"
      "n_tip n' = Some e" "n_rejected n' = n_rejected n" by metis
    have "frame n (publish (e_block e) n')" using frame_trans[OF r(3) frame_trans[OF n'(3) publish_frame]] .
    moreover have "n_rejected (publish (e_block e) n') = n_rejected n" using n'(5) by (simp add: publish_def)
    ultimately show ?thesis using n' None run publish_inv[OF n'(2)] by (simp add: switch_result_def)
  qed
qed

lemma switchChain_result:
  assumes "params_ok (en_params E)" and "node_inv E n" and "map_of (n_blocks n) (e_hash e) = Some e"
  shows "switch_result E e n (switchChain E e n)"
  using switch_first_result[OF assms] switch_child_result[OF assms] switch_branch_result[OF assms]
  by (auto simp: switchChain_def split: option.split)

end
