(* ===== verification/InsertSafe.thy ===== *)
theory InsertSafe
  imports SwitchSafe
begin

text \<open>
  The selection of the tip and the insertion of blocks: the selected entry has the most work, its
  choice does not depend on the order of the map, and an insertion returns within the bound on its
  depth, keeps the invariant and never lowers the work of the tip.
\<close>

lemma node_inv_effects [simp]:
  "node_inv E (n\<lparr>n_ticks := k\<rparr>) = node_inv E n"
  "node_inv E (n\<lparr>n_out := out\<rparr>) = node_inv E n"
  "node_inv E (n\<lparr>n_booting := bt\<rparr>) = node_inv E n"
  "node_inv E (n\<lparr>n_stopped := st\<rparr>) = node_inv E n"
  "node_inv E (n\<lparr>n_ticks := k, n_disk := d\<rparr>) = node_inv E n"
  by (cases "n_tip n"; simp add: node_inv_def tip_ok_def orphans_ok_def pool_inv_def)+

subsection \<open>The best entry\<close>

lemma better_iff: "better e b \<longleftrightarrow> e_work b < e_work e \<or> (e_work e = e_work b \<and> e_hash e < e_hash b)"
  by (simp add: better_def hash_String_less)

lemma better_trans: "better a b \<Longrightarrow> better b c \<Longrightarrow> better a c"
  by (auto simp: better_iff)

lemma better_irrefl: "\<not> better a a"
  by (simp add: better_iff)

lemma better_total: "\<not> better a b \<Longrightarrow> \<not> better b a \<Longrightarrow> e_hash a = e_hash b"
  by (auto simp: better_iff)

lemma not_better_trans: "\<not> better b a \<Longrightarrow> \<not> better c b \<Longrightarrow> \<not> better c a"
  by (auto simp: better_iff)

definition candidates :: "hash set \<Rightarrow> tree \<Rightarrow> blockEntry set" where
  "candidates rej B = {e. \<exists>h. (h, e) \<in> set B \<and> e_hash e \<notin> rej}"

lemma candidates_simps [simp]:
  "candidates rej [] = {}"
  "candidates rej ((h, e) # B) = (if e_hash e \<in> rej then candidates rej B else insert e (candidates rej B))"
  by (auto simp: candidates_def)

lemma best_loop_best:
  assumes "best_loop rej B best = Some b"
  shows "(b \<in> candidates rej B \<or> best = Some b)
    \<and> (\<forall>e \<in> candidates rej B \<union> set_option best. \<not> better e b)"
  using assms
proof (induction B arbitrary: best)
  case Nil
  then show ?case by (simp add: better_irrefl)
next
  case (Cons he B)
  obtain h e where he: "he = (h, e)" by fastforce
  show ?case
  proof (cases "e_hash e \<in> rej")
    case True
    then have "best_loop rej B best = Some b" using Cons.prems he by simp
    from Cons.IH[OF this] True show ?thesis by (simp add: he)
  next
    case False
    define best' where "best' = (case best of None \<Rightarrow> e | Some b \<Rightarrow> if better e b then e else b)"
    have "best_loop rej B (Some best') = Some b"
      using Cons.prems he False by (cases best) (auto simp: best'_def split: if_splits)
    from Cons.IH[OF this] have ih: "b \<in> candidates rej B \<or> b = best'"
      "\<forall>x \<in> candidates rej B. \<not> better x b" "\<not> better best' b" by auto
    have b': "best' = e \<or> best = Some best'" by (auto simp: best'_def split: option.splits)
    have e: "\<not> better e best'" and o: "\<forall>x \<in> set_option best. \<not> better x best'"
      by (auto simp: best'_def better_irrefl split: option.splits dest: better_trans)
    have "\<not> better e b" "\<forall>x \<in> set_option best. \<not> better x b"
      using not_better_trans[OF ih(3) e] not_better_trans[OF ih(3)] o by blast+
    with ih b' False show ?thesis by (auto simp: he)
  qed
qed

lemma best_loop_None: "best_loop rej B best = None \<longleftrightarrow> best = None \<and> candidates rej B = {}"
proof (induction B arbitrary: best)
  case (Cons he B)
  then show ?case by (cases he; cases best) auto
qed simp

lemma best_loop_Some:
  "best_loop rej B None = Some b \<Longrightarrow> b \<in> candidates rej B \<and> (\<forall>e \<in> candidates rej B. \<not> better e b)"
  using best_loop_best[of rej B None b] by auto

text \<open>The choice of the best tip does not depend on the order in which Go iterates over the map of
  blocks: two enumerations of the same entries give the same tip.\<close>

lemma best_loop_order:
  assumes "set B = set B'" and "keyed B"
  shows "best_loop rej B None = best_loop rej B' None"
proof -
  have cand: "candidates rej B = candidates rej B'" using assms(1) by (simp add: candidates_def)
  have inj: "a = b" if "a \<in> candidates rej B" "b \<in> candidates rej B" "e_hash a = e_hash b" for a b
  proof -
    from that(1,2) obtain h k where "(h, a) \<in> set B" "(k, b) \<in> set B" by (auto simp: candidates_def)
    then have "map_of B h = Some a" "map_of B k = Some b" using assms(2) by (simp_all add: keyed_def keys_ok_mem_iff)
    moreover from this have "h = k" using assms(2) that(3) by (metis keyed_def)
    ultimately show ?thesis by simp
  qed
  show ?thesis
  proof (cases "best_loop rej B None")
    case None
    then show ?thesis using cand by (metis best_loop_None)
  next
    case (Some b)
    then obtain b' where b': "best_loop rej B' None = Some b'" using cand best_loop_None by (metis not_None_eq)
    from best_loop_Some[OF Some] best_loop_Some[OF b'] cand have "b \<in> candidates rej B" "b' \<in> candidates rej B"
      "\<not> better b b'" "\<not> better b' b" by auto
    then have "b = b'" using inj better_total by blast
    with Some b' show ?thesis by simp
  qed
qed

subsection \<open>Selecting the tip\<close>

definition tip_work :: "node \<Rightarrow> nat" where
  "tip_work n = (case n_tip n of None \<Rightarrow> 0 | Some t \<Rightarrow> e_work t)"

lemma candidates_iff:
  assumes "node_inv E n"
  shows "e \<in> candidates (n_rejected n) (n_blocks n) \<longleftrightarrow> map_of (n_blocks n) (e_hash e) = Some e"
proof -
  have k: "keyed (n_blocks n)" using tree_keyed[OF node_invD(1)[OF assms]] .
  then have "(\<exists>h. (h, e) \<in> set (n_blocks n)) \<longleftrightarrow> map_of (n_blocks n) (e_hash e) = Some e"
    by (auto simp: keyed_def keys_ok_mem_iff)
  moreover have "map_of (n_blocks n) (e_hash e) = Some e \<Longrightarrow> e_hash e \<notin> n_rejected n"
    using node_invD(3)[OF assms, of "e_hash e"] by auto
  ultimately show ?thesis by (auto simp: candidates_def)
qed

text \<open>The entry the selection settles on: no entry of the tree is better.\<close>

lemma best_entry:
  assumes "node_inv E n" and "best_loop (n_rejected n) (n_blocks n) None = Some b"
  shows "map_of (n_blocks n) (e_hash b) = Some b" and "map_of (n_blocks n) h = Some e \<Longrightarrow> \<not> better e b"
proof -
  from best_loop_Some[OF assms(2)] candidates_iff[OF assms(1)]
  show "map_of (n_blocks n) (e_hash b) = Some b" by blast
  assume "map_of (n_blocks n) h = Some e"
  moreover from this have "e_hash e = h" by (rule tree_invD(1)[OF node_invD(1)[OF assms(1)]])
  ultimately have "e \<in> candidates (n_rejected n) (n_blocks n)" using candidates_iff[OF assms(1), of e] by simp
  then show "\<not> better e b" using best_loop_Some[OF assms(2)] by blast
qed

lemma best_exists:
  assumes "node_inv E n"
  obtains b where "best_loop (n_rejected n) (n_blocks n) None = Some b"
proof -
  obtain g where "map_of (n_blocks n) (genesisHash E) = Some g"
    using node_invD(1)[OF assms] by (auto simp: tree_inv_def)
  moreover from this have "e_hash g = genesisHash E" by (rule tree_invD(1)[OF node_invD(1)[OF assms]])
  ultimately have "g \<in> candidates (n_rejected n) (n_blocks n)" using candidates_iff[OF assms, of g] by simp
  then have "best_loop (n_rejected n) (n_blocks n) None \<noteq> None" by (auto simp: best_loop_None)
  with that show ?thesis by blast
qed

lemma tip_not_better:
  assumes "node_inv E n" and "best_loop (n_rejected n) (n_blocks n) None = Some b"
  shows "tip_work n \<le> e_work b"
proof (cases "n_tip n")
  case (Some t)
  then have "map_of (n_blocks n) (e_hash t) = Some t" using node_invD(4)[OF assms(1)] by (simp add: tip_ok_def)
  from best_entry(2)[OF assms this] Some show ?thesis by (auto simp: tip_work_def better_iff)
qed (simp add: tip_work_def)

text \<open>
  The selection returns. Either the tip is now the best entry of the tree it saw, or the switch to
  that entry failed and the tip is the old one.
\<close>

lemma selectTip_result:
  assumes ok: "params_ok (en_params E)" and inv: "node_inv E n"
  shows "\<exists>n' b. selectTip E n = Ret n' \<and> node_inv E n' \<and> frame n n'
     \<and> best_loop (n_rejected n) (n_blocks n) None = Some b
     \<and> (n_tip n' = Some b \<and> n_rejected n' = n_rejected n \<or>
          n_tip n' = n_tip n \<and> n_rejected n' \<noteq> {} \<and> \<not> (\<exists>s. valid_at E (n_blocks n) b s)) \<and> tip_work n \<le> tip_work n'"
proof -
  obtain b where b: "best_loop (n_rejected n) (n_blocks n) None = Some b" by (rule best_exists[OF inv])
  show ?thesis
  proof (cases "map_option e_hash (n_tip n) = Some (e_hash b)")
    case True
    then obtain t where t: "n_tip n = Some t" "e_hash t = e_hash b" by auto
    then have "map_of (n_blocks n) (e_hash t) = Some t" using node_invD(4)[OF inv] by (simp add: tip_ok_def)
    with t best_entry(1)[OF inv b] have "n_tip n = Some b" by simp
    with inv b show ?thesis by (auto simp: selectTip_def)
  next
    case False
    from switchChain_result[OF ok inv best_entry(1)[OF inv b]] obtain err n' where
      s: "switchChain E b n = Ret (err, n')" "node_inv E n'" "frame n n'"
      "n_tip n' = (if err = None then Some b else n_tip n)"
      "if err = None then n_rejected n' = n_rejected n else n_rejected n' \<noteq> {} \<and> \<not> (\<exists>s. valid_at E (n_blocks n) b s)" by (auto simp: switch_result_def)
    have "tip_work n \<le> tip_work n'"
      using tip_not_better[OF inv b] s(4) by (auto simp: tip_work_def split: if_splits)
    with False b s show ?thesis by (auto simp: selectTip_def split: if_splits)
  qed
qed

subsection \<open>Orphans\<close>

lemma keyed_sum_update:
  "keys_ok m \<Longrightarrow> sum_list (map (\<lambda>(k, l). length l) (AList.update k v m))
     + (case map_of m k of None \<Rightarrow> 0 | Some l \<Rightarrow> length l) = sum_list (map (\<lambda>(k, l). length l) m) + length v"
proof (induction m)
  case (Cons kv m)
  obtain k' l where kv: "kv = (k', l)" by fastforce
  have "map_of m k' = None" using Cons.prems by (simp add: kv keys_ok_def map_of_eq_None_iff)
  with Cons show ?case by (cases "k' = k") (auto simp: kv keys_ok_def)
qed simp

lemma keyed_sum_delete:
  "keys_ok m \<Longrightarrow> sum_list (map (\<lambda>(k, l). length l) (AList.delete k m))
     + (case map_of m k of None \<Rightarrow> 0 | Some l \<Rightarrow> length l) = sum_list (map (\<lambda>(k, l). length l) m)"
proof (induction m)
  case (Cons kv m)
  obtain k' l where kv: "kv = (k', l)" by fastforce
  have "map_of m k' = None" and same: "k' = k \<Longrightarrow> AList.delete k m = m"
    using Cons.prems by (auto simp: kv keys_ok_def map_of_eq_None_iff delete_id)
  with Cons show ?case by (cases "k' = k") (auto simp: kv keys_ok_def)
qed simp

lemma addOrphan_ok:
  assumes "node_inv E n" and "wire_ok b"
  shows "node_inv E (addOrphan b n)" and "orphan_count (addOrphan b n) \<le> orphan_count n + 1"
    and "n_booting (addOrphan b n) = n_booting n" and "n_tip (addOrphan b n) = n_tip n" and "n_rejected (addOrphan b n) = n_rejected n"
    and "orphan_count (addOrphan b n) \<le> max maxOrphans (orphan_count n)"
proof -
  have ok: "orphans_ok n" using node_invD(5)[OF assms(1)] .
  let ?l = "case map_of (n_orphans n) (PrevHash b) of None \<Rightarrow> [] | Some l \<Rightarrow> l"
  let ?n = "n\<lparr>n_orphans := AList.update (PrevHash b) (?l @ [b]) (n_orphans n)\<rparr>"
  have ao: "addOrphan b n = n \<or> (addOrphan b n = ?n \<and> orphan_count n < maxOrphans)" by (simp add: addOrphan_def Let_def)
  have "orphans_ok ?n" using ok assms(2) by (cases "map_of (n_orphans n) (PrevHash b)") (auto simp: orphans_ok_def)
  then have inv: "node_inv E ?n"
    using assms(1) by (cases "n_tip n") (simp_all add: node_inv_def tip_ok_def pool_inv_def)
  have cnt: "orphan_count ?n = orphan_count n + 1"
    using keyed_sum_update[of "n_orphans n" "PrevHash b" "?l @ [b]"] ok
    by (auto simp: orphan_count_def orphans_ok_def split: option.splits)
  show "node_inv E (addOrphan b n)" "orphan_count (addOrphan b n) \<le> orphan_count n + 1"
    "n_booting (addOrphan b n) = n_booting n" "n_tip (addOrphan b n) = n_tip n" "n_rejected (addOrphan b n) = n_rejected n"
    "orphan_count (addOrphan b n) \<le> max maxOrphans (orphan_count n)"
    using ao inv assms(1) cnt by auto
qed

subsection \<open>Insertion\<close>

text \<open>The node keeps at least the work it followed, and everything it rejected.\<close>

definition forward :: "node \<Rightarrow> node \<Rightarrow> bool" where
  "forward n n' \<longleftrightarrow> tip_work n \<le> tip_work n' \<and> n_rejected n \<subseteq> n_rejected n'"

lemma forward_refl [simp]: "n_tip n' = n_tip n \<Longrightarrow> n_rejected n' = n_rejected n \<Longrightarrow> forward n n'"
  by (simp add: forward_def tip_work_def)

lemma forward_trans: "forward n n1 \<Longrightarrow> forward n1 n2 \<Longrightarrow> forward n n2"
  by (auto simp: forward_def)

definition insert_result :: "env \<Rightarrow> node \<Rightarrow> ('e option \<times> node) run \<Rightarrow> nat \<Rightarrow> bool" where
  "insert_result E n r k \<longleftrightarrow> (\<exists>err n'. r = Ret (err, n') \<and> node_inv E n' \<and> n_booting n' = n_booting n
     \<and> orphan_count n' \<le> orphan_count n + k \<and> orphan_count n' \<le> max maxOrphans (orphan_count n)
     \<and> forward n n')"

text \<open>What is assumed of the insertion the orphans go through.\<close>

definition inserts_ok :: "env \<Rightarrow> nat \<Rightarrow> (block \<Rightarrow> node \<Rightarrow> ('e option \<times> node) run) \<Rightarrow> bool" where
  "inserts_ok E fuel ins \<longleftrightarrow> (\<forall>b n. node_inv E n \<and> wire_ok b \<and> orphan_count n < fuel \<longrightarrow> insert_result E n (ins b n) 1)"

lemma inserts_okD:
  "inserts_ok E fuel ins \<Longrightarrow> node_inv E n \<Longrightarrow> wire_ok b \<Longrightarrow> orphan_count n < fuel \<Longrightarrow> insert_result E n (ins b n) 1"
  by (simp add: inserts_ok_def)

lemma promote_list_ok:
  assumes ins: "inserts_ok E fuel ins"
    and "node_inv E n" and "\<forall>b \<in> set l. wire_ok b" and "orphan_count n + length l \<le> fuel"
  shows "\<exists>n'. promote_list ins l n = Ret n' \<and> node_inv E n' \<and> n_booting n' = n_booting n
     \<and> orphan_count n' \<le> orphan_count n + length l \<and> forward n n'"
  using assms(2-4)
proof (induction l arbitrary: n)
  case (Cons b l)
  from inserts_okD[OF ins Cons.prems(1), of b] Cons.prems(2,3) obtain err n1 where
    1: "ins b n = Ret (err, n1)" "node_inv E n1" "n_booting n1 = n_booting n" "orphan_count n1 \<le> orphan_count n + 1"
    "forward n n1" by (auto simp: insert_result_def)
  from Cons.IH[OF 1(2)] Cons.prems(2,3) 1(4) obtain n2 where
    "promote_list ins l n1 = Ret n2" "node_inv E n2" "n_booting n2 = n_booting n1"
    "orphan_count n2 \<le> orphan_count n1 + length l" "forward n1 n2" by auto
  with 1 forward_trans[OF 1(5)] show ?case by auto
qed auto

lemma promoteOrphans_ok:
  assumes ins: "inserts_ok E fuel ins"
    and inv: "node_inv E n" and "orphan_count n \<le> fuel"
  shows "\<exists>n'. promoteOrphans ins h n = Ret n' \<and> node_inv E n' \<and> n_booting n' = n_booting n
     \<and> orphan_count n' \<le> orphan_count n \<and> forward n n'"
proof (cases "map_of (n_orphans n) h")
  case None
  with inv show ?thesis by (simp add: promoteOrphans_def)
next
  case (Some l)
  let ?n = "n\<lparr>n_orphans := AList.delete h (n_orphans n)\<rparr>"
  have ok: "orphans_ok n" using node_invD(5)[OF inv] .
  have "orphans_ok ?n" using ok by (simp add: orphans_ok_def)
  then have inv': "node_inv E ?n"
    using inv by (cases "n_tip n") (simp_all add: node_inv_def tip_ok_def pool_inv_def)
  have cnt: "orphan_count ?n + length l = orphan_count n"
    using keyed_sum_delete[of "n_orphans n" h] ok Some by (simp add: orphan_count_def orphans_ok_def)
  have nz: "\<forall>b \<in> set l. wire_ok b" using ok Some by (auto simp: orphans_ok_def)
  have "orphan_count ?n + length l \<le> fuel" using cnt assms(3) by simp
  from promote_list_ok[OF ins inv' nz this] obtain n' where
    "promote_list ins l ?n = Ret n'" "node_inv E n'" "n_booting n' = n_booting n"
    "orphan_count n' \<le> orphan_count ?n + length l" "forward ?n n'" by auto
  with Some cnt show ?thesis by (auto simp: promoteOrphans_def forward_def tip_work_def)
qed

text \<open>Adding a validated entry changes no branch, so the node around it stays well formed.\<close>

lemma store_entry_inv:
  assumes inv: "node_inv E n" and new: "new_entry_ok E (n_blocks n) e" and rej: "e_hash e \<notin> n_rejected n"
  shows "node_inv E (store_entry e n)"
proof -
  let ?B = "n_blocks n" and ?B' = "AList.update (e_hash e) e (n_blocks n)"
  note tree = node_invD(1)[OF inv]
  have none: "map_of ?B (e_hash e) = None" and nz: "e_hash e \<noteq> 0" using new by (simp_all add: new_entry_ok_def)
  have le: "map_of ?B \<subseteq>\<^sub>m map_of ?B'" by (rule extend_le[OF none])
  have zero: "map_of ?B' 0 = None" using tree nz by (simp add: tree_inv_def)
  have keep: "map_of ?B' h = Some x \<and> (\<forall>s. valid_at E ?B' x s \<longleftrightarrow> valid_at E ?B x s) \<and> branch ?B' x = branch ?B x"
    if "map_of ?B h = Some x" for h x
    using that none valid_at_agree[OF tree le zero that] branch_agree[OF tree le zero that] by auto
  have "checkpoints_ok E ?B' (n_checkpoints n)"
    using node_invD(2)[OF inv] keep unfolding checkpoints_ok_def by metis
  moreover have "tip_ok E (store_entry e n)"
  proof (cases "n_tip n")
    case None
    then show ?thesis using node_invD(4)[OF inv] by (simp add: tip_ok_def store_entry_def)
  next
    case (Some t)
    then have "map_of ?B (e_hash t) = Some t" "valid_at E ?B t (n_state n)"
      "n_chainHeights n = index_heights (branch ?B t) (\<lambda>_. None)"
      using node_invD(4)[OF inv] by (simp_all add: tip_ok_def)
    with keep[of "e_hash t" t] Some show ?thesis by (simp add: tip_ok_def store_entry_def)
  qed
  moreover have "\<forall>h \<in> n_rejected n. map_of ?B' h = None"
    using node_invD(3)[OF inv] rej by auto
  moreover have "orphans_ok (store_entry e n)" "pool_inv E (store_entry e n)"
    using node_invD(5,6)[OF inv] by (simp_all add: store_entry_def orphans_ok_def pool_inv_def)
  ultimately show ?thesis
    using tree_extend[OF tree new] by (simp add: node_inv_def store_entry_def)
qed

lemma store_entry_sel [simp]:
  "n_orphans (store_entry e n) = n_orphans n" "n_booting (store_entry e n) = n_booting n"
  "n_tip (store_entry e n) = n_tip n" "orphan_count (store_entry e n) = orphan_count n"
  "tip_work (store_entry e n) = tip_work n"
  by (simp_all add: store_entry_def orphan_count_def tip_work_def)

lemma insert_result_same: "node_inv E n \<Longrightarrow> insert_result E n (Ret (err, n)) k"
  by (simp add: insert_result_def)

text \<open>The tail of an insertion, after the orphans: announce, then select the tip.\<close>

lemma insert_finish:
  assumes ok: "params_ok (en_params E)" and inv: "node_inv E n1" and "n_booting n1 = n_booting n"
    and "orphan_count n1 \<le> orphan_count n" and "forward n n1"
  shows "insert_result E n (finish_insert E b announce ex n1) k"
proof -
  let ?n = "if announce \<and> \<not> n_booting n1 \<and> en_sw E then emit (Broadcast (MsgNewBlock (Some b)) ex) n1 else n1"
  have inv': "node_inv E ?n" using inv by (simp add: emit_def)
  have eqs: "n_booting ?n = n_booting n1" "orphan_count ?n = orphan_count n1" "forward n1 ?n"
    by (simp_all add: emit_def orphan_count_def)
  from selectTip_result[OF ok inv'] obtain n' where
    "selectTip E ?n = Ret n'" "node_inv E n'" "frame ?n n'" "tip_work ?n \<le> tip_work n'" by blast
  moreover from this have "orphan_count n' = orphan_count n1" "n_booting n' = n_booting n1" "forward ?n n'"
    using eqs by (simp_all add: frame_def orphan_count_def shrinks_def forward_def)
  moreover have "forward n ?n" by (rule forward_trans[OF assms(5) eqs(3)])
  ultimately show ?thesis using assms inv' eqs forward_trans[of n ?n n']
    by (cases "n_booting n1") (auto simp: insert_result_def finish_insert_def Let_def)
qed

lemma insertBlock_result:
  assumes ok: "params_ok (en_params E)"
  shows "node_inv E n \<Longrightarrow> wire_ok b \<Longrightarrow> orphan_count n < fuel
    \<Longrightarrow> insert_result E n (insertBlock fuel E b fromDisk announce ex n) 1"
proof (induction fuel arbitrary: b fromDisk announce ex n)
  case (Suc fuel)
  let ?h = "block_Hash b" and ?B = "n_blocks n" and ?p = "en_params E"
  note inv = Suc.prems(1)
  note tree = node_invD(1)[OF inv]
  have wire: "?h \<noteq> 0" "no_nil b" using Suc.prems(2) by (simp_all add: wire_ok_def)
  define n0 where "n0 = n\<lparr>n_ticks := Suc (n_ticks n)\<rparr>"
  have inv0: "node_inv E n0" using inv by (simp add: n0_def)
  have same0: "insert_result E n (Ret (err, n0)) 1" for err :: "insert_error option"
    using inv0 by (simp add: insert_result_def n0_def orphan_count_def)
  show ?case
  proof (cases "map_of ?B ?h = None \<and> ?h \<notin> n_rejected n")
    case False
    then show ?thesis using inv by (auto simp: Let_def intro!: insert_result_same)
  next
    case fresh: True
    show ?thesis
    proof (cases "Height b = 0")
      case True
      have "?h \<noteq> genesisHash E" using fresh tree by (auto simp: tree_inv_def)
      with fresh True inv show ?thesis by (simp add: Let_def insert_result_same)
    next
      case nz: False
      show ?thesis
      proof (cases "map_of ?B (PrevHash b)")
        case None
        with fresh nz addOrphan_ok[OF inv Suc.prems(2)] show ?thesis
          by (simp add: Let_def insert_result_def)
      next
        case (Some par)
        let ?now = "en_clock E (n_ticks n)"
        from wire(2) obtain ts where "Txs b = map Some ts" by (auto simp: no_nil_iff)
        then have "returns (ValidateBasic ?p b (Some (e_block par)) ?now)" by (rule ValidateBasic_returns)
        then obtain verr where vb: "ValidateBasic ?p b (Some (e_block par)) ?now = Ret verr" by (rule returnsE)
        let ?want = "NextDifficulty ?p (Some (e_block par)) (anchorLocked ?p ?B par)"
        show ?thesis
        proof (cases "verr = None \<and> Difficulty b = ?want \<and> ValidatePoW b = None")
          case False
          with fresh nz Some vb same0 show ?thesis
            by (cases verr; cases "ValidatePoW b") (auto simp: Let_def nowMs_def n0_def)
        next
          case True
          define e where "e = \<lparr> e_block = b, e_hash = ?h, e_work = e_work par + unat (Difficulty b) \<rparr>"
          have bo: "basic_ok ?p b (e_block par) ?now" using vb True ValidateBasic_ok by simp
          have "entry_ok E ?B e"
            using nz Some bo True unfolding entry_ok_def Let_def by (simp add: e_def) blast
          then have new: "new_entry_ok E ?B e"
            using fresh wire(1) nz by (simp add: new_entry_ok_def e_def)
          have inv1: "node_inv E (store_entry e n0)"
            using store_entry_inv[OF inv0, of e] new fresh by (simp add: n0_def e_def)
          define n1 where "n1 = accept_block E b fromDisk par n0"
          have n1': "n1 = (if \<not> fromDisk then appendBlock E b (store_entry e n0) else store_entry e n0)"
            by (simp add: n1_def accept_block_def e_def)
          have inv1': "node_inv E n1" using inv1 by (simp add: n1' appendBlock_def)
          have n1: "orphan_count n1 = orphan_count n" "n_booting n1 = n_booting n" "forward n n1"
            by (simp_all add: n1' n0_def appendBlock_def orphan_count_def store_entry_def)
          have "orphan_count n1 \<le> fuel" using Suc.prems(3) n1(1) by simp
          moreover have "inserts_ok E fuel (\<lambda>b. insertBlock fuel E b False True '''')"
            using Suc.IH by (simp add: inserts_ok_def)
          ultimately obtain n2 where
            n2: "promoteOrphans (\<lambda>b. insertBlock fuel E b False True '''') ?h n1 = Ret n2" "node_inv E n2"
            "n_booting n2 = n_booting n1" "orphan_count n2 \<le> orphan_count n1" "forward n1 n2"
            using promoteOrphans_ok[OF _ inv1'] by blast
          have "insertBlock (Suc fuel) E b fromDisk announce ex n = finish_insert E b announce ex n2"
            using fresh nz Some vb True n2(1) by (simp add: Let_def nowMs_def n0_def n1_def)
          with insert_finish[OF ok n2(2)] n1(1,2) n2(3,4) forward_trans[OF n1(3) n2(5)] show ?thesis by simp
        qed
      qed
    qed
  qed
qed simp

end
