(* ===== verification/MiningSafe.thy ===== *)
theory MiningSafe
  imports InsertSafe
begin

text \<open>
  The candidate block \<open>BuildCandidate\<close> hands to the miner: it passes the structural checks against
  the tip and applies to the node's state, whatever is in the mempool.
\<close>

subsection \<open>The selected transactions\<close>

text \<open>Transactions that apply one after the other.\<close>

fun spec_seq :: "tx list \<Rightarrow> aledger \<Rightarrow> aledger option" where
  "spec_seq [] L = Some L"
| "spec_seq (t # ts) L = (case spec_tx t L of None \<Rightarrow> None | Some L' \<Rightarrow> spec_seq ts L')"

lemma spec_seq_take: "spec_seq ts L \<noteq> None \<Longrightarrow> spec_seq (take k ts) L \<noteq> None"
proof (induction ts arbitrary: L k)
  case (Cons t ts)
  then show ?case by (cases k) (auto split: option.splits)
qed simp

lemma spec_txs_seq: "\<forall>t \<in> set ts. tx_Verify ed t = None \<Longrightarrow> spec_txs ed ts L = spec_seq ts L"
  by (induction ts arbitrary: L) (auto split: option.split)

lemma apply_candidates_ok:
  "small work \<Longrightarrow> \<exists>txs. apply_candidates ts work = Ret txs \<and> set txs \<subseteq> set ts \<and> spec_seq txs (abs_state work) \<noteq> None"
proof (induction ts arbitrary: work)
  case (Cons t ts)
  obtain err w where w: "ApplyTx t work = Ret (err, w)" "small w" "err \<noteq> None \<Longrightarrow> abs_state w = abs_state work"
    "err = None \<Longrightarrow> spec_tx t (abs_state work) = Some (abs_state w)"
    using ApplyTx_small[OF Cons.prems, of t] by metis
  from Cons.IH[OF w(2)] obtain txs where "apply_candidates ts w = Ret txs" "set txs \<subseteq> set ts" "spec_seq txs (abs_state w) \<noteq> None"
    by blast
  with w show ?case by (cases "err = None") auto
qed simp

lemma pool_txs_ok:
  assumes "pool_inv E n" and "t \<in> set (pool_txs n)"
  shows "tx_Verify (en_ed E) t = None" and "\<not> IsCoinbase t"
  using assms by (auto simp: pool_txs_def pool_inv_def pool_ok_def)

lemma candidate_txs_ok:
  assumes "pool_inv E n" and "small (n_state n)" and "1 \<le> MaxTxsPerBlock (en_params E)"
  shows "\<exists>txs. candidate_txs E n = Ret txs \<and> set txs \<subseteq> set (pool_txs n)
     \<and> spec_seq txs (abs_state (n_state n)) \<noteq> None \<and> int (length txs) < MaxTxsPerBlock (en_params E)"
proof -
  let ?M = "MaxTxsPerBlock (en_params E)"
  obtain txs where txs: "apply_candidates (sort_key fee_order (pool_txs n)) (n_state n) = Ret txs"
    "set txs \<subseteq> set (pool_txs n)" "spec_seq txs (abs_state (n_state n)) \<noteq> None"
    using apply_candidates_ok[OF assms(2), of "sort_key fee_order (pool_txs n)"] by auto
  show ?thesis
  proof (cases "int (length txs) > ?M - 1")
    case True
    let ?txs = "take (nat (?M - 1)) txs"
    have "candidate_txs E n = Ret ?txs" using txs(1) True assms(3) by (simp add: candidate_txs_def truncate_txs_def)
    moreover have "set ?txs \<subseteq> set (pool_txs n)" using txs(2) set_take_subset[of "nat (?M - 1)" txs] by (rule order_trans[rotated])
    moreover have "int (length ?txs) < ?M" using assms(3) by simp
    ultimately show ?thesis using spec_seq_take[OF txs(3), of "nat (?M - 1)"] by blast
  next
    case False
    then have "candidate_txs E n = Ret txs" using txs(1) by (simp add: candidate_txs_def truncate_txs_def)
    moreover have "int (length txs) < ?M" using False by simp
    ultimately show ?thesis using txs(2,3) by blast
  qed
qed

text \<open>The fees of transactions that apply come out of the balances, so their sum does not wrap.\<close>

lemma spec_seq_applies:
  assumes "small s" and "spec_seq ts (abs_state s) \<noteq> None"
  shows "\<exists>s'. small s' \<and> spec_seq ts (abs_state s) = Some (abs_state s') \<and> total_supply s' + fees ts = total_supply s"
  using assms
proof (induction ts arbitrary: s)
  case Nil
  then show ?case by auto
next
  case (Cons t ts)
  then obtain L where L: "spec_tx t (abs_state s) = Some L" "spec_seq ts L \<noteq> None" by (auto split: option.splits)
  have "keys_ok s" "total_supply s < 2 ^ 64" using Cons.prems(1) by (simp_all add: small_def)
  from ApplyTx_refines[OF this, of t] obtain r s1 where rs: "tx_refines t s (r, s1)" by (metis surj_pair)
  have "r = None" using rs L(1) by (cases r) (auto simp: tx_refines_def)
  with rs have s1: "keys_ok s1" "spec_tx t (abs_state s) = Some (abs_state s1)" "total_supply s1 + unat (Fee t) = total_supply s"
    using tx_refines_None by blast+
  have "small s1" using s1(1,3) Cons.prems(1) by (simp add: small_def)
  from Cons.IH[OF this] L s1(2) obtain s' where "small s'" "spec_seq ts (abs_state s1) = Some (abs_state s')"
    "total_supply s' + fees ts = total_supply s1" by auto
  with s1 show ?case by (intro exI[of _ s']) simp
qed

lemma sum_fees_exact: "unat acc + fees ts < 2 ^ 64 \<Longrightarrow> unat (sum_fees ts acc) = unat acc + fees ts"
proof (induction ts arbitrary: acc)
  case (Cons t ts)
  have "unat (acc + Fee t) = unat acc + unat (Fee t)" using Cons.prems by (intro unat_add_exact) simp
  with Cons show ?case by simp
qed simp

subsection \<open>The candidate\<close>

lemma reward_cap:
  assumes "params_ok (en_params E)" and "tree_inv E B" and "map_of B h = Some e" and "valid_at E B e s"
  shows "total_supply s + reward_nat (en_params E) (Suc (unat (Height (e_block e)))) < 2 ^ 64"
proof -
  let ?p = "en_params E" and ?k = "Suc (unat (Height (e_block e)))"
  have asc: "ascending (map e_block (branch B e))" by (rule branch_ascending[OF assms(2,3)])
  have "total_supply s = rewards ?p (map e_block (branch B e))" by (rule valid_at_supply(1)[OF assms])
  then have "total_supply s = (\<Sum>h \<in> {0<..<?k}. reward_nat ?p h)"
    using rewards_ascending[OF asc] length_branch[OF assms(2,3)] by simp
  then have "total_supply s + reward_nat ?p ?k = (\<Sum>h \<in> insert ?k {0<..<?k}. reward_nat ?p h)" by simp
  also have "\<dots> \<le> (\<Sum>h < Suc ?k. reward_nat ?p h)" by (rule sum_mono2) auto
  also have "\<dots> \<le> 2 * unat (HalvingInterval ?p) * unat (InitialReward ?p)"
    by (rule reward_sum_bound) (use assms(1) in \<open>simp add: params_ok_def\<close>)
  finally show ?thesis using assms(1) by (simp add: params_ok_def)
qed

text \<open>What \<open>BuildCandidate\<close> returns, field by field.\<close>

lemma BuildCandidate_result:
  assumes ok: "params_ok (en_params E)" and inv: "node_inv E n" and max: "1 \<le> MaxTxsPerBlock (en_params E)"
    and tip: "n_tip n = Some t"
  obtains b now txs n' reward where "BuildCandidate E miner n = Ret (Some b, n')" and "candidate_time E t n = (now, n')"
    and "candidate_txs E n = Ret txs" and "RewardAt (en_params E) (Height (e_block t) + 1) = Ret reward"
    and "Height b = Height (e_block t) + 1" and "PrevHash b = e_hash t" and "Time b = now" and "Miner b = miner"
    and "Difficulty b = NextDifficulty (en_params E) (Some (e_block t)) (anchorLocked (en_params E) (n_blocks n) t)"
    and "Txs b = map Some (coinbase_tx miner (reward + sum_fees txs 0) (Height (e_block t) + 1) now # txs)"
    and "MerkleRoot (Txs b) = Ret (Merkle b)" and "node_inv E n'" and "same_chain n n'"
proof -
  obtain now n' where ct: "candidate_time E t n = (now, n')" by fastforce
  then have n': "n' = n\<lparr>n_ticks := Suc (n_ticks n)\<rparr>" by (auto simp: candidate_time_def nowMs_def)
  have txs_eq: "candidate_txs E n' = candidate_txs E n" by (simp add: n' candidate_txs_def pool_txs_def)
  obtain txs where txs: "candidate_txs E n = Ret txs"
    using candidate_txs_ok[OF node_invD(6)[OF inv] node_state_small[OF ok inv] max] by blast
  obtain reward where rew: "RewardAt (en_params E) (Height (e_block t) + 1) = Ret reward"
    using RewardAt_returns[of "en_params E"] ok by (auto simp: params_ok_def elim: returnsE)
  let ?cb = "coinbase_tx miner (reward + sum_fees txs 0) (Height (e_block t) + 1) now"
  obtain root where root: "MerkleRoot (map Some (?cb # txs)) = Ret root"
    using MerkleRoot_Some[of "?cb # txs"] by blast
  define b where "b = \<lparr> Height = Height (e_block t) + 1, PrevHash = e_hash t, Time = now,
    Difficulty = NextDifficulty (en_params E) (Some (e_block t)) (anchorLocked (en_params E) (n_blocks n) t),
    Miner = miner, ExtraNonce = 0, Merkle = root, Nonce = 0, Txs = map Some (?cb # txs) \<rparr>"
  have "n_blocks n' = n_blocks n" by (simp add: n')
  then have "BuildCandidate E miner n = Ret (Some b, n')"
    unfolding BuildCandidate_def by (simp only: tip option.case ct prod.case txs_eq txs rew run_bind_simps Let_def root b_def)
  moreover have "node_inv E n'" "same_chain n n'" using inv by (simp_all add: n' same_chain_def)
  ultimately show ?thesis using that[of b n' now txs reward] ct txs rew root by (simp add: b_def)
qed

text \<open>It applies to the state it was built on, unless there is nothing to pay the miner.\<close>

lemma candidate_applies:
  assumes ok: "params_ok (en_params E)" and inv: "node_inv E n" and max: "1 \<le> MaxTxsPerBlock (en_params E)"
    and tip: "n_tip n = Some t" and miner: "Valid miner" and wrap: "Height (e_block t) + 1 \<noteq> 0"
    and b: "BuildCandidate E miner n = Ret (Some b, n')"
    and pays: "case hd (Txs b) of None \<Rightarrow> False | Some cb \<Rightarrow> Amount cb \<noteq> 0"
  shows "\<exists>s'. ApplyBlock (en_ed E) (en_params E) b (n_state n) = Ret (None, s')"
proof -
  let ?p = "en_params E" and ?s = "n_state n"
  obtain b' now txs n1 reward where c: "BuildCandidate E miner n = Ret (Some b', n1)"
    "candidate_txs E n = Ret txs" "RewardAt ?p (Height (e_block t) + 1) = Ret reward"
    "Height b' = Height (e_block t) + 1"
    "Txs b' = map Some (coinbase_tx miner (reward + sum_fees txs 0) (Height (e_block t) + 1) now # txs)"
    by (rule BuildCandidate_result[OF ok inv max tip, of miner])
  have [simp]: "b' = b" using c(1) b by simp
  let ?cb = "coinbase_tx miner (reward + sum_fees txs 0) (Height (e_block t) + 1) now"
  from node_invD(4)[OF inv] tip have mt: "map_of (n_blocks n) (e_hash t) = Some t" and vt: "valid_at E (n_blocks n) t ?s"
    by (simp_all add: tip_ok_def)
  have small: "small ?s" by (rule node_state_small[OF ok inv])
  have h: "unat (Height b) = Suc (unat (Height (e_block t)))" using c(4) wrap by (metis \<open>b' = b\<close> unatSuc add.commute)
  have cap: "total_supply ?s + reward_nat ?p (unat (Height b)) < 2 ^ 64"
    using reward_cap[OF ok node_invD(1)[OF inv] mt vt] h by simp
  from candidate_txs_ok[OF node_invD(6)[OF inv] small max] c(2) have
    sub: "set txs \<subseteq> set (pool_txs n)" and seq: "spec_seq txs (abs_state ?s) \<noteq> None" by auto
  have ver: "\<forall>t \<in> set txs. tx_Verify (en_ed E) t = None" using sub pool_txs_ok(1)[OF node_invD(6)[OF inv]] by blast
  from spec_seq_applies[OF small seq] obtain s' where fees_le: "total_supply s' + fees txs = total_supply ?s" by blast
  have rew: "unat reward = reward_nat ?p (unat (Height b))" using RewardAt_unat[OF c(3)] c(4) by simp
  have sf: "unat (sum_fees txs 0) = fees txs"
    using sum_fees_exact[of 0 txs] fees_le small by (simp add: small_def)
  have amt: "unat (reward + sum_fees txs 0) = reward_nat ?p (unat (Height b)) + fees txs"
    using unat_add_exact[of reward "sum_fees txs 0"] rew sf fees_le cap by simp
  have cbv: "tx_Verify (en_ed E) ?cb = None"
    using miner pays c(5) by (subst tx_Verify_coinbase) (simp_all add: coinbase_tx_def IsCoinbase_def)
  have "spec_block (en_ed E) ?p b (abs_state ?s) \<noteq> None"
    using c(5) cbv amt seq spec_txs_seq[OF ver]
    by (simp add: spec_block_def comp_def) (simp add: coinbase_tx_def IsCoinbase_def)
  moreover have "keys_ok ?s" "HalvingInterval ?p \<noteq> 0" using small ok by (simp_all add: small_def params_ok_def)
  moreover have "Txs b = map Some (?cb # txs)" using c(5) by simp
  ultimately show ?thesis
    using ApplyBlock_refines[of ?s ?p b "?cb # txs" "en_ed E"] cap by (auto simp: block_refines_def split: if_splits)
qed

text \<open>It passes the structural checks at any later time the clock shows.\<close>

lemma candidate_basic_ok:
  assumes ok: "params_ok (en_params E)" and inv: "node_inv E n" and max: "1 \<le> MaxTxsPerBlock (en_params E)"
    and tip: "n_tip n = Some t" and miner: "Valid miner"
    and b: "BuildCandidate E miner n = Ret (Some b, n')"
    and clock: "sint (Time (e_block t)) < 2 ^ 63 - 1" "sint (Time b) \<le> sint (now + MaxFutureTime (en_params E))"
  shows "ValidateBasic (en_params E) b (Some (e_block t)) now = Ret None"
proof -
  let ?p = "en_params E"
  obtain b' tm txs n1 reward where c: "BuildCandidate E miner n = Ret (Some b', n1)"
    "candidate_time E t n = (tm, n1)" "candidate_txs E n = Ret txs"
    "Height b' = Height (e_block t) + 1" "PrevHash b' = e_hash t" "Time b' = tm" "Miner b' = miner"
    "Txs b' = map Some (coinbase_tx miner (reward + sum_fees txs 0) (Height (e_block t) + 1) tm # txs)"
    "MerkleRoot (Txs b') = Ret (Merkle b')"
    by (rule BuildCandidate_result[OF ok inv max tip, of miner])
  have [simp]: "b' = b" using c(1) b by simp
  let ?cb = "coinbase_tx miner (reward + sum_fees txs 0) (Height (e_block t) + 1) tm"
  from node_invD(4)[OF inv] tip have mt: "map_of (n_blocks n) (e_hash t) = Some t" by (simp add: tip_ok_def)
  from candidate_txs_ok[OF node_invD(6)[OF inv] node_state_small[OF ok inv] max] c(3) have
    sub: "set txs \<subseteq> set (pool_txs n)" and len: "int (length txs) < MaxTxsPerBlock ?p" by auto
  have "list_all (\<lambda>t. \<not> IsCoinbase t) txs"
    using sub pool_txs_ok(2)[OF node_invD(6)[OF inv]] by (auto simp: list_all_iff)
  moreover have "sint (Time (e_block t)) < sint tm"
  proof -
    have "sint (Time (e_block t) + 1) = sint (Time (e_block t)) + 1"
      using sint_add_exact[of "Time (e_block t)" 1] clock(1) sint_ge[of "Time (e_block t)"] by simp
    with c(2) show ?thesis by (auto simp: candidate_time_def nowMs_def split: if_splits)
  qed
  moreover have "block_Hash (e_block t) = e_hash t" using tree_invD(2)[OF node_invD(1)[OF inv] mt] .
  moreover have "merkle_loop (map tx_Hash (?cb # txs)) = Merkle b"
    using c(8,9) MerkleRoot_Some[of "?cb # txs"] by simp
  moreover have "IsCoinbase ?cb" by (simp add: coinbase_tx_def IsCoinbase_def)
  moreover have "Txs b = Some ?cb # map Some txs" using c(8) by simp
  ultimately have "basic_ok ?p b (e_block t) now"
    unfolding basic_ok_def using c(4-7) clock(2) len miner Valid_not_coinbase[OF miner] by auto
  then show ?thesis by (simp add: ValidateBasic_ok)
qed

end
