(* ===== verification/SyncSafe.thy ===== *)
theory SyncSafe
  imports MiningSafe
begin

text \<open>
  The exchange with peers keeps the node's invariant and always returns: the locator loop ends
  after at most 74 hashes, the first the entry's own and the last the genesis block's, and the
  handlers neither panic nor loop on blocks the analysis covers.
\<close>

subsection \<open>Locators\<close>

lemma step_back_result:
  assumes "tree_inv E B" and "map_of B h = Some e"
  shows "\<exists>e'. step_back B k (Some e) = Some e' \<and> e' \<in> set (branch B e)
     \<and> unat (Height (e_block e')) = unat (Height (e_block e)) - k"
  using assms
proof (induction arbitrary: k rule: tree_induct)
  case (genesis h e)
  then show ?case by (simp add: step_back.simps[of B k] branch_genesis)
next
  case (child h e par)
  show ?case
  proof (cases k)
    case 0
    have "step_back B 0 (Some e) = Some e" by (subst step_back.simps) simp
    with 0 show ?thesis by simp
  next
    case (Suc k')
    from child.IH[of k'] obtain e' where "step_back B k' (Some par) = Some e'" "e' \<in> set (branch B par)"
      "unat (Height (e_block e')) = unat (Height (e_block par)) - k'" by blast
    with child Suc show ?thesis by (subst step_back.simps) (simp add: branch_child)
  qed
qed

text \<open>
  After \<open>m\<close> hashes the step is \<open>2 ^ (m - 10)\<close> and the height has fallen by the sum of the steps, so
  the height is 0 before the step could wrap.
\<close>

definition locator_measure :: "nat \<Rightarrow> u64 \<Rightarrow> nat \<Rightarrow> bool" where
  "locator_measure m step h \<longleftrightarrow> (h = 0 \<and> m \<le> 73) \<or> (m \<le> 10 \<and> step = 1 \<and> h + m < 2 ^ 64)
     \<or> (10 < m \<and> m < 73 \<and> unat step = 2 ^ (m - 10) \<and> h + 2 ^ (m - 9) < 2 ^ 64)"

lemma locator_measure_step:
  assumes "locator_measure m step h" and "h \<noteq> 0"
  defines "step' \<equiv> if m + 1 > 10 then step * 2 else step"
  shows "0 < unat step'" and "locator_measure (m + 1) step' (h - unat step')"
proof -
  from assms(1,2) consider (low) "m < 10" "step = 1" "h + m < 2 ^ 64"
    | (ten) "m = 10" "step = 1" "h + m < 2 ^ 64"
    | (high) "10 < m" "m < 73" "unat step = 2 ^ (m - 10)" "h + 2 ^ (m - 9) < 2 ^ 64"
    unfolding locator_measure_def by fastforce
  then have "0 < unat step' \<and> locator_measure (m + 1) step' (h - unat step')"
  proof cases
    case low
    then show ?thesis using assms(2) by (simp add: step'_def locator_measure_def)
  next
    case ten
    then show ?thesis using assms(2) by (simp add: step'_def locator_measure_def) linarith
  next
    case high
    have e: "(2 :: nat) ^ (m - 9) = 2 * 2 ^ (m - 10)" "(2 :: nat) ^ (m - 8) = 2 * 2 ^ (m - 9)"
      using high(1) by (simp_all add: Suc_diff_le[symmetric] numeral_eq_Suc flip: power_Suc)
    have lt: "(2 :: nat) ^ (m - 9) < 2 ^ 64" using high(4) by linarith
    have s: "unat (step * 2) = 2 ^ (m - 9)"
      using high(3) lt e(1) by (simp add: unat_word_ariths mult.commute)
    have p: "(0 :: nat) < 2 ^ (m - 9)" by simp
    show ?thesis
    proof (cases "h \<le> 2 ^ (m - 9)")
      case True
      then show ?thesis using high s p by (simp add: step'_def locator_measure_def)
    next
      case False
      have "m + 1 < 73"
      proof (rule ccontr)
        assume "\<not> m + 1 < 73"
        then have "m = 72" using high(2) by simp
        with high(4) False show False by simp
      qed
      moreover have "h - 2 ^ (m - 9) + 2 ^ (m - 8) < 2 ^ 64" using False high(4) e(2) by linarith
      ultimately show ?thesis using high(1) s p False
        by (simp add: step'_def locator_measure_def Suc_diff_le)
    qed
  qed
  then show "0 < unat step'" and "locator_measure (m + 1) step' (h - unat step')" by simp_all
qed

lemma locator_measure_length: "locator_measure m step h \<Longrightarrow> m \<le> 73"
  by (auto simp: locator_measure_def)

lemma locator_loop_result:
  assumes inv: "tree_inv E B"
  shows "map_of B k = Some e \<Longrightarrow> locator_measure (length out) step (unat (Height (e_block e)))
    \<Longrightarrow> \<exists>hs. locator_loop E B out step (Some e) = Some (out @ hs) \<and> hs \<noteq> [] \<and> hd hs = e_hash e
       \<and> last hs = genesisHash E \<and> set hs \<subseteq> e_hash ` set (branch B e) \<and> length (out @ hs) \<le> 74"
proof (induction "unat (Height (e_block e))" arbitrary: k e out step rule: less_induct)
  case less
  let ?h = "unat (Height (e_block e))"
  show ?case
  proof (cases "Height (e_block e) = 0")
    case True
    have self: "e_hash e \<in> e_hash ` set (branch B e)" by (rule imageI) simp
    have g: "e_hash e = genesisHash E"
      using tree_genesis(1)[OF inv less.prems(1) True] tree_invD(1)[OF inv less.prems(1)] by simp
    have "locator_loop E B out step (Some e) = Some (out @ [e_hash e])"
      using True by (subst locator_loop.simps) simp
    with g self locator_measure_length[OF less.prems(2)] show ?thesis
      by (intro exI[of _ "[e_hash e]"]) simp
  next
    case False
    let ?step = "if length out + 1 > 10 then step * 2 else step"
    have h0: "?h \<noteq> 0" using False by (simp add: unat_eq_zero)
    note m = locator_measure_step[OF less.prems(2) h0]
    from step_back_result[OF inv less.prems(1), of "unat ?step"] obtain e' where
      e': "step_back B (unat ?step) (Some e) = Some e'" "e' \<in> set (branch B e)" "unat (Height (e_block e')) = ?h - unat ?step"
      by blast
    have lt: "unat (Height (e_block e')) < ?h" using e'(3) m(1) h0 by simp
    have me: "map_of B (e_hash e') = Some e'" by (rule branch_subset[OF inv less.prems(1) e'(2)])
    have "locator_measure (length (out @ [e_hash e])) ?step (unat (Height (e_block e')))"
      using m(2) e'(3) by simp
    from less.hyps[OF lt me this] obtain hs where
      hs: "locator_loop E B (out @ [e_hash e]) ?step (Some e') = Some ((out @ [e_hash e]) @ hs)" "hs \<noteq> []"
      "last hs = genesisHash E" "set hs \<subseteq> e_hash ` set (branch B e')" "length ((out @ [e_hash e]) @ hs) \<le> 74" by blast
    have "locator_loop E B out step (Some e) = locator_loop E B (out @ [e_hash e]) ?step (Some e')"
      using False e'(1) by (subst locator_loop.simps) (simp only: option.case if_False)
    moreover have "set hs \<subseteq> e_hash ` set (branch B e)"
      using branch_split[OF inv less.prems(1) e'(2)] hs(4) by auto
    ultimately show ?thesis using hs by (intro exI[of _ "e_hash e # hs"]) auto
  qed
qed

lemma locator_start_measure: "locator_measure 0 1 (unat (x :: u64))"
  using unat_u64_less[of x] by (simp add: locator_measure_def)

lemma locatorLocked_Some:
  assumes "tree_inv E B" and "map_of B k = Some e"
  shows "\<exists>hs. locatorLocked E B (Some e) = Ret hs \<and> hs \<noteq> [] \<and> hd hs = e_hash e
     \<and> last hs = genesisHash E \<and> set hs \<subseteq> e_hash ` set (branch B e) \<and> length hs \<le> 74"
  using locator_loop_result[OF assms, of "[]" 1] locator_start_measure by (auto simp: locatorLocked_def)

lemma locatorLocked_returns:
  assumes "tree_inv E B" and "\<forall>e. cur = Some e \<longrightarrow> (\<exists>k. map_of B k = Some e)"
  shows "\<exists>hs. locatorLocked E B cur = Ret hs"
proof (cases cur)
  case None
  then show ?thesis by (simp add: locatorLocked_def)
next
  case (Some e)
  with assms locatorLocked_Some[OF assms(1)] show ?thesis by blast
qed

lemma tip_in_tree: "node_inv E n \<Longrightarrow> n_tip n = Some t \<Longrightarrow> map_of (n_blocks n) (e_hash t) = Some t"
  using node_invD(4) by (fastforce simp: tip_ok_def)

lemma tipLocator_returns: "node_inv E n \<Longrightarrow> \<exists>hs. tipLocator E n = Ret hs"
  unfolding tipLocator_def
  by (rule locatorLocked_returns[OF node_invD(1)]) (auto dest: tip_in_tree)

subsection \<open>Handlers\<close>

lemma insertBlockLocked_result:
  assumes "params_ok (en_params E)" and "node_inv E n" and "wire_ok b"
  shows "\<exists>err n'. insertBlockLocked E b fd an ex n = Ret (err, n') \<and> node_inv E n' \<and> n_booting n' = n_booting n
     \<and> forward n n' \<and> orphan_count n' \<le> max maxOrphans (orphan_count n)"
  using insertBlock_result[OF assms, of "Suc (orphan_count n)" fd an ex]
  by (auto simp: insertBlockLocked_def insert_result_def)

lemma sendGetBlocks_ok [simp]: "node_inv E (sendGetBlocks p hs n) = node_inv E n"
  by (simp add: sendGetBlocks_def emit_def)

lemma emit_ok [simp]: "node_inv E (emit ev n) = node_inv E n"
  by (simp add: emit_def)

lemma acceptRemoteBlock_ok:
  assumes "params_ok (en_params E)" and "node_inv E n" and "wire_ok b"
  shows "\<exists>a n'. acceptRemoteBlock E b p an n = Ret (a, n') \<and> node_inv E n'"
proof (cases "map_of (n_blocks n) (block_Hash b) \<noteq> None \<or> block_Hash b \<in> n_rejected n")
  case True
  with assms show ?thesis by (intro exI[of _ False]) (simp add: acceptRemoteBlock_def Let_def)
next
  case False
  from insertBlockLocked_result[OF assms, of False an "Dial p"] obtain err n' where
    i: "insertBlockLocked E b False an (Dial p) n = Ret (err, n')" "node_inv E n'" by blast
  have "\<exists>hs. locatorLocked E (n_blocks n') (n_tip n') = Ret hs"
    using tipLocator_returns[OF i(2)] by (simp add: tipLocator_def)
  with False i show ?thesis by (cases err) (auto simp: acceptRemoteBlock_def Let_def)
qed

definition blocks_wire_ok :: "block option list \<Rightarrow> bool" where
  "blocks_wire_ok qs \<longleftrightarrow> list_all (\<lambda>q. case q of None \<Rightarrow> False | Some b \<Rightarrow> wire_ok b) qs"

lemma accept_loop_ok:
  assumes "params_ok (en_params E)"
  shows "node_inv E n \<Longrightarrow> blocks_wire_ok qs \<Longrightarrow> \<exists>a d n'. accept_loop E p qs acc dp n = Ret (a, d, n') \<and> node_inv E n'"
proof (induction qs arbitrary: acc dp n)
  case (Cons q qs)
  then obtain b where q: "q = Some b" "wire_ok b" "blocks_wire_ok qs" by (auto simp: blocks_wire_ok_def split: option.splits)
  from acceptRemoteBlock_ok[OF assms Cons.prems(1) q(2)] obtain a n' where
    "acceptRemoteBlock E b p False n = Ret (a, n')" "node_inv E n'" by blast
  with Cons.IH[OF _ q(3)] q(1) show ?case by simp
qed simp

lemma onBlocks_ok:
  assumes "params_ok (en_params E)" and "node_inv E n" and "blocks_wire_ok qs"
  shows "\<exists>n'. onBlocks E p (Some qs) n = Ret n' \<and> node_inv E n'"
proof -
  from accept_loop_ok[OF assms, of p 0 0] obtain a d n' where
    l: "accept_loop E p qs 0 0 n = Ret (a, d, n')" "node_inv E n'" by blast
  have "\<exists>hs. locatorLocked E (n_blocks n') (case map_of (n_blocks n') d of None \<Rightarrow> n_tip n' | Some e \<Rightarrow> Some e) = Ret hs"
    by (rule locatorLocked_returns[OF node_invD(1)[OF l(2)]])
      (auto dest: tip_in_tree[OF l(2)] split: option.splits)
  with assms(2) l show ?thesis by (auto simp: onBlocks_def)
qed

lemma onNewBlock_ok:
  assumes "params_ok (en_params E)" and "node_inv E n" and "wire_ok b"
  shows "\<exists>n'. onNewBlock E p (Some (Some b)) n = Ret n' \<and> node_inv E n'"
  using acceptRemoteBlock_ok[OF assms, of p True] by (auto simp: onNewBlock_def)

lemma AddTx_inv:
  assumes "params_ok (en_params E)" and "node_inv E n"
  shows "\<exists>err n'. AddTx E t ex n = Ret (err, n') \<and> node_inv E n'"
  using AddTx_ok[OF node_invD(6)[OF assms(2)] node_state_small[OF assms], of t ex] same_chain_inv[OF assms(2)] by blast

lemma mempool_loop_ok:
  assumes "params_ok (en_params E)"
  shows "node_inv E n \<Longrightarrow> \<exists>n'. mempool_loop E p qs n = Ret n' \<and> node_inv E n'"
proof (induction qs arbitrary: n)
  case (Cons q qs)
  show ?case
  proof (cases q)
    case (Some t)
    from AddTx_inv[OF assms Cons.prems, of t "Dial p"] obtain err n' where
      "AddTx E t (Dial p) n = Ret (err, n')" "node_inv E n'" by blast
    with Cons.IH Some show ?thesis by simp
  qed (use Cons in simp)
qed simp

text \<open>A message the analysis covers: its blocks are neither null nor carry a null transaction.\<close>

definition message_ok :: "message \<Rightarrow> bool" where
  "message_ok msg \<longleftrightarrow> (case msg of MsgBlocks qs \<Rightarrow> blocks_wire_ok qs
     | MsgNewBlock (Some b) \<Rightarrow> wire_ok b | _ \<Rightarrow> True)"

lemma onMessage_ok:
  assumes "params_ok (en_params E)" and "node_inv E n" and "message_ok msg"
  shows "\<exists>n'. onMessage E p msg n = Ret n' \<and> node_inv E n'"
proof (cases msg)
  case (MsgGetBlocks hs c)
  with assms(2) show ?thesis by (simp add: onMessage_def onGetBlocks_def Let_def)
next
  case (MsgBlocks qs)
  with assms onBlocks_ok[OF assms(1,2)] show ?thesis by (simp add: onMessage_def message_ok_def)
next
  case (MsgNewBlock q)
  with assms onNewBlock_ok[OF assms(1,2)] show ?thesis
    by (cases q) (simp_all add: onMessage_def message_ok_def onNewBlock_def[of _ _ "Some None"])
next
  case (MsgNewTx q)
  show ?thesis
  proof (cases q)
    case None
    with MsgNewTx assms(2) show ?thesis by (simp add: onMessage_def onNewTx_def)
  next
    case (Some t)
    with MsgNewTx AddTx_inv[OF assms(1,2), of t "Dial p"] show ?thesis by (auto simp: onMessage_def onNewTx_def)
  qed
next
  case MsgGetMempool
  with assms(2) show ?thesis by (simp add: onMessage_def onGetMempool_def Let_def)
next
  case (MsgMempool qs)
  with mempool_loop_ok[OF assms(1,2), of p qs] show ?thesis by (simp add: onMessage_def onMempool_def)
qed

end
