(* ===== verification/NodeRun.thy ===== *)
theory NodeRun
  imports SyncSafe
begin

text \<open>
  A running node: it starts from an empty block file or from one that begins with the genesis
  block, and then serves requests in the order in which they take its mutex. Every node it can
  become satisfies the invariant, and every request returns.
\<close>

subsection \<open>Start\<close>

definition genesis_entry :: "env \<Rightarrow> blockEntry" where
  "genesis_entry E = \<lparr> e_block = Genesis (en_params E), e_hash = genesisHash E, e_work = 0 \<rparr>"

lemma genesis_entry_sel [simp]:
  "e_block (genesis_entry E) = Genesis (en_params E)" "e_hash (genesis_entry E) = genesisHash E" "e_work (genesis_entry E) = 0"
  by (simp_all add: genesis_entry_def)

text \<open>The node once the genesis block is in its tree, before a tip is selected.\<close>

definition seeded :: "env \<Rightarrow> bool \<Rightarrow> node" where
  "seeded E bt = empty_node\<lparr>n_booting := bt, n_blocks := [(genesisHash E, genesis_entry E)],
     n_chainHeights := (\<lambda>_. None)(0 \<mapsto> genesisHash E)\<rparr>"

lemma insert_genesis:
  "insertBlockLocked E (Genesis (en_params E)) fd an ex (empty_node\<lparr>n_booting := True\<rparr>) = Ret (None, seeded E True)"
  by (simp add: insertBlockLocked_def empty_node_def Let_def genesisHash_def[symmetric] store_entry_def seeded_def genesis_entry_def)

lemma seeded_inv:
  assumes "genesisHash E \<noteq> 0"
  shows "node_inv E (seeded E bt)"
proof -
  have "tree_inv E [(genesisHash E, genesis_entry E)]"
    using assms by (auto simp: tree_inv_def keys_ok_def entry_ok_def Let_def genesisHash_def split: if_splits)
  then show ?thesis
    by (simp add: node_inv_def seeded_def empty_node_def checkpoints_ok_def tip_ok_def orphans_ok_def pool_inv_def)
qed

lemma load_loop_ok:
  assumes "params_ok (en_params E)"
  shows "node_inv E n \<Longrightarrow> \<forall>b \<in> set bs. wire_ok b \<Longrightarrow> \<exists>err n'. load_loop E bs n = Ret (err, n') \<and> node_inv E n'"
proof (induction bs arbitrary: n)
  case (Cons b bs)
  from Cons.prems(2) have "wire_ok b" by simp
  from insertBlockLocked_result[OF assms Cons.prems(1) this, of True False "''''"] obtain err n' where
    "insertBlockLocked E b True False '''' n = Ret (err, n')" "node_inv E n'" by blast
  with Cons show ?case by (cases err) auto
qed auto

text \<open>What a block file may hold: nothing, or the genesis block and then blocks without null transactions.\<close>

definition stored_ok :: "env \<Rightarrow> block list \<Rightarrow> bool" where
  "stored_ok E loaded \<longleftrightarrow> (case loaded of [] \<Rightarrow> True | b # bs \<Rightarrow> b = Genesis (en_params E) \<and> list_all wire_ok bs)"

lemma boot_blocks_ok:
  assumes "params_ok (en_params E)" and "genesisHash E \<noteq> 0" and "stored_ok E loaded"
  shows "\<exists>err n. boot_blocks E loaded (empty_node\<lparr>n_booting := True\<rparr>) = Ret (err, n) \<and> node_inv E n"
proof (cases loaded)
  case Nil
  with seeded_inv[OF assms(2), of True] show ?thesis
    by (cases "en_disk E (n_ticks (seeded E True))")
      (simp_all add: boot_blocks_def insert_genesis appendBlock_def Let_def)
next
  case (Cons b bs)
  with assms(3) have b: "b = Genesis (en_params E)" and w: "\<forall>b \<in> set bs. wire_ok b"
    by (auto simp: stored_ok_def list_all_iff)
  from load_loop_ok[OF assms(1) seeded_inv[OF assms(2)] w] Cons b show ?thesis
    by (simp add: boot_blocks_def insert_genesis)
qed

lemma New_ok:
  assumes "params_ok (en_params E)" and "genesisHash E \<noteq> 0" and "stored_ok E loaded"
  shows "\<exists>err n. New E loaded = Ret (err, n) \<and> node_inv E n"
proof -
  from boot_blocks_ok[OF assms] obtain err n where
    b: "boot_blocks E loaded (empty_node\<lparr>n_booting := True\<rparr>) = Ret (err, n)" "node_inv E n" by blast
  show ?thesis
  proof (cases err)
    case None
    have "node_inv E (n\<lparr>n_booting := False\<rparr>)" using b(2) by simp
    from selectTip_result[OF assms(1) this] obtain n' where
      "selectTip E (n\<lparr>n_booting := False\<rparr>) = Ret n'" "node_inv E n'" by blast
    with b None show ?thesis by (simp add: New_def)
  qed (use b in \<open>simp add: New_def\<close>)
qed

subsection \<open>Requests\<close>

datatype request =
    Submit block
  | AddTransaction tx string
  | SendPayment address u64 u64
  | Candidate address
  | Deliver peer message
  | Connect peer
  | SyncTick
  | Subscribe
  | Unsubscribe nat
  | Shutdown

definition serve :: "env \<Rightarrow> request \<Rightarrow> node \<Rightarrow> node run" where
  "serve E r n = (case r of
     Submit b \<Rightarrow> run_bind (SubmitSolution E b n) (\<lambda>(err, n). Ret n)
   | AddTransaction t ex \<Rightarrow> run_bind (AddTx E t ex n) (\<lambda>(err, n). Ret n)
   | SendPayment a amount fee \<Rightarrow> run_bind (Send E a amount fee n) (\<lambda>(res, n). Ret n)
   | Candidate miner \<Rightarrow> run_bind (BuildCandidate E miner n) (\<lambda>(b, n). Ret n)
   | Deliver p msg \<Rightarrow> onMessage E p msg n
   | Connect p \<Rightarrow> onPeerConnect E p n
   | SyncTick \<Rightarrow> run_bind (sync_tick E n) (\<lambda>res. Ret (case res of None \<Rightarrow> n | Some n \<Rightarrow> n))
   | Subscribe \<Rightarrow> Ret (snd (snd (SubscribeTips n)))
   | Unsubscribe ch \<Rightarrow> Ret (cancelTips ch n)
   | Shutdown \<Rightarrow> Ret (Stop n))"

text \<open>
  A well-formed request: no block it carries hashes to zero or has a null transaction, and no block of a batch
  is null. What the handlers skip themselves (a null block or transaction announced alone, null transactions of
  a mempool) is allowed.
\<close>

definition request_ok :: "request \<Rightarrow> bool" where
  "request_ok r \<longleftrightarrow> (case r of Submit b \<Rightarrow> wire_ok b | Deliver p msg \<Rightarrow> message_ok msg | _ \<Rightarrow> True)"

definition env_ok :: "env \<Rightarrow> bool" where
  "env_ok E \<longleftrightarrow> params_ok (en_params E) \<and> 1 \<le> MaxTxsPerBlock (en_params E) \<and> genesisHash E \<noteq> 0"

lemma Send_ok:
  assumes "params_ok (en_params E)" and "node_inv E n"
  shows "\<exists>res n'. Send E a amount fee n = Ret (res, n') \<and> node_inv E n'"
proof (cases "en_wallet E")
  case None
  with assms(2) show ?thesis by (simp add: Send_def)
next
  case (Some w)
  show ?thesis
  proof (cases "Valid a")
    case False
    with Some assms(2) show ?thesis by (simp add: Send_def)
  next
    case True
    from pendingState_ok[OF node_invD(6)[OF assms(2)] node_state_small[OF assms]] obtain ps where
      ps: "pendingState n = Ret (ps, n\<lparr>n_pending := Some ps, n_pendingDirty := False\<rparr>)" "small ps" by blast
    let ?n = "n\<lparr>n_pending := Some ps, n_pendingDirty := False, n_ticks := Suc (n_ticks n)\<rparr>"
    have "same_chain n ?n" "pool_inv E ?n"
      using ps(2) node_invD(6)[OF assms(2)] by (simp_all add: same_chain_def pool_inv_def)
    then have inv': "node_inv E ?n" by (rule same_chain_inv[OF assms(2)])
    obtain t where t: "build_send E w a amount fee n = Ret (t, ?n)"
      using ps(1) by (simp add: build_send_def nowMs_def Let_def)
    from AddTx_inv[OF assms(1) inv', of t "''''"] obtain err n' where "AddTx E t '''' ?n = Ret (err, n')" "node_inv E n'"
      by blast
    with Some True t show ?thesis by (cases err) (simp_all add: Send_def)
  qed
qed

lemma tipSubs_inv [simp]: "node_inv E (n\<lparr>n_tipSubs := subs\<rparr>) = node_inv E n"
  by (cases "n_tip n") (simp_all add: node_inv_def tip_ok_def orphans_ok_def pool_inv_def)

lemma BuildCandidate_ok:
  assumes "env_ok E" and "node_inv E n"
  shows "\<exists>b n'. BuildCandidate E miner n = Ret (b, n') \<and> node_inv E n'"
proof (cases "n_tip n")
  case None
  with assms(2) show ?thesis by (simp add: BuildCandidate_def)
next
  case (Some t)
  from assms(1) have "params_ok (en_params E)" "1 \<le> MaxTxsPerBlock (en_params E)" by (simp_all add: env_ok_def)
  from BuildCandidate_result[OF this(1) assms(2) this(2) Some, of miner] show ?thesis by metis
qed

lemma serve_ok:
  assumes "env_ok E" and "node_inv E n" and "request_ok r"
  shows "\<exists>n'. serve E r n = Ret n' \<and> node_inv E n'"
proof -
  have ok: "params_ok (en_params E)" using assms(1) by (simp add: env_ok_def)
  show ?thesis
  proof (cases r)
    case (Submit b)
    with assms(3) have "wire_ok b" by (simp add: request_ok_def)
    from insertBlockLocked_result[OF ok assms(2) this, of False True "''''"] Submit show ?thesis
      by (auto simp: serve_def SubmitSolution_def)
  next
    case (AddTransaction t ex)
    with AddTx_inv[OF ok assms(2), of t ex] show ?thesis by (auto simp: serve_def)
  next
    case (SendPayment a amount fee)
    with Send_ok[OF ok assms(2), of a amount fee] show ?thesis by (auto simp: serve_def)
  next
    case (Candidate miner)
    with BuildCandidate_ok[OF assms(1,2), of miner] show ?thesis by (auto simp: serve_def)
  next
    case (Deliver p msg)
    with onMessage_ok[OF ok assms(2), of msg p] assms(3) show ?thesis by (simp add: serve_def request_ok_def)
  next
    case (Connect p)
    from tipLocator_returns[OF assms(2)] obtain hs where "tipLocator E n = Ret hs" by blast
    with Connect assms(2) show ?thesis by (simp add: serve_def onPeerConnect_def)
  next
    case SyncTick
    from tipLocator_returns[OF assms(2)] obtain hs where "tipLocator E n = Ret hs" by blast
    with SyncTick assms(2) show ?thesis by (simp add: serve_def sync_tick_def)
  qed (use assms(2) in \<open>simp_all add: serve_def SubscribeTips_def cancelTips_def Stop_def Let_def\<close>)
qed

subsection \<open>Reachable nodes\<close>

text \<open>The nodes a start and any sequence of well-formed requests lead to.\<close>

inductive reachable :: "env \<Rightarrow> node \<Rightarrow> bool" for E where
  start: "stored_ok E loaded \<Longrightarrow> New E loaded = Ret (None, n) \<Longrightarrow> reachable E n"
| serve: "reachable E n \<Longrightarrow> request_ok r \<Longrightarrow> serve E r n = Ret n' \<Longrightarrow> reachable E n'"

inductive_cases reachableE: "reachable E n"

lemma reachable_inv:
  assumes "env_ok E" and "reachable E n"
  shows "node_inv E n"
  using assms(2)
proof induction
  case (start loaded n)
  from assms(1) New_ok[of E loaded] start show ?case by (auto simp: env_ok_def)
next
  case (serve n r n')
  from serve_ok[OF assms(1) serve.IH serve.hyps(2)] serve.hyps(3) show ?case by auto
qed

subsection \<open>Sequences of requests\<close>

primrec serve_all :: "env \<Rightarrow> request list \<Rightarrow> node \<Rightarrow> node run" where
  "serve_all E [] n = Ret n"
| "serve_all E (r # rs) n = run_bind (serve E r n) (serve_all E rs)"

end
