(* ===== verification/NodeFacts.thy ===== *)
theory NodeFacts
  imports NodeRun
begin

text \<open>
  What the invariant says of the active chain of a reachable node, in the terms of the code: the
  path \<open>pathToGenesis\<close> returns, the map of heights and the balances. The properties of the whole
  node rest on these lemmas.
\<close>

subsection \<open>The active chain\<close>

definition active_chain :: "node \<Rightarrow> block list" where
  "active_chain n = (case n_tip n of None \<Rightarrow> [] | Some t \<Rightarrow>
     (case pathToGenesis (n_blocks n) t of Ret path \<Rightarrow> map e_block (rev path) | _ \<Rightarrow> []))"

lemma active_chain_None [simp]: "n_tip n = None \<Longrightarrow> active_chain n = []"
  by (simp add: active_chain_def)

lemma env_okD: "env_ok E \<Longrightarrow> params_ok (en_params E)" "env_ok E \<Longrightarrow> 1 \<le> MaxTxsPerBlock (en_params E)"
  by (simp_all add: env_ok_def)

lemma tip_entry:
  assumes "node_inv E n" and "n_tip n = Some t"
  shows "map_of (n_blocks n) (e_hash t) = Some t" and "valid_at E (n_blocks n) t (n_state n)"
    and "n_chainHeights n = index_heights (branch (n_blocks n) t) (\<lambda>_. None)"
    and "active_chain n = map e_block (branch (n_blocks n) t)"
proof -
  from assms show t: "map_of (n_blocks n) (e_hash t) = Some t" and "valid_at E (n_blocks n) t (n_state n)"
    and "n_chainHeights n = index_heights (branch (n_blocks n) t) (\<lambda>_. None)"
    using node_invD(4)[OF assms(1)] by (simp_all add: tip_ok_def)
  from pathToGenesis_eq[OF node_invD(1)[OF assms(1)] t] assms(2)
  show "active_chain n = map e_block (branch (n_blocks n) t)" by (simp add: active_chain_def)
qed

lemma active_chain_replays:
  assumes "node_inv E n"
  shows "replay (en_ed E) (en_params E) (active_chain n) state_New = Ret (None, n_state n)"
proof (cases "n_tip n")
  case None
  then show ?thesis using node_invD(4)[OF assms] by (simp add: tip_ok_def)
next
  case (Some t)
  from tip_entry(2,4)[OF assms this] show ?thesis by (simp add: valid_at_def branch_replay_def)
qed

lemma active_chain_ascending:
  assumes "node_inv E n"
  shows "ascending (active_chain n)" and "list_all no_nil (active_chain n)"
proof -
  have "ascending (active_chain n) \<and> list_all no_nil (active_chain n)"
  proof (cases "n_tip n")
    case (Some t)
    note facts = tip_entry[OF assms Some] and tree = node_invD(1)[OF assms]
    from branch_ascending[OF tree facts(1)] branch_no_nil[OF tree facts(1)] show ?thesis
      by (auto simp: facts(4) list_all_iff)
  qed (simp add: ascending_def)
  then show "ascending (active_chain n)" and "list_all no_nil (active_chain n)" by simp_all
qed

lemma length_active_chain:
  assumes "node_inv E n" and "n_tip n = Some t"
  shows "length (active_chain n) = Suc (unat (Height (e_block t)))"
  using length_branch[OF node_invD(1)[OF assms(1)] tip_entry(1)[OF assms]] tip_entry(4)[OF assms] by simp

subsection \<open>Its supply\<close>

lemma active_chain_supply:
  assumes "params_ok (en_params E)" and "node_inv E n"
  shows "total_supply (n_state n) = (\<Sum>h \<in> {0<..<length (active_chain n)}. reward_nat (en_params E) h)"
proof (cases "n_tip n")
  case None
  then show ?thesis using node_invD(4)[OF assms(2)] by (simp add: tip_ok_def)
next
  case (Some t)
  note facts = tip_entry[OF assms(2) Some]
  from valid_at_supply(1)[OF assms(1) node_invD(1)[OF assms(2)] facts(1,2)]
  show ?thesis using rewards_ascending[OF active_chain_ascending(1)[OF assms(2)]] by (simp add: facts(4))
qed

text \<open>The sum \<open>Info\<close> reports does not wrap as long as the total fits the word.\<close>

lemma sum_balances_exact:
  "unat acc + total_supply s < 2 ^ 64 \<Longrightarrow> unat (sum_balances s acc) = unat acc + total_supply s"
proof (induction s arbitrary: acc)
  case (Cons kv s)
  obtain a acct where kv: "kv = (a, acct)" by fastforce
  from Cons.prems have "unat acc + unat (Balance acct) < 2 ^ 64" by (simp add: kv)
  then have "unat (acc + Balance acct) = unat acc + unat (Balance acct)" by (rule unat_add_exact)
  with Cons show ?case by (simp add: kv)
qed simp

lemma total_supply_Accounts [simp]: "total_supply (Accounts s) = total_supply s"
  by (induction s) (auto simp: Accounts_def)

lemma Info_supply:
  assumes "params_ok (en_params E)" and "node_inv E n" and "Info E peers rate n = Ret i"
  shows "unat (i_Supply i) = total_supply (n_state n)"
proof -
  have "small (n_state n)" by (rule node_state_small[OF assms(1,2)])
  then have "unat (sum_balances (Accounts (n_state n)) 0) = total_supply (n_state n)"
    using sum_balances_exact[of 0 "Accounts (n_state n)"] by (simp add: small_def)
  with assms(3) show ?thesis by (auto simp: Info_def Let_def run_bind_eq_Ret)
qed

lemma Info_returns:
  assumes "params_ok (en_params E)"
  shows "\<exists>i. Info E peers rate n = Ret i"
proof -
  have "returns (RewardAt (en_params E) (TipHeight n + 1))"
    using assms by (intro RewardAt_returns) (simp add: params_ok_def)
  then obtain r where "RewardAt (en_params E) (TipHeight n + 1) = Ret r" by (rule returnsE)
  then show ?thesis by (simp add: Info_def Let_def)
qed

subsection \<open>The map of heights\<close>

lemma index_heights_snoc: "index_heights (xs @ [y]) m = (index_heights xs m)(Height (e_block y) \<mapsto> e_hash y)"
  by (induction xs arbitrary: m) simp_all

lemma index_heights_nth:
  assumes "map (\<lambda>x. unat (Height (e_block x))) path = [0..<length path]"
  shows "index_heights path (\<lambda>_. None) h = (if unat h < length path then Some (e_hash (path ! unat h)) else None)"
  using assms
proof (induction path rule: rev_induct)
  case (snoc y path)
  from snoc.prems have "map (\<lambda>x. unat (Height (e_block x))) path = [0..<length path]"
    and y: "unat (Height (e_block y)) = length path" by simp_all
  then have "h = Height (e_block y) \<longleftrightarrow> unat h = length path" by (metis word_unat_eq_iff)
  with snoc y show ?case by (auto simp: index_heights_snoc nth_append less_Suc_eq)
qed simp

lemma chain_height:
  assumes "node_inv E n" and "n_tip n = Some t"
  shows "n_chainHeights n h = (if h \<le> Height (e_block t) then Some (e_hash (branch (n_blocks n) t ! unat h)) else None)"
proof -
  note tree = node_invD(1)[OF assms(1)] and facts = tip_entry[OF assms]
  have len: "length (branch (n_blocks n) t) = Suc (unat (Height (e_block t)))" using length_branch[OF tree facts(1)] .
  have "map (\<lambda>x. unat (Height (e_block x))) (branch (n_blocks n) t) = [0..<length (branch (n_blocks n) t)]"
    using branch_heights[OF tree facts(1)] len by simp
  from index_heights_nth[OF this, of h] show ?thesis
    by (simp add: facts(3) len word_le_nat_alt less_Suc_eq_le)
qed

end
