(* ===== verification/ShaEval.thy ===== *)
theory ShaEval
  imports Sha256
begin

text \<open>
  An equivalent form of the SHA-256 compressor that the simplifier evaluates quickly: the message
  schedule is a window of sixteen words that slides along the rounds, and words are integers. It
  gives the hash of a concrete header in the kernel; nothing of the model is defined by it.
\<close>

subsection \<open>A sliding window instead of the schedule\<close>

fun window_next :: "u32 list \<Rightarrow> u32 list" where
  "window_next [w0, w1, w2, w3, w4, w5, w6, w7, w8, w9, w10, w11, w12, w13, w14, w15] =
     [w1, w2, w3, w4, w5, w6, w7, w8, w9, w10, w11, w12, w13, w14, w15,
      w0 + (RotateLeft32 w1 (- 7) XOR RotateLeft32 w1 (- 18) XOR drop_bit 3 w1)
         + w9 + (RotateLeft32 w14 (- 17) XOR RotateLeft32 w14 (- 19) XOR drop_bit 10 w14)]"
| "window_next w = w"

text \<open>The schedule after \<open>n\<close> steps, and its last sixteen words.\<close>

definition schedule_upto :: "u32 list \<Rightarrow> nat \<Rightarrow> u32 list" where
  "schedule_upto w n = foldl schedule_step w [16..<16 + n]"

definition window :: "u32 list \<Rightarrow> nat \<Rightarrow> u32 list" where
  "window w n = drop n (schedule_upto w n)"

lemma schedule_upto_0 [simp]: "schedule_upto w 0 = w"
  by (simp add: schedule_upto_def)

lemma schedule_upto_Suc: "schedule_upto w (Suc n) = schedule_step (schedule_upto w n) (16 + n)"
proof -
  have "[16..<16 + Suc n] = [16..<16 + n] @ [16 + n]" by (metis add_Suc_right le_add1 upt_Suc_append)
  then show ?thesis by (simp only: schedule_upto_def foldl_append foldl.simps)
qed

lemma length_schedule_upto: "length w = 16 \<Longrightarrow> length (schedule_upto w n) = 16 + n"
  by (induction n) (simp_all add: schedule_upto_Suc schedule_step_def Let_def)

lemma schedule_upto_prefix:
  assumes "length w = 16" and "m \<le> n" and "i < 16 + m"
  shows "schedule_upto w n ! i = schedule_upto w m ! i"
  using assms(2)
proof (induction n rule: dec_induct)
  case (step n)
  then show ?case
    using assms(1,3) by (simp add: schedule_upto_Suc schedule_step_def Let_def nth_append length_schedule_upto)
qed simp

lemma list16:
  assumes "length xs = 16"
  shows "xs = [xs!0, xs!1, xs!2, xs!3, xs!4, xs!5, xs!6, xs!7, xs!8, xs!9, xs!10, xs!11, xs!12, xs!13, xs!14, xs!15]"
  using assms by (auto simp: list_eq_iff_nth_eq nth_Cons' less_Suc_eq numeral_eq_Suc)

lemma window_Suc:
  assumes "length w = 16"
  shows "window w (Suc n) = window_next (window w n)"
proof -
  let ?s = "schedule_upto w n"
  have l: "length ?s = 16 + n" using assms by (rule length_schedule_upto)
  have nth: "window w n ! k = ?s ! (n + k)" if "k < 16" for k
    using l that by (simp add: window_def)
  have len: "length (window w n) = 16" using l by (simp add: window_def)
  have "window w (Suc n) = tl (window w n) @ [?s ! n
      + (RotateLeft32 (?s ! (n + 1)) (- 7) XOR RotateLeft32 (?s ! (n + 1)) (- 18) XOR drop_bit 3 (?s ! (n + 1)))
      + ?s ! (n + 9)
      + (RotateLeft32 (?s ! (n + 14)) (- 17) XOR RotateLeft32 (?s ! (n + 14)) (- 19) XOR drop_bit 10 (?s ! (n + 14)))]"
    using l by (simp add: window_def schedule_upto_Suc schedule_step_def Let_def drop_Suc tl_drop add.commute)
  also have "\<dots> = window_next (window w n)"
    by (subst (1 2) list16[OF len]) (simp add: nth)
  finally show ?thesis .
qed

fun window_rounds :: "u32 list \<Rightarrow> u32 list \<Rightarrow> regs \<Rightarrow> regs" where
  "window_rounds [] w r = r"
| "window_rounds (k # ks) w (a, b, c, d, e, f, g, hh) = (let
     t1 = hh + (RotateLeft32 e (- 6) XOR RotateLeft32 e (- 11) XOR RotateLeft32 e (- 25))
            + ((e AND f) XOR (NOT e AND g)) + k + w ! 0;
     t2 = (RotateLeft32 a (- 2) XOR RotateLeft32 a (- 13) XOR RotateLeft32 a (- 22))
            + ((a AND b) XOR (a AND c) XOR (b AND c))
   in window_rounds ks (window_next w) (t1 + t2, a, b, c, d + t1, e, f, g))"

lemma length_sha256K: "length sha256K = 64"
  by (simp add: sha256K_def)

lemma rounds_window:
  assumes "length w = 16" and "i \<le> 64"
  shows "foldl (compress_round (schedule_words w)) r [i..<64] = window_rounds (drop i sha256K) (window w i) r"
  using assms(2)
proof (induction "64 - i" arbitrary: i r)
  case 0
  then show ?case by (simp add: length_sha256K)
next
  case (Suc m)
  then have i: "i < 64" by simp
  obtain a b c d e f g hh where r: "r = (a, b, c, d, e, f, g, hh)" by (metis prod.exhaust)
  have ws: "schedule_words w = schedule_upto w 48" by (simp add: schedule_words_def schedule_upto_def)
  have w0: "window w i ! 0 = schedule_words w ! i"
  proof (cases "i \<le> 48")
    case True
    have "i < 16 + i" by simp
    from schedule_upto_prefix[OF assms(1) True this] show ?thesis
      using length_schedule_upto[OF assms(1), of i] by (simp add: ws window_def)
  next
    case False
    then have "48 \<le> i" "i < 16 + 48" using i by simp_all
    from schedule_upto_prefix[OF assms(1) this] show ?thesis
      using length_schedule_upto[OF assms(1), of i] by (simp add: ws window_def)
  qed
  have "drop i sha256K = sha256K ! i # drop (Suc i) sha256K"
    using i by (simp add: Cons_nth_drop_Suc length_sha256K)
  moreover have "[i..<64] = i # [Suc i..<64]" using i by (simp add: upt_conv_Cons)
  ultimately show ?case
    using Suc by (simp add: r w0 window_Suc[OF assms(1)] Let_def)
qed

subsection \<open>Words as integers\<close>

definition rot_int :: "nat \<Rightarrow> int \<Rightarrow> int" where
  "rot_int k x = ((x mod 2 ^ k) * 2 ^ (32 - k)) OR (x div 2 ^ k)"

lemma uint_shift: "uint (drop_bit k (w :: u32)) = uint w div 2 ^ k"
proof -
  have "uint (drop_bit k w) = drop_bit k (take_bit 32 (uint w))" by (simp add: unsigned_drop_bit_eq del: drop_bit_eq_div)
  also have "take_bit 32 (uint w) = uint w" by (rule bintr_uint) simp
  finally show ?thesis by (simp add: drop_bit_eq_div)
qed

lemma uint_RotateLeft32:
  assumes "0 < k" and "k < 32"
  shows "uint (RotateLeft32 w (- int k)) = rot_int k (uint w)"
proof -
  have "nat (- int k mod 32) = 32 - k" using assms by (simp add: zmod_zminus1_eq_if nat_diff_distrib)
  then have "RotateLeft32 w (- int k) = push_bit (32 - k) w OR drop_bit k w"
    using assms by (simp add: RotateLeft32_def Let_def)
  moreover have "uint (push_bit (32 - k) w) = (uint w mod 2 ^ k) * 2 ^ (32 - k)"
  proof -
    have "uint (push_bit (32 - k) w) = take_bit 32 (push_bit (32 - k) (uint w))"
      by (simp add: unsigned_push_bit_eq)
    also have "\<dots> = push_bit (32 - k) (take_bit k (uint w))"
      using assms by (simp add: take_bit_push_bit)
    finally show ?thesis by (simp add: push_bit_eq_mult take_bit_eq_mod)
  qed
  moreover have "uint (drop_bit k w) = uint w div 2 ^ k" by (rule uint_shift)
  ultimately show ?thesis by (simp only: rot_int_def unsigned_or_eq)
qed

lemmas uint_rots = uint_RotateLeft32[of 2, simplified] uint_RotateLeft32[of 6, simplified]
  uint_RotateLeft32[of 7, simplified] uint_RotateLeft32[of 11, simplified] uint_RotateLeft32[of 13, simplified]
  uint_RotateLeft32[of 17, simplified] uint_RotateLeft32[of 18, simplified] uint_RotateLeft32[of 19, simplified]
  uint_RotateLeft32[of 22, simplified] uint_RotateLeft32[of 25, simplified]

definition add_int :: "int \<Rightarrow> int \<Rightarrow> int" where
  "add_int x y = (x + y) mod 4294967296"

lemma uint_add32: "uint (x + y :: u32) = add_int (uint x) (uint y)"
  by (simp add: uint_word_ariths add_int_def)

lemma ch_word: "((e :: u32) AND f) XOR (NOT e AND g) = g XOR (e AND (f XOR g))"
  by (rule bit_word_eqI) (auto simp: bit_simps)

lemma maj_word: "((a :: u32) AND b) XOR (a AND c) XOR (b AND c) = (a AND b) XOR (c AND (a XOR b))"
  by (rule bit_word_eqI) (auto simp: bit_simps)

definition sig_int :: "nat \<Rightarrow> nat \<Rightarrow> nat \<Rightarrow> int \<Rightarrow> int" where
  "sig_int i j k x = rot_int i x XOR rot_int j x XOR rot_int k x"

definition small_sig_int :: "nat \<Rightarrow> nat \<Rightarrow> nat \<Rightarrow> int \<Rightarrow> int" where
  "small_sig_int i j k x = rot_int i x XOR rot_int j x XOR (x div 2 ^ k)"

fun next_int :: "int list \<Rightarrow> int list" where
  "next_int [w0, w1, w2, w3, w4, w5, w6, w7, w8, w9, w10, w11, w12, w13, w14, w15] =
     [w1, w2, w3, w4, w5, w6, w7, w8, w9, w10, w11, w12, w13, w14, w15,
      add_int (add_int (add_int w0 (small_sig_int 7 18 3 w1)) w9) (small_sig_int 17 19 10 w14)]"
| "next_int w = w"

definition ch_int :: "int \<Rightarrow> int \<Rightarrow> int \<Rightarrow> int" where
  "ch_int e f g = g XOR (e AND (f XOR g))"

definition maj_int :: "int \<Rightarrow> int \<Rightarrow> int \<Rightarrow> int" where
  "maj_int a b c = (a AND b) XOR (c AND (a XOR b))"

type_synonym int_regs = "int \<times> int \<times> int \<times> int \<times> int \<times> int \<times> int \<times> int"

definition regs_int :: "int \<Rightarrow> int \<Rightarrow> int \<Rightarrow> int \<Rightarrow> int \<Rightarrow> int \<Rightarrow> int \<Rightarrow> int \<Rightarrow> int \<Rightarrow> int_regs" where
  "regs_int t1 t2 a b c d e f g = (add_int t1 t2, a, b, c, add_int d t1, e, f, g)"

fun rounds_int :: "int list \<Rightarrow> int list \<Rightarrow> int_regs \<Rightarrow> int_regs" where
  "rounds_int [] w r = r"
| "rounds_int (k # ks) w (a, b, c, d, e, f, g, hh) = rounds_int ks (next_int w)
     (regs_int (add_int (add_int (add_int (add_int hh (sig_int 6 11 25 e)) (ch_int e f g)) k) (w ! 0))
               (add_int (sig_int 2 13 22 a) (maj_int a b c)) a b c d e f g)"

lemmas uint_bits = unsigned_xor_eq unsigned_and_eq uint_rots uint_add32

lemma map_window_next:
  assumes "length w = 16"
  shows "map uint (window_next w) = next_int (map uint w)"
proof -
  have "\<exists>w0 w1 w2 w3 w4 w5 w6 w7 w8 w9 w10 w11 w12 w13 w14 w15.
    w = [w0, w1, w2, w3, w4, w5, w6, w7, w8, w9, w10, w11, w12, w13, w14, w15]"
    using list16[OF assms] by blast
  then obtain w0 w1 w2 w3 w4 w5 w6 w7 w8 w9 w10 w11 w12 w13 w14 w15 where
    "w = [w0, w1, w2, w3, w4, w5, w6, w7, w8, w9, w10, w11, w12, w13, w14, w15]" by blast
  then show ?thesis
    by (simp add: uint_bits small_sig_int_def uint_shift del: drop_bit_eq_div)
qed

lemma length_window_next: "length w = 16 \<Longrightarrow> length (window_next w) = 16"
  by (subst list16) simp_all

definition regs_uint :: "regs \<Rightarrow> int_regs" where
  "regs_uint r = (case r of (a, b, c, d, e, f, g, hh) \<Rightarrow>
     (uint a, uint b, uint c, uint d, uint e, uint f, uint g, uint hh))"

lemma rounds_uint:
  "length w = 16 \<Longrightarrow> regs_uint (window_rounds ks w r) = rounds_int (map uint ks) (map uint w) (regs_uint r)"
proof (induction ks arbitrary: w r)
  case (Cons k ks)
  obtain a b c d e f g hh where r: "r = (a, b, c, d, e, f, g, hh)" by (metis prod.exhaust)
  have "map uint w ! 0 = uint (w ! 0)" using Cons.prems by simp
  with Cons.IH[OF length_window_next[OF Cons.prems]] show ?case
    by (simp add: r Let_def regs_uint_def regs_int_def uint_bits sig_int_def ch_int_def maj_int_def
        ch_word maj_word map_window_next[OF Cons.prems])
qed simp

fun add_regs_int :: "int list \<Rightarrow> int_regs \<Rightarrow> int list" where
  "add_regs_int [h0, h1, h2, h3, h4, h5, h6, h7] (a, b, c, d, e, f, g, hh) =
     [add_int h0 a, add_int h1 b, add_int h2 c, add_int h3 d, add_int h4 e, add_int h5 f, add_int h6 g, add_int h7 hh]"
| "add_regs_int h r = h"

fun regs_of :: "int list \<Rightarrow> int_regs" where
  "regs_of [a, b, c, d, e, f, g, hh] = (a, b, c, d, e, f, g, hh)"
| "regs_of h = (0, 0, 0, 0, 0, 0, 0, 0)"

definition K_int :: "int list" where
  "K_int = map uint sha256K"

definition compress_int :: "int list \<Rightarrow> int list \<Rightarrow> int list" where
  "compress_int h w = add_regs_int h (rounds_int K_int w (regs_of h))"

lemma compress_words_int:
  assumes "length h = 8" and "length w = 16"
  shows "map uint (compress_words h (schedule_words w)) = compress_int (map uint h) (map uint w)"
proof -
  have "\<exists>a b c d e f g hh. h = [a, b, c, d, e, f, g, hh]"
    using assms(1) by (auto simp: length_Suc_conv numeral_eq_Suc)
  then obtain a b c d e f g hh where h: "h = [a, b, c, d, e, f, g, hh]" by blast
  have win: "window w 0 = w" by (simp add: window_def)
  obtain a' b' c' d' e' f' g' hh' where
    r: "window_rounds sha256K w (a, b, c, d, e, f, g, hh) = (a', b', c', d', e', f', g', hh')" by (metis prod.exhaust)
  have "foldl (compress_round (schedule_words w)) (a, b, c, d, e, f, g, hh) [0..<64] = (a', b', c', d', e', f', g', hh')"
    using rounds_window[OF assms(2), of 0] r win by simp
  moreover have "rounds_int K_int (map uint w) (uint a, uint b, uint c, uint d, uint e, uint f, uint g, uint hh)
      = (uint a', uint b', uint c', uint d', uint e', uint f', uint g', uint hh')"
    using rounds_uint[OF assms(2), of sha256K "(a, b, c, d, e, f, g, hh)"] r by (simp add: regs_uint_def K_int_def)
  ultimately show ?thesis
    by (simp add: compress_words_def compress_int_def h uint_add32)
qed

end
