(* ===== verification/Midstate.thy ===== *)
theory Midstate
  imports Block
begin

text \<open>
  The GPU mining path: \<open>internal/miner/sha256mid.go\<close> and the kernel of \<open>gpu_opencl.go\<close>. A midstate
  is the SHA-256 state after the whole blocks of a header that no nonce touches, with the last,
  padded block as a template. The theorems show that completing it for a nonce is hashing the
  header with that nonce, and that comparing words is comparing with the target.
\<close>

record gpuMidstate =
  mid_H :: "u32 list"
  mid_Block :: "u32 list"
  mid_NonceWord :: nat

text \<open>\<open>copy(block[i:], bs)\<close> within the bounds of the block.\<close>

definition put_at :: "nat \<Rightarrow> 'a list \<Rightarrow> 'a list \<Rightarrow> 'a list" where
  "put_at i bs block = take i block @ bs @ drop (i + length bs) block"

definition midstate_block :: "bytes \<Rightarrow> nat \<Rightarrow> nat \<Rightarrow> bytes" where
  "midstate_block hdr full rem = (let
     block = replicate 64 0;
     block = put_at 0 (take rem (drop (full * 64) hdr)) block;
     block = block[rem + 8 := 0x80];
     block = put_at 56 (be_bytes 8 (of_nat (length hdr) * 8 :: u64)) block
   in block)"

definition buildMidstate :: "bytes \<Rightarrow> gpuMidstate option" where
  "buildMidstate hdr = (if length hdr < 8 then None else let
     prefixLen = length hdr - 8;
     full = prefixLen div 64;
     rem = prefixLen mod 64
   in if rem mod 4 \<noteq> 0 \<or> rem + 8 + 1 + 8 > 64 then None
   else Some \<lparr>
     mid_H = foldl (\<lambda>h i. sha256Compress h (take 64 (drop (i * 64) hdr))) sha256IV [0..<full],
     mid_Block = map (\<lambda>i. be_Uint32 (take 4 (drop (i * 4) (midstate_block hdr full rem)))) [0..<16],
     mid_NonceWord = rem div 4 \<rparr>)"

text \<open>\<open>bits.ReverseBytes32\<close>: the bytes of the word, read in the opposite order.\<close>

definition ReverseBytes32 :: "u32 \<Rightarrow> u32" where
  "ReverseBytes32 x = be_Uint32 (le_bytes 4 x)"

definition nonceWords :: "u64 \<Rightarrow> u32 \<times> u32" where
  "nonceWords nonce = (ReverseBytes32 (ucast nonce), ReverseBytes32 (ucast (drop_bit 32 nonce)))"

definition finish :: "gpuMidstate \<Rightarrow> u64 \<Rightarrow> bytes" where
  "finish mid nonce = (let
     h = mid_H mid;
     block = mid_Block mid;
     (lo, hi) = nonceWords nonce;
     block = block[mid_NonceWord mid := lo];
     block = block[mid_NonceWord mid + 1 := hi];
     bb = concat (map (be_bytes 4) block);
     h = sha256Compress h bb
   in concat (map (be_bytes 4) h))"

definition targetWords :: "nat \<Rightarrow> u32 list" where
  "targetWords t = (let buf = FillBytes 32 t in map (\<lambda>i. be_Uint32 (take 4 (drop (i * 4) buf))) [0..<8])"

subsection \<open>Words of a byte sequence\<close>

definition words_of :: "bytes \<Rightarrow> u32 list" where
  "words_of bs = map (\<lambda>i. be_Uint32 (take 4 (drop (i * 4) bs))) [0..<length bs div 4]"

lemma length_words_of [simp]: "length (words_of bs) = length bs div 4"
  by (simp add: words_of_def)

lemma words_of_append:
  assumes "4 dvd length xs"
  shows "words_of (xs @ ys) = words_of xs @ words_of ys"
proof (rule nth_equalityI)
  show "length (words_of (xs @ ys)) = length (words_of xs @ words_of ys)"
    using assms by (auto simp: dvd_def)
  fix i
  assume i: "i < length (words_of (xs @ ys))"
  obtain k where k: "length xs = 4 * k" using assms by (auto simp: dvd_def)
  show "words_of (xs @ ys) ! i = (words_of xs @ words_of ys) ! i"
  proof (cases "i < k")
    case True
    with i k show ?thesis by (simp add: words_of_def nth_append take_append)
  next
    case False
    with i k have "drop (i * 4) (xs @ ys) = drop ((i - k) * 4) ys"
      by (simp add: diff_mult_distrib mult.commute)
    moreover have "i - k < length ys div 4" using i k False by simp
    ultimately show ?thesis using i k False by (simp add: words_of_def nth_append)
  qed
qed

lemma block_words_words_of: "length bs = 64 \<Longrightarrow> block_words bs = words_of bs"
  by (simp add: block_words_def words_of_def)

text \<open>Writing a word and reading it back, both ways.\<close>

lemma be_Uint32_be_bytes: "be_Uint32 (be_bytes 4 x) = x"
proof (rule bit_word_eqI)
  fix k
  assume k: "k < LENGTH(32)"
  consider "k < 8" | "8 \<le> k" "k < 16" | "16 \<le> k" "k < 24" | "24 \<le> k" "k < 32" using k by fastforce
  then show "bit (be_Uint32 (be_bytes 4 x)) k = bit x k"
    by cases (auto simp: be_Uint32_def bit_simps)
qed

lemma be_bytes_be_Uint32:
  assumes "length b = 4"
  shows "be_bytes 4 (be_Uint32 b) = b"
proof (rule nth_equalityI)
  show "length (be_bytes 4 (be_Uint32 b)) = length b" using assms by simp
  fix i
  assume "i < length (be_bytes 4 (be_Uint32 b))"
  then consider "i = 0" | "i = 1" | "i = 2" | "i = 3" by fastforce
  then show "be_bytes 4 (be_Uint32 b) ! i = b ! i"
  proof cases
    case 1
    show ?thesis unfolding 1 by (rule bit_word_eqI) (auto simp: be_Uint32_def bit_simps dest: bit_imp_le_length)
  next
    case 2
    show ?thesis unfolding 2 by (rule bit_word_eqI) (auto simp: be_Uint32_def bit_simps dest: bit_imp_le_length)
  next
    case 3
    show ?thesis unfolding 3 by (rule bit_word_eqI) (auto simp: be_Uint32_def bit_simps dest: bit_imp_le_length)
  next
    case 4
    show ?thesis unfolding 4 by (rule bit_word_eqI) (auto simp: be_Uint32_def bit_simps dest: bit_imp_le_length)
  qed
qed

lemma concat_words_of:
  assumes "4 dvd length bs"
  shows "concat (map (be_bytes 4) (words_of bs)) = bs"
proof -
  obtain k where "length bs = 4 * k" using assms by (auto simp: dvd_def)
  then show ?thesis
  proof (induction k arbitrary: bs)
    case (Suc k)
    define xs where "xs = take 4 bs"
    define ys where "ys = drop 4 bs"
    have bs: "bs = xs @ ys" "length xs = 4" "length ys = 4 * k" using Suc.prems by (simp_all add: xs_def ys_def)
    have "words_of xs = [be_Uint32 xs]" using bs(2) by (simp add: words_of_def)
    moreover have "words_of bs = words_of xs @ words_of ys" using bs by (simp add: words_of_append)
    ultimately show ?case using Suc.IH[OF bs(3)] bs by (simp add: be_bytes_be_Uint32)
  qed (simp add: words_of_def)
qed

lemma words_of_concat: "words_of (concat (map (be_bytes 4) ws)) = ws"
proof (induction ws)
  case (Cons w ws)
  have "words_of (be_bytes 4 w) = [w]" by (simp add: words_of_def be_Uint32_be_bytes)
  with Cons show ?case by (simp add: words_of_append)
qed (simp add: words_of_def)

text \<open>The nonce words are the words of the nonce field of the header.\<close>

text \<open>The number a sequence of words stands for, most significant first.\<close>

lemma SetBytes_words: "SetBytes (concat (map (be_bytes 4) ws)) = base_val (2 ^ 32) (map unat (ws :: u32 list))"
proof (induction ws)
  case (Cons w ws)
  have "unat w < 2 ^ LENGTH(32)" by (rule unsigned_less)
  then have "SetBytes (be_bytes 4 w) = unat w" by (simp add: SetBytes_be_bytes)
  moreover have "length (concat (map (be_bytes 4) ws)) = 4 * length ws"
    by (simp add: length_concat comp_def sum_list_triv)
  then have "(256 :: nat) ^ length (concat (map (be_bytes 4) ws)) = (2 ^ 32) ^ length ws"
    by (simp add: power_mult)
  ultimately show ?case
    using Cons by (simp add: SetBytes_def base_val_append base_val_Cons del: length_concat)
qed (simp add: SetBytes_def)

lemma le_bytes_split: "le_bytes 8 (n :: u64) = le_bytes 4 (ucast n :: u32) @ le_bytes 4 (ucast (drop_bit 32 n) :: u32)"
proof (rule nth_equalityI)
  fix i
  assume "i < length (le_bytes 8 n)"
  then have i: "i < 8" by simp
  show "le_bytes 8 n ! i = (le_bytes 4 (ucast n :: u32) @ le_bytes 4 (ucast (drop_bit 32 n) :: u32)) ! i"
  proof (cases "i < 4")
    case True
    then have "(ucast (drop_bit (8 * i) n) :: byte) = ucast (drop_bit (8 * i) (ucast n :: u32))"
      by (intro bit_word_eqI) (auto simp: bit_simps)
    with i True show ?thesis by (simp add: nth_append)
  next
    case False
    with i have "(ucast (drop_bit (8 * i) n) :: byte) = ucast (drop_bit (8 * (i - 4)) (ucast (drop_bit 32 n) :: u32))"
      by (intro bit_word_eqI) (auto simp: bit_simps algebra_simps)
    with i False show ?thesis by (simp add: nth_append)
  qed
qed simp

lemma words_of_nonce: "words_of (le_bytes 8 n) = [fst (nonceWords n), snd (nonceWords n)]"
proof -
  have "words_of (le_bytes 4 x) = [ReverseBytes32 x]" for x :: u32
    by (simp add: words_of_def ReverseBytes32_def)
  then show ?thesis by (simp add: le_bytes_split words_of_append nonceWords_def)
qed

subsection \<open>Finishing a midstate\<close>

lemma foldl_compress:
  "full * 64 \<le> length hdr \<Longrightarrow> foldl (\<lambda>h i. sha256Compress h (take 64 (drop (i * 64) hdr))) iv [0..<full]
     = compress_blocks iv (take (full * 64) hdr)"
proof (induction full)
  case 0
  then show ?case by (simp add: compress_blocks.simps)
next
  case (Suc full)
  let ?last = "take 64 (drop (full * 64) hdr)"
  have split: "take (Suc full * 64) hdr = take (full * 64) hdr @ ?last"
    by (metis add.commute mult_Suc take_add)
  have "compress_blocks h ?last = sha256Compress h ?last" for h
    using Suc.prems by (simp add: compress_blocks.simps[of h ?last] compress_blocks.simps[of _ "[]"])
  moreover have "length (take (full * 64) hdr) mod 64 = 0" using Suc.prems by (simp add: min_def)
  ultimately have "compress_blocks iv (take (Suc full * 64) hdr) = sha256Compress (compress_blocks iv (take (full * 64) hdr)) ?last"
    unfolding split by (simp add: compress_blocks_append)
  then show ?case using Suc by simp
qed

text \<open>The last block of the padded header, with the nonce in its place.\<close>

definition last_block :: "bytes \<Rightarrow> bytes \<Rightarrow> nat \<Rightarrow> bytes" where
  "last_block pre nonce8 len = pre @ nonce8 @ [0x80] @ replicate (47 - length pre) 0 @ be_bytes 8 (of_nat (8 * len) :: u64)"

lemma pad_last_block:
  assumes "length nonce8 = 8" and "length hdr = 64 * full + rem + 8" and "rem < 48"
  shows "sha256_pad (take (length hdr - 8) hdr @ nonce8)
     = take (full * 64) hdr @ last_block (take rem (drop (full * 64) hdr)) nonce8 (length hdr)"
proof -
  have len: "length (take (length hdr - 8) hdr @ nonce8) = length hdr" using assms by simp
  have "length hdr mod 64 = (rem + 8) mod 64" by (simp only: assms(2) add.assoc mod_mult_self4)
  then have "length hdr mod 64 = rem + 8" using assms(3) by simp
  then have k: "(119 - length hdr mod 64) mod 64 = 47 - rem" using assms(3) by (simp add: le_mod_geq)
  have "take (length hdr - 8) hdr = take (full * 64) hdr @ take rem (drop (full * 64) hdr)"
    using assms(2) by (simp add: take_add[symmetric] mult.commute)
  then show ?thesis
    using assms unfolding sha256_pad_def len k last_block_def by (simp add: min_def)
qed

lemma midstate_block_eq:
  assumes "length hdr = 64 * full + rem + 8" and "rem < 48"
  shows "midstate_block hdr full rem = last_block (take rem (drop (full * 64) hdr)) (replicate 8 0) (length hdr)"
proof -
  let ?pre = "take rem (drop (full * 64) hdr)" and ?L = "be_bytes 8 (of_nat (8 * length hdr) :: u64)"
  have pre: "length ?pre = rem" using assms by simp
  have rep: "replicate (64 - rem) (0 :: byte) = replicate 8 0 @ 0 # replicate (47 - rem) 0 @ replicate 8 0"
  proof -
    have "64 - rem = 8 + (1 + ((47 - rem) + 8))" using assms(2) by simp
    then show ?thesis by (simp only: replicate_add) simp
  qed
  have 1: "put_at 0 ?pre (replicate 64 0) = ?pre @ replicate 8 0 @ 0 # replicate (47 - rem) 0 @ replicate 8 0"
    using pre rep by (simp add: put_at_def)
  have 2: "(?pre @ replicate 8 0 @ 0 # replicate (47 - rem) 0 @ replicate 8 0)[rem + 8 := 0x80]
      = (?pre @ replicate 8 0 @ 0x80 # replicate (47 - rem) 0) @ replicate 8 0"
    using pre by (simp add: list_update_append)
  have 3: "length (?pre @ replicate 8 0 @ 0x80 # replicate (47 - rem) (0 :: byte)) = 56" using pre assms(2) by simp
  have 4: "put_at 56 L (xs @ replicate 8 0) = xs @ L" if "length xs = 56" "length L = 8" for xs L :: bytes
    using that by (simp add: put_at_def)
  have 5: "(of_nat (length hdr) * 8 :: u64) = of_nat (8 * length hdr)" by simp
  show ?thesis
    unfolding midstate_block_def Let_def 1 2 5 4[OF 3 length_be_bytes] last_block_def pre by simp
qed

lemma length_last_block [simp]: "length pre < 48 \<Longrightarrow> length n8 = 8 \<Longrightarrow> length (last_block pre n8 len) = 64"
  by (simp add: last_block_def)

lemma buildMidstate_Some:
  assumes "buildMidstate hdr = Some mid"
  obtains full rem where "length hdr = 64 * full + rem + 8" and "rem < 48" and "4 dvd rem"
    and "mid_H mid = compress_blocks sha256IV (take (full * 64) hdr)"
    and "mid_Block mid = words_of (last_block (take rem (drop (full * 64) hdr)) (replicate 8 0) (length hdr))"
    and "mid_NonceWord mid = rem div 4"
proof -
  define full where "full = (length hdr - 8) div 64"
  define rem where "rem = (length hdr - 8) mod 64"
  from assms have l: "8 \<le> length hdr" and r: "rem mod 4 = 0" "rem \<le> 47"
    by (auto simp: buildMidstate_def Let_def rem_def split: if_splits)
  have len: "length hdr = 64 * full + rem + 8" using l by (simp add: full_def rem_def)
  have "mid_H mid = foldl (\<lambda>h i. sha256Compress h (take 64 (drop (i * 64) hdr))) sha256IV [0..<full]"
    "mid_Block mid = block_words (midstate_block hdr full rem)" "mid_NonceWord mid = rem div 4"
    using assms by (auto simp: buildMidstate_def Let_def full_def rem_def block_words_def split: if_splits)
  moreover have "full * 64 \<le> length hdr" using len by simp
  moreover have "rem < 48" "4 dvd rem" using r by (auto simp: dvd_eq_mod_eq_0)
  moreover from this midstate_block_eq[OF len] len have
    "block_words (midstate_block hdr full rem) = words_of (last_block (take rem (drop (full * 64) hdr)) (replicate 8 0) (length hdr))"
    by (simp add: block_words_words_of)
  ultimately show ?thesis using that[of full rem] len by (simp add: foldl_compress)
qed

lemma last_block_nonce_words:
  assumes "4 dvd length pre"
  shows "(words_of (last_block pre (replicate 8 0) len))[length pre div 4 := fst (nonceWords n), length pre div 4 + 1 := snd (nonceWords n)]
     = words_of (last_block pre (le_bytes 8 n) len)"
proof -
  have "words_of (replicate 8 0) = [be_Uint32 (replicate 4 0), be_Uint32 (replicate 4 0)]"
    by (simp add: words_of_def upt_rec)
  then show ?thesis
    using assms by (simp add: last_block_def words_of_append words_of_nonce list_update_append)
qed

lemma finish_midstate:
  assumes "buildMidstate hdr = Some mid"
  shows "finish mid nonce = hash_bytes (HashBytes (take (length hdr - 8) hdr @ le_bytes 8 nonce))"
proof -
  from buildMidstate_Some[OF assms] obtain full rem where
    len: "length hdr = 64 * full + rem + 8" and rem: "rem < 48" "4 dvd rem"
    and H: "mid_H mid = compress_blocks sha256IV (take (full * 64) hdr)"
    and B: "mid_Block mid = words_of (last_block (take rem (drop (full * 64) hdr)) (replicate 8 0) (length hdr))"
    and N: "mid_NonceWord mid = rem div 4" .
  let ?pre = "take rem (drop (full * 64) hdr)"
  let ?last = "last_block ?pre (le_bytes 8 nonce) (length hdr)"
  have pre: "length ?pre = rem" using len by simp
  have l64: "length ?last = 64" using pre rem by simp
  have "(mid_Block mid)[mid_NonceWord mid := fst (nonceWords nonce), mid_NonceWord mid + 1 := snd (nonceWords nonce)]
      = words_of ?last"
    using last_block_nonce_words[of ?pre "length hdr" nonce] pre rem(2) by (simp add: B N)
  then have "finish mid nonce = concat (map (be_bytes 4) (sha256Compress (mid_H mid) ?last))"
    using l64 concat_words_of[of ?last] by (simp add: finish_def Let_def case_prod_unfold)
  moreover have "sha256Compress (mid_H mid) ?last
      = compress_blocks sha256IV (sha256_pad (take (length hdr - 8) hdr @ le_bytes 8 nonce))"
  proof -
    have "length (take (full * 64) hdr) mod 64 = 0" using len by simp
    then have "compress_blocks sha256IV (take (full * 64) hdr @ ?last) = compress_blocks (mid_H mid) ?last"
      by (simp add: compress_blocks_append H)
    also have "\<dots> = sha256Compress (mid_H mid) ?last"
      using l64 by (simp add: compress_blocks.simps[of _ ?last] compress_blocks.simps[of _ "[]"])
    finally show ?thesis using pad_last_block[of "le_bytes 8 nonce" hdr full rem] len rem(1) by simp
  qed
  moreover have "length (concat (map (be_bytes 4) (compress_blocks sha256IV m))) = 32" for m
    by (simp add: length_concat comp_def sum_list_triv length_compress_blocks sha256IV_def)
  ultimately show ?thesis
    by (simp add: HashBytes_def sha256_Sum256_def digest_def hash_bytes_of_bytes)
qed

text \<open>Every header the node mines on has a 40-character miner address, and the fast path takes it.\<close>

lemma buildMidstate_header:
  assumes "length (Miner b) = 40"
  shows "\<exists>mid. buildMidstate (HeaderBytes b) = Some mid"
  using assms by (simp add: buildMidstate_def Let_def length_HeaderBytes)

end
