(* ===== verification/GenesisHash.thy ===== *)
theory GenesisHash
  imports ShaEval Midstate
begin

text \<open>
  The hash of the mainnet genesis block, computed by the kernel. The invariant of a node needs
  that it is not zero (the genesis block names the all-zero hash as its parent), and the
  concrete instances of the node's properties start from it.
\<close>

lemmas sha_int_defs = compress_int_def rot_int_def add_int_def sig_int_def small_sig_int_def ch_int_def maj_int_def regs_int_def

lemmas K_int_eq = K_int_def[unfolded sha256K_def, simplified]

subsection \<open>The digest of the words\<close>

lemma compress_blocks_step:
  assumes "length b = 64" and "length h = 8"
  shows "map uint (compress_blocks h (b @ m)) = map uint (compress_blocks (compress_words h (schedule_words (words_of b))) m)"
  using assms by (simp add: compress_blocks.simps[of h "b @ m"] sha256Compress_def block_words_words_of)

lemma digest_ints: "map uint h = ks \<Longrightarrow> digest h = of_nat (base_val (2 ^ 32) (map nat ks))"
  by (auto simp: digest_def hash_of_bytes_def SetBytes_words comp_def)

text \<open>A message of whole blocks, their words as integers.\<close>

lemma compress_list_int:
  assumes "list_all (\<lambda>b. length b = 64) bs" and "length h = 8"
  shows "map uint (compress_blocks h (concat bs)) = foldl compress_int (map uint h) (map (\<lambda>b. map uint (words_of b)) bs)"
  using assms
proof (induction bs arbitrary: h)
  case Nil
  then show ?case by (simp add: compress_blocks.simps[of h "[]"])
next
  case (Cons b bs)
  let ?c = "compress_words h (schedule_words (words_of b))"
  from Cons.prems have b: "length b = 64" and bs: "list_all (\<lambda>b. length b = 64) bs" by simp_all
  have "map uint ?c = compress_int (map uint h) (map uint (words_of b))"
    using compress_words_int[OF Cons.prems(2), of "words_of b"] b by simp
  with Cons.IH[OF bs, of ?c] show ?case using compress_blocks_step[OF b Cons.prems(2), of "concat bs"] by simp
qed

lemma hash_blocks:
  assumes "sha256_pad m = concat bs" and "list_all (\<lambda>b. length b = 64) bs"
    and "foldl compress_int (map uint sha256IV) (map (\<lambda>b. map uint (words_of b)) bs) = h"
  shows "HashBytes m = of_nat (base_val (2 ^ 32) (map nat h))"
  using digest_ints[OF compress_list_int[OF assms(2) length_sha256IV]] assms
  by (simp add: HashBytes_def sha256_Sum256_def)

subsection \<open>The genesis block\<close>

definition genesis_b1 :: bytes where
  "genesis_b1 =
     [0, 0, 0, 0, 0, 0, 0, 0, 32, 0, 0, 0, 0, 0, 0, 0, 0, 0, 0, 0, 0, 0, 0, 0, 0, 0, 0, 0, 0, 0, 0, 0, 0,
     0, 0, 0, 0, 0, 0, 0, 0, 0, 0, 0, 0, 140, 45, 28, 146, 1, 0, 0, 1, 0, 0, 0, 0, 0, 0, 0, 0, 0, 0, 0]"

definition genesis_b2 :: bytes where
  "genesis_b2 =
     [0, 0, 0, 0, 0, 0, 0, 0, 32, 0, 0, 0, 0, 0, 0, 0, 0, 0, 0, 0, 0, 0, 0, 0, 0, 0, 0, 0, 0, 0, 0, 0, 0,
     0, 0, 0, 0, 0, 0, 0, 0, 0, 0, 0, 0, 0, 0, 0, 0, 0, 0, 0, 128, 0, 0, 0, 0, 0, 0, 0, 0, 0, 3, 160]"

lemma genesis_pad: "sha256_pad (HeaderBytes (Genesis DefaultParams)) = concat [genesis_b1, genesis_b2]"
  by code_simp

lemma genesis_words1: "map uint (words_of genesis_b1) =
     [0, 0, 536870912, 0, 0, 0, 0, 0, 0, 0, 0, 9186588, 2449539072, 16777216, 0, 0]"
  by code_simp

lemma genesis_compress1: "compress_int (map uint sha256IV)
     [0, 0, 536870912, 0, 0, 0, 0, 0, 0, 0, 0, 9186588, 2449539072, 16777216, 0, 0]
   = [3987882077, 4286252336, 306936522, 3125025161, 454789836, 1559179746, 2006909935, 61487435]"
  by (simp add: sha_int_defs K_int_eq sha256IV_def)

lemma genesis_words2: "map uint (words_of genesis_b2) =
     [0, 0, 536870912, 0, 0, 0, 0, 0, 0, 0, 0, 0, 0, 2147483648, 0, 928]"
  by code_simp

lemma genesis_compress2: "compress_int [3987882077, 4286252336, 306936522, 3125025161, 454789836, 1559179746, 2006909935, 61487435]
     [0, 0, 536870912, 0, 0, 0, 0, 0, 0, 0, 0, 0, 0, 2147483648, 0, 928]
   = [2334019010, 1914720707, 2520764139, 2827880099, 790271945, 3389148582, 2663431848, 354825202]"
  by (simp add: sha_int_defs K_int_eq)

lemma genesis_header_hash: "HashBytes (HeaderBytes (Genesis DefaultParams)) = 0x8b1e4dc2722051c3963fceeba88e06a32f1a97c9ca024da69ec0bea8152633f2"
proof -
  have "HashBytes (HeaderBytes (Genesis DefaultParams)) = of_nat (base_val (2 ^ 32) (map nat
     [2334019010, 1914720707, 2520764139, 2827880099, 790271945, 3389148582, 2663431848, 354825202]))"
  proof (rule hash_blocks[OF genesis_pad])
    show "list_all (\<lambda>b. length b = 64) [genesis_b1, genesis_b2]" by (simp add: genesis_b1_def genesis_b2_def)
    show "foldl compress_int (map uint sha256IV) (map (\<lambda>b. map uint (words_of b)) [genesis_b1, genesis_b2]) =
     [2334019010, 1914720707, 2520764139, 2827880099, 790271945, 3389148582, 2663431848, 354825202]"
      by (simp add: genesis_words1 genesis_words2 genesis_compress1 genesis_compress2)
  qed
  then show ?thesis by (simp add: base_val_def)
qed

lemma genesis_hash:
  "block_Hash (Genesis DefaultParams) = 0x8b1e4dc2722051c3963fceeba88e06a32f1a97c9ca024da69ec0bea8152633f2"
  unfolding block_Hash_def by (rule genesis_header_hash)

end
