(* ===== verification/Examples.thy ===== *)
theory Examples
  imports NodeRun GenesisHash
begin

text \<open>
  Concrete instances: the mainnet parameters, a node that starts on an empty directory, and what
  the theorems need to know about them.
\<close>

text \<open>
  A signature scheme that meets its contract, to instantiate the parameter with: the public key is the seed,
  and a signature shows the private half of the key. As in the real one, a key whose halves
  do not belong together makes signatures that do not verify.
\<close>

definition demo_ed :: ed25519 where
  "demo_ed = \<lparr> ed_NewKeyFromSeed = (\<lambda>seed. seed @ seed), ed_Sign = (\<lambda>priv msg. take 32 priv @ replicate 32 0),
     ed_Verify = (\<lambda>pk msg sig. sig = pk @ replicate 32 0) \<rparr>"

definition demo_env :: env where
  "demo_env = \<lparr> en_params = DefaultParams, en_ed = demo_ed, en_wallet = None, en_sw = True,
     en_clock = (\<lambda>_. 1727049700000), en_disk = (\<lambda>_. True) \<rparr>"

lemma demo_env_sel [simp]:
  "en_params demo_env = DefaultParams" "en_ed demo_env = demo_ed" "en_disk demo_env k" "en_sw demo_env"
  "en_clock demo_env k = 1727049700000" "en_wallet demo_env = None"
  by (simp_all add: demo_env_def)

lemma demo_ed_contract: "ed_contract demo_ed"
  by (simp add: ed_contract_def demo_ed_def)

text \<open>The wallet made from 32 zeros.\<close>

definition zero_wallet :: wallet where
  "zero_wallet = \<lparr> Priv = replicate 64 0 \<rparr>"

lemma zero_wallet_genuine: "genuine demo_ed zero_wallet"
  unfolding genuine_def
  by (intro exI[of _ "replicate 32 0"]) (simp add: zero_wallet_def demo_ed_def flip: replicate_add)

lemma default_params_ok: "params_ok DefaultParams"
  by (simp add: params_ok_def DefaultParams_def)

lemma demo_genesisHash: "genesisHash demo_env = 0x8b1e4dc2722051c3963fceeba88e06a32f1a97c9ca024da69ec0bea8152633f2"
  by (simp add: genesisHash_def genesis_hash)

lemma demo_env_ok: "env_ok demo_env"
  by (simp add: env_ok_def default_params_ok demo_genesisHash) (simp add: DefaultParams_def)

subsection \<open>A node on an empty directory\<close>

definition fresh_node :: "env \<Rightarrow> node" where
  "fresh_node E = (seeded E False)\<lparr>n_ticks := 1, n_disk := [Genesis (en_params E)], n_tip := Some (genesis_entry E),
     n_pending := Some state_New, n_pendingDirty := False\<rparr>"

lemma New_fresh:
  assumes "genesisHash E \<noteq> 0" and "en_disk E 0"
  shows "New E [] = Ret (None, fresh_node E)"
proof -
  define n0 where "n0 = appendBlock E (Genesis (en_params E)) (seeded E True)\<lparr>n_booting := False\<rparr>"
  have b: "boot_blocks E [] (empty_node\<lparr>n_booting := True\<rparr>) = Ret (None, appendBlock E (Genesis (en_params E)) (seeded E True))"
  proof -
    have "n_ticks (seeded E True) = 0" by (simp add: seeded_def empty_node_def)
    with assms(2) show ?thesis by (simp add: boot_blocks_def insert_genesis Let_def)
  qed
  have blocks: "n_blocks n0 = [(genesisHash E, genesis_entry E)]"
    by (simp add: n0_def appendBlock_def seeded_def)
  have best: "best_loop (n_rejected n0) (n_blocks n0) None = Some (genesis_entry E)"
    by (simp add: n0_def appendBlock_def seeded_def empty_node_def)
  have path: "pathToGenesis (n_blocks n0) (genesis_entry E) = Ret [genesis_entry E]"
    using assms(1) unfolding blocks pathToGenesis_def by (subst path_loop.simps) (simp add: path_loop.simps)
  have rel: "n_tip n0 = None" "n_mempoolTx n0 = []" "n_mempoolOrder n0 = []" "n_state n0 = state_New"
    by (simp_all add: n0_def appendBlock_def seeded_def empty_node_def)
  let ?n1 = "n0\<lparr>n_chainHeights := (\<lambda>_. None)(0 \<mapsto> genesisHash E),
      n_checkpoints := (\<lambda>h. if h = genesisHash E then n_checkpoints n0 h else None),
      n_state := state_New, n_tip := Some (genesis_entry E), n_pendingDirty := True\<rparr>"
  have "rebuildMempool E [] [genesis_entry E] ?n1 = Ret (?n1\<lparr>n_mempoolTx := [], n_mempoolOrder := [], n_pending := Some state_New, n_pendingDirty := False\<rparr>)"
    using rel by (simp add: rebuildMempool_def Let_def)
  moreover have "?n1\<lparr>n_mempoolTx := [], n_mempoolOrder := [], n_pending := Some state_New, n_pendingDirty := False\<rparr> = fresh_node E"
    by (rule node.equality)
      (simp_all add: n0_def fresh_node_def appendBlock_def seeded_def empty_node_def assms(2) fun_eq_iff)
  ultimately have "commitChain E state_New [genesis_entry E] [] n0 = Ret (fresh_node E)"
    using path by (simp add: commitChain_def Let_def)
  moreover have "replayLocked E [genesis_entry E] state_New n0 = Ret (None, state_New, n0)" by simp
  ultimately have "selectTip E n0 = Ret (fresh_node E)"
    using best rel(1) path by (simp add: selectTip_def switchChain_def switch_first_def reverse_rev)
  with b show ?thesis by (simp add: New_def n0_def)
qed

lemma demo_New: "New demo_env [] = Ret (None, fresh_node demo_env)"
  by (rule New_fresh) (simp_all add: demo_genesisHash)

lemma demo_reachable: "reachable demo_env (fresh_node demo_env)"
  by (rule reachable.start[OF _ demo_New]) (simp add: stored_ok_def)

lemma fresh_node_sel [simp]:
  "n_blocks (fresh_node E) = [(genesisHash E, genesis_entry E)]" "n_tip (fresh_node E) = Some (genesis_entry E)"
  "n_state (fresh_node E) = state_New" "n_rejected (fresh_node E) = {}" "n_orphans (fresh_node E) = []"
  "n_mempoolTx (fresh_node E) = []" "n_mempoolOrder (fresh_node E) = []" "n_booting (fresh_node E) = False"
  "n_ticks (fresh_node E) = 1" "n_seenTx (fresh_node E) = []" "n_pending (fresh_node E) = Some state_New"
  "n_pendingDirty (fresh_node E) = False" "n_checkpoints (fresh_node E) = (\<lambda>_. None)"
  by (simp_all add: fresh_node_def seeded_def empty_node_def)

lemma fresh_node_chainHeights [simp]:
  "n_chainHeights (fresh_node E) = (\<lambda>_. None)(0 \<mapsto> genesisHash E)"
  by (simp add: fresh_node_def seeded_def)

end
