(* ===== verification/NodeProps.thy ===== *)
theory NodeProps
  imports NodeFacts Examples
begin

text \<open>
  Properties of a reachable node in the terms of its code: no transaction is spent twice on the
  active chain, the height index and the block locator describe that chain, a peer is answered with
  its next blocks, and no request makes the node give up work.
\<close>

subsection \<open>Spending\<close>

text \<open>C4: no double spend. On the active chain of a reachable node no two transactions, in whatever
  blocks they stand, have the same sender and the same nonce.\<close>

theorem no_double_spend:
  assumes "env_ok E" and "reachable E n" and "length (concat (map block_txs (active_chain n))) < 2 ^ 64"
  shows "distinct (map spent (concat (map block_txs (active_chain n))))"
proof -
  note inv = reachable_inv[OF assms(1,2)] and ok = env_okD(1)[OF assms(1)]
  have h: "HalvingInterval (en_params E) \<noteq> 0" using ok by (simp add: params_ok_def)
  have "total_supply state_New + rewards (en_params E) (active_chain n) < 2 ^ 64"
    using rewards_cap[OF active_chain_ascending(1)[OF inv] h] ok by (simp add: params_ok_def)
  from replay_nonces[OF _ h this active_chain_replays[OF inv]]
  have "nonces_follow (snd \<circ> abs_state state_New) (concat (map block_txs (active_chain n))) (snd \<circ> abs_state (n_state n))"
    by (simp add: state_New_def)
  from nonces_follow_distinct[OF this assms(3)] show ?thesis .
qed

subsection \<open>The index of heights\<close>

lemma active_chain_hash:
  assumes "node_inv E n" and "n_tip n = Some t" and "i < length (active_chain n)"
  shows "block_Hash (active_chain n ! i) = e_hash (branch (n_blocks n) t ! i)"
    and "map_of (n_blocks n) (e_hash (branch (n_blocks n) t ! i)) = Some (branch (n_blocks n) t ! i)"
    and "Height (active_chain n ! i) = of_nat i"
proof -
  note tree = node_invD(1)[OF assms(1)] and facts = tip_entry[OF assms(1,2)]
  have i: "i < length (branch (n_blocks n) t)" using assms(3) by (simp add: facts(4))
  let ?e = "branch (n_blocks n) t ! i"
  have h: "map_of (n_blocks n) (e_hash ?e) = Some ?e" by (rule branch_subset[OF tree facts(1) nth_mem[OF i]])
  then show "map_of (n_blocks n) (e_hash ?e) = Some ?e" .
  have nth: "active_chain n ! i = e_block ?e" unfolding facts(4) by (rule nth_map[OF i])
  show "block_Hash (active_chain n ! i) = e_hash ?e" unfolding nth by (rule tree_invD(2)[OF tree h])
  have "unat (Height (e_block ?e)) = i"
    using arg_cong[where f = "\<lambda>l. l ! i", OF branch_heights[OF tree facts(1)]] i length_branch[OF tree facts(1)]
    by (simp del: upt_Suc)
  moreover have "of_nat (unat (Height (e_block ?e))) = Height (e_block ?e)" by simp
  ultimately show "Height (active_chain n ! i) = of_nat i" unfolding nth by argo
qed

text \<open>C19: the index of heights is the active chain: \<open>chainHeights\<close> of a reachable node holds at every
  height up to the tip's the hash of the block of that height on the chain, and nothing above.\<close>

theorem height_index:
  assumes "env_ok E" and "reachable E n" and "n_tip n = Some t"
  shows "n_chainHeights n h = (if unat h < length (active_chain n) then Some (block_Hash (active_chain n ! unat h)) else None)"
proof -
  note inv = reachable_inv[OF assms(1,2)]
  have "h \<le> Height (e_block t) \<longleftrightarrow> unat h < length (active_chain n)"
    by (simp add: length_active_chain[OF inv assms(3)] word_le_nat_alt less_Suc_eq_le)
  with chain_height[OF inv assms(3), of h] active_chain_hash(1)[OF inv assms(3), of "unat h"] show ?thesis by simp
qed

subsection \<open>Locators\<close>

text \<open>C21: the locator a reachable node sends starts with its tip, ends with the genesis block, names
  only blocks of its active chain and has at most 74 entries, however long the chain is.\<close>

theorem locator_describes_chain:
  assumes "env_ok E" and "reachable E n" and "n_tip n = Some t"
  shows "\<exists>hs. tipLocator E n = Ret hs \<and> hs \<noteq> [] \<and> hd hs = e_hash t \<and> last hs = genesisHash E
    \<and> set hs \<subseteq> block_Hash ` set (active_chain n) \<and> length hs \<le> 74"
proof -
  note inv = reachable_inv[OF assms(1,2)]
  note tree = node_invD(1)[OF inv] and facts = tip_entry[OF inv assms(3)]
  have "e_hash x \<in> block_Hash ` set (active_chain n)" if "x \<in> set (branch (n_blocks n) t)" for x
    using tree_invD(2)[OF tree branch_subset[OF tree facts(1) that]] that by (force simp: facts(4))
  then have "e_hash ` set (branch (n_blocks n) t) \<subseteq> block_Hash ` set (active_chain n)" by blast
  moreover obtain hs where "locatorLocked E (n_blocks n) (Some t) = Ret hs" "hs \<noteq> [] \<and> hd hs = e_hash t \<and> last hs = genesisHash E"
    "set hs \<subseteq> e_hash ` set (branch (n_blocks n) t)" "length hs \<le> 74" using locatorLocked_Some[OF tree facts(1)] by blast
  ultimately show ?thesis unfolding tipLocator_def assms(3) by (intro exI[of _ hs]) blast
qed

subsection \<open>Answers\<close>

lemma unat_of_nat_u64: "k < 2 ^ 64 \<Longrightarrow> unat (of_nat k :: u64) = k"
  by (simp add: unat_of_nat)

text \<open>The loop over the heights walks the active chain; it stops at the budget, the count or the end.\<close>

lemma collect_prefix:
  assumes inv: "node_inv E n" "n_tip n = Some t" and top: "Height (e_block t) + 1 \<noteq> 0" and "i < 2 ^ 64"
  shows "\<exists>j \<le> k. collect n (Height (e_block t)) (of_nat i) txs k = take j (drop i (active_chain n))
    \<and> (0 < k \<and> i < length (active_chain n) \<longrightarrow> 0 < j)"
  using \<open>i < 2 ^ 64\<close>
proof (induction k arbitrary: i txs)
  case 0
  show ?case by simp
next
  case (Suc k)
  note len = length_active_chain[OF inv] and facts = tip_entry[OF inv]
  have ui: "unat (of_nat i :: u64) = i" using Suc.prems by (simp add: unat_of_nat)
  show ?case
  proof (cases "i < length (active_chain n)")
    case False
    then have "\<not> of_nat i \<le> Height (e_block t)" using ui by (simp add: len word_le_nat_alt)
    with False show ?thesis by (intro exI[of _ 0]) simp
  next
    case i: True
    then have le: "of_nat i \<le> Height (e_block t)" using ui by (simp add: len word_le_nat_alt)
    let ?e = "branch (n_blocks n) t ! i"
    have c: "n_chainHeights n (of_nat i) = Some (e_hash ?e)"
      using chain_height[OF inv, of "of_nat i"] le ui by simp
    have e: "map_of (n_blocks n) (e_hash ?e) = Some ?e" by (rule active_chain_hash(2)[OF inv i])
    have b: "e_block ?e = active_chain n ! i" using i by (simp add: facts(4))
    have d: "drop i (active_chain n) = active_chain n ! i # drop (Suc i) (active_chain n)" by (rule Cons_nth_drop_Suc[OF i, symmetric])
    have step: "collect n (Height (e_block t)) (of_nat i) txs (Suc k) =
      (if txs + length (Txs (e_block ?e)) \<ge> syncTxBudget then [e_block ?e]
       else e_block ?e # collect n (Height (e_block t)) (of_nat i + 1) (txs + length (Txs (e_block ?e))) k)"
      unfolding collect.simps(2) c option.case e using le by (simp only: simp_thms if_False option.case)
    have next_h: "(of_nat i + 1 :: u64) = of_nat (Suc i)" by simp
    have "Suc (unat (Height (e_block t))) < 2 ^ 64"
      using unatSuc[of "Height (e_block t)"] top unat_u64_less[of "1 + Height (e_block t)"] by (simp add: add.commute)
    then have "Suc i < 2 ^ 64" using i len by simp
    from Suc.IH[OF this] obtain j where j: "j \<le> k"
      "collect n (Height (e_block t)) (of_nat i + 1) (txs + length (Txs (e_block ?e))) k = take j (drop (Suc i) (active_chain n))"
      unfolding next_h by blast
    show ?thesis
    proof (cases "txs + length (Txs (e_block ?e)) \<ge> syncTxBudget")
      case True
      then show ?thesis unfolding step d b by (intro exI[of _ 1]) simp
    next
      case False
      then show ?thesis unfolding step d using j(1) j(2)[unfolded b] b by (intro exI[of _ "Suc j"]) simp
    qed
  qed
qed

lemma locator_start_find:
  assumes inv: "node_inv E n" "n_tip n = Some t"
  shows "case find (\<lambda>h. h \<in> block_Hash ` set (active_chain n)) hs of None \<Rightarrow> locator_start n hs = 1
     | Some h \<Rightarrow> \<exists>i < length (active_chain n). block_Hash (active_chain n ! i) = h \<and> locator_start n hs = of_nat i + 1"
proof (induction hs)
  case (Cons h hs)
  note tree = node_invD(1)[OF inv(1)]
  show ?case
  proof (cases "h \<in> block_Hash ` set (active_chain n)")
    case True
    then obtain i where i: "i < length (active_chain n)" "h = block_Hash (active_chain n ! i)" by (auto simp: in_set_conv_nth)
    let ?e = "branch (n_blocks n) t ! i"
    have e: "map_of (n_blocks n) h = Some ?e" "e_hash ?e = h" "e_block ?e = active_chain n ! i"
      using active_chain_hash(1,2)[OF inv i(1)] tip_entry(4)[OF inv] i by simp_all
    have ui: "unat (of_nat i :: u64) = i"
      using i(1) length_active_chain[OF inv] unat_u64_less[of "Height (e_block t)"] by (simp add: unat_of_nat)
    have ht: "Height (e_block ?e) = of_nat i" using active_chain_hash(3)[OF inv i(1)] e(3) by simp
    have "of_nat i \<le> Height (e_block t)" using i(1) ui by (simp add: length_active_chain[OF inv] word_le_nat_alt)
    then have "n_chainHeights n (of_nat i) = Some h" using chain_height[OF inv, of "of_nat i"] ui e(2) by simp
    then have "locator_start n (h # hs) = of_nat i + 1" unfolding locator_start.simps e(1) option.case ht by simp
    with True i show ?thesis by auto
  next
    case False
    have s: "locator_start n (h # hs) = locator_start n hs"
    proof (cases "map_of (n_blocks n) h")
      case (Some e)
      have "(case n_chainHeights n (Height (e_block e)) of None \<Rightarrow> 0 | Some x \<Rightarrow> x) \<noteq> h"
      proof (cases "Height (e_block e) \<le> Height (e_block t)")
        case True
        let ?i = "unat (Height (e_block e))"
        have i: "?i < length (active_chain n)" using True by (simp add: length_active_chain[OF inv] word_le_nat_alt)
        have "e_hash (branch (n_blocks n) t ! ?i) = block_Hash (active_chain n ! ?i)" by (rule active_chain_hash(1)[OF inv i, symmetric])
        then have "e_hash (branch (n_blocks n) t ! ?i) \<noteq> h" using False i nth_mem by (metis imageI)
        then show ?thesis using chain_height[OF inv, of "Height (e_block e)"] True by simp
      next
        case False
        then show ?thesis using chain_height[OF inv, of "Height (e_block e)"] tree_invD(4)[OF tree Some] by simp
      qed
      with Some show ?thesis by simp
    qed simp
    have f: "find (\<lambda>h. h \<in> block_Hash ` set (active_chain n)) (h # hs) = find (\<lambda>h. h \<in> block_Hash ` set (active_chain n)) hs"
      using False by simp
    show ?thesis unfolding s f by (rule Cons.IH)
  qed
qed simp


text \<open>C20: the answer to a locator continues the chain the two nodes share: it is a run of blocks of our
  active chain, at most as many as asked for, that starts right after the first entry of the locator
  found on that chain (at height 1 when there is none), and it is not empty while blocks are left.\<close>

theorem answer_continues_chain:
  assumes "env_ok E" and "reachable E n" and "n_tip n = Some t" and "Height (e_block t) + 1 \<noteq> 0"
  shows "\<exists>i j. blocksAfterLocator hs count n = take j (drop i (active_chain n)) \<and> j \<le> count
    \<and> (0 < count \<and> i < length (active_chain n) \<longrightarrow> 0 < j)
    \<and> (case find (\<lambda>h. h \<in> block_Hash ` set (active_chain n)) hs of None \<Rightarrow> i = 1
       | Some h \<Rightarrow> \<exists>k < length (active_chain n). block_Hash (active_chain n ! k) = h \<and> i = Suc k)"
proof -
  note inv = reachable_inv[OF assms(1,2)] and len = length_active_chain[OF reachable_inv[OF assms(1,2)] assms(3)]
  let ?i = "unat (locator_start n hs)"
  have "of_nat ?i = locator_start n hs" by simp
  then obtain j where j: "j \<le> count" "blocksAfterLocator hs count n = take j (drop ?i (active_chain n))"
    "0 < count \<and> ?i < length (active_chain n) \<longrightarrow> 0 < j"
    using collect_prefix[OF inv assms(3,4) unat_u64_less, of count "locator_start n hs" 0] assms(3)
    by (auto simp: blocksAfterLocator_def)
  have "Suc (unat (Height (e_block t))) < 2 ^ 64"
    using unatSuc[of "Height (e_block t)"] assms(4) unat_u64_less[of "1 + Height (e_block t)"] by (simp add: add.commute)
  then have next_u: "unat (of_nat k + 1 :: u64) = Suc k" if "k < length (active_chain n)" for k
    using unat_of_nat_u64[of "Suc k"] that unfolding len of_nat_Suc by (simp add: add.commute)
  show ?thesis
  proof (intro exI conjI)
    show "case find (\<lambda>h. h \<in> block_Hash ` set (active_chain n)) hs of None \<Rightarrow> ?i = 1
       | Some h \<Rightarrow> \<exists>k < length (active_chain n). block_Hash (active_chain n ! k) = h \<and> ?i = Suc k"
    proof (cases "find (\<lambda>h. h \<in> block_Hash ` set (active_chain n)) hs")
      case None
      with locator_start_find[OF inv assms(3), of hs] have "locator_start n hs = 1" by simp
      with None show ?thesis by simp
    next
      case (Some h)
      with locator_start_find[OF inv assms(3), of hs] obtain k where
        "k < length (active_chain n)" "block_Hash (active_chain n ! k) = h" "locator_start n hs = of_nat k + 1" by auto
      with Some next_u[of k] show ?thesis by (simp only: option.case) blast
    qed
  qed (use j in simp_all)
qed

subsection \<open>The tree\<close>

text \<open>C7: what is in the tree was checked. Every entry of a reachable node is stored under the hash of its
  header, and above height 0 its parent is in the tree one height below, its structure was valid at
  some time, its difficulty is the one the retarget rule asks for, its hash meets that target, and
  its work is its parent's plus its own.\<close>

theorem tree_is_checked:
  assumes "env_ok E" and "reachable E n" and "map_of (n_blocks n) h = Some e"
  shows "block_Hash (e_block e) = h \<and> (if Height (e_block e) = 0 then e_block e = Genesis (en_params E)
    else \<exists>par now. map_of (n_blocks n) (PrevHash (e_block e)) = Some par \<and> Height (e_block e) = Height (e_block par) + 1
      \<and> ValidateBasic (en_params E) (e_block e) (Some (e_block par)) now = Ret None
      \<and> Difficulty (e_block e) = NextDifficulty (en_params E) (Some (e_block par)) (anchorLocked (en_params E) (n_blocks n) par)
      \<and> MeetsTarget (e_block e) \<and> e_work e = e_work par + unat (Difficulty (e_block e)))"
proof -
  note tree = node_invD(1)[OF reachable_inv[OF assms(1,2)]]
  show ?thesis
  proof (cases "Height (e_block e) = 0")
    case True
    with tree_invD(2)[OF tree assms(3)] tree_genesis(2)[OF tree assms(3)] show ?thesis by simp
  next
    case False
    from tree_parent[OF tree assms(3) False] obtain par now where
      p: "map_of (n_blocks n) (PrevHash (e_block e)) = Some par" "basic_ok (en_params E) (e_block e) (e_block par) now"
      "Difficulty (e_block e) = NextDifficulty (en_params E) (Some (e_block par)) (anchorLocked (en_params E) (n_blocks n) par)"
      "ValidatePoW (e_block e) = None" "e_work e = e_work par + unat (Difficulty (e_block e))" by metis
    then have "ValidateBasic (en_params E) (e_block e) (Some (e_block par)) now = Ret None"
      "Height (e_block e) = Height (e_block par) + 1" "MeetsTarget (e_block e)"
      using ValidateBasic_ok basic_okD by (auto simp: ValidatePoW_def split: if_splits)
    with p tree_invD(2)[OF tree assms(3)] False show ?thesis by auto
  qed
qed

end
