(* ===== verification/WireFits.thy ===== *)
theory WireFits
  imports WireFacts NodeProps
begin

text \<open>
  Sizes on the wire. A transaction that verifies and a block of the active chain have short JSON
  forms, so the answers of a reachable node, cut at their budgets, fit the frame limit and survive
  the trip to the node that asked.
\<close>

subsection \<open>Text that is not escaped\<close>

definition plain_char :: "char \<Rightarrow> bool" where
  "plain_char c \<longleftrightarrow> 32 \<le> code c \<and> code c < 128 \<and> c \<noteq> CHR 0x22 \<and> c \<noteq> CHR 0x5C \<and> c \<noteq> CHR ''<'' \<and> c \<noteq> CHR ''>'' \<and> c \<noteq> CHR ''&''"

lemma escape_plain: "list_all plain_char s \<Longrightarrow> escape s = s"
  by (induction s) (auto simp: plain_char_def escape_ascii_def)

lemma length_quote_plain: "list_all plain_char s \<Longrightarrow> length (quote s) = length s + 2"
  by (simp add: quote_def escape_plain)

lemma utf8_ok_plain: "list_all plain_char s \<Longrightarrow> utf8_ok s"
  by (rule utf8_ok_ascii) (auto simp: plain_char_def list_all_iff)

lemma hex_plain: "list_all plain_char (hex_EncodeToString bs)"
proof -
  have "list_all plain_char hexAlphabet" by (simp add: hexAlphabet_def plain_char_def)
  then have "plain_char (hexAlphabet ! k)" if "k < 16" for k using that by (simp add: list_all_length)
  moreover have "unat (b :: byte) div 16 < 16" for b using unat_byte_less[of b] by simp
  ultimately show ?thesis by (simp add: hex_EncodeToString_def list_all_iff)
qed

lemma body_char_plain: "body_char c \<Longrightarrow> plain_char c"
proof -
  assume "body_char c"
  then have "97 \<le> code c \<and> code c \<le> 122 \<or> 50 \<le> code c \<and> code c \<le> 55"
    unfolding body_char_def less_eq_char_def by simp
  then show ?thesis by (auto simp: plain_char_def)
qed

lemma Valid_plain: "Valid s \<Longrightarrow> list_all plain_char s"
proof -
  assume v: "Valid s"
  then have "list_all body_char (take 32 (drop 4 s))" using Valid_length[OF v]
    by (simp add: Valid_def checksumLen_def Let_def split: if_splits)
  then have "list_all plain_char (take 32 (drop 4 s))" by (auto simp: list_all_iff body_char_plain)
  moreover have "list_all plain_char (computeChecksum b)" for b
    using hex_plain by (auto simp: computeChecksum_def list_all_iff dest!: in_set_takeD)
  moreover have "list_all plain_char AddressPrefix" by (simp add: AddressPrefix_def plain_char_def)
  ultimately have "list_all plain_char (AddressPrefix @ take 32 (drop 4 s) @ computeChecksum (take 32 (drop 4 s)))" by simp
  with Valid_form[OF v] show ?thesis by simp
qed

lemma b64_plain: "list_all plain_char (b64_encode bs)"
proof -
  have "list_all plain_char b64Alphabet" "length b64Alphabet = 64" by (simp_all add: b64Alphabet_def plain_char_def)
  then have p: "plain_char (b64_char k)" if "k < 64" for k using that by (simp add: list_all_length b64_char_def)
  have e: "plain_char (CHR ''='')" by (simp add: plain_char_def)
  show ?thesis by (induction bs rule: b64_encode.induct) (simp_all add: p e b64_parts)
qed

lemma length_b64: "length (b64_encode bs) = 4 * ((length bs + 2) div 3)"
proof (induction bs rule: b64_encode.induct)
  case (4 a b c bs)
  have "(length (a # b # c # bs) + 2) div 3 = Suc ((length bs + 2) div 3)" by simp
  with 4 show ?case by (simp del: length_Cons)
qed simp_all

subsection \<open>Lengths\<close>

lemma length_fmt_d: "n < 2 ^ 64 \<Longrightarrow> length (fmt_d n) \<le> 20"
proof -
  assume "n < 2 ^ 64"
  moreover have "(2 ^ 64 :: nat) \<le> 10 ^ Suc 19" by simp
  ultimately have "n < 10 ^ Suc 19" by (rule less_le_trans)
  from length_dec_digits[OF this] show ?thesis by (simp add: fmt_d_def)
qed

lemma length_enc_u64: "length (print (enc_u64 n)) \<le> 20"
  using length_fmt_d[of "unat n"] unsigned_less[of n] by (simp add: enc_u64_def)

lemma length_fmt_i: "int_ok i \<Longrightarrow> length (fmt_i i) \<le> 20"
proof -
  assume "int_ok i"
  then have l: "nat \<bar>i\<bar> \<le> 2 ^ 63" by (auto simp: int_ok_def)
  moreover have "(2 ^ 63 :: nat) < 10 ^ Suc 18" by simp
  ultimately have "nat \<bar>i\<bar> < 10 ^ Suc 18" by (rule le_less_trans)
  from length_dec_digits[OF this] show ?thesis by (simp add: fmt_i_def fmt_d_def abs_if split: if_splits)
qed

lemma length_enc_i64: "length (print (enc_i64 n)) \<le> 20"
proof -
  have "int_ok (sint n)" using sint_ge[of n] sint_lt[of n] by (simp add: int_ok_def)
  from length_fmt_i[OF this] show ?thesis by (simp add: enc_i64_def enc_int_def)
qed

lemma length_enc_hash: "length (print (enc_hash h)) = 66"
  using hex_plain[of "hash_bytes h"] length_hash_String[of h] by (simp add: enc_hash_def length_quote_plain hash_String_def)

lemma length_members: "length (print_members ms) \<le> (\<Sum>(k, v) \<leftarrow> ms. length (quote k) + length (print v) + 2)"
  by (induction ms) auto

lemma length_elems: "length (print_elems vs) \<le> (\<Sum>v \<leftarrow> vs. length (print v) + 1)"
  by (induction vs) auto

lemma length_elems_map:
  assumes "\<And>x. x \<in> set xs \<Longrightarrow> length (print (enc x)) \<le> f x"
  shows "length (print_elems (map enc xs)) \<le> (\<Sum>x \<leftarrow> xs. f x + 1)"
proof -
  have "(\<Sum>v \<leftarrow> map enc xs. length (print v) + 1) \<le> (\<Sum>x \<leftarrow> xs. f x + 1)"
    using assms by (simp add: comp_def) (rule sum_list_mono; simp)
  with length_elems[of "map enc xs"] show ?thesis by linarith
qed

subsection \<open>Transactions\<close>

lemma tx_Verify_shape:
  assumes "tx_Verify ed t = None"
  shows "list_all plain_char (From t) \<and> length (From t) \<le> 40 \<and> list_all plain_char (To t) \<and> length (To t) \<le> 40
    \<and> length (slice_bytes (PubKey t)) \<le> 32 \<and> length (slice_bytes (Sig t)) \<le> 64 \<and> PubKey t \<noteq> Some [] \<and> Sig t \<noteq> Some []"
proof (cases "IsCoinbase t")
  case True
  then have "From t = ''''" by (simp add: IsCoinbase_def CoinbaseAddress_def)
  moreover from assms True have "PubKey t = None" "Sig t = None" "Valid (To t)" by (simp_all add: tx_Verify_coinbase)
  ultimately show ?thesis using Valid_plain[of "To t"] Valid_length[of "To t"] by (simp add: slice_bytes_def)
next
  case False
  with assms have v: "Valid (From t)" "Valid (To t)" "length (slice_bytes (PubKey t)) = 32" "length (slice_bytes (Sig t)) = 64"
    by (auto simp: tx_Verify_regular crypto_Verify_def split: if_splits)
  then have "PubKey t \<noteq> Some []" "Sig t \<noteq> Some []" by (auto simp: slice_bytes_def)
  with v Valid_plain[of "From t"] Valid_plain[of "To t"] Valid_length[of "From t"] Valid_length[of "To t"] show ?thesis by simp
qed

lemma tx_Verify_json_ok: "tx_Verify ed t = None \<Longrightarrow> tx_json_ok t"
  using tx_Verify_shape[of ed t] by (simp add: tx_json_ok_def utf8_ok_plain)

lemma length_omit:
  assumes "length (slice_bytes bs) \<le> k" and "list_all plain_char n"
  shows "(\<Sum>(k, v) \<leftarrow> omit_empty n bs. length (quote k) + length (print v) + 2) \<le> length n + 4 * ((k + 2) div 3) + 6"
proof -
  have "(length (slice_bytes bs) + 2) div 3 \<le> (k + 2) div 3" using assms(1) by (intro div_le_mono) simp
  then show ?thesis using assms(2)
    by (auto simp: omit_empty_def enc_bytes_def slice_bytes_def length_quote_plain b64_plain length_b64 split: option.splits)
qed

lemma length_keys [simp]:
  "length (quote ''from'') = 6" "length (quote ''to'') = 4" "length (quote ''amount'') = 8" "length (quote ''fee'') = 5" "length (quote ''nonce'') = 7"
  "length (quote ''time'') = 6" "length (quote ''pub'') = 5" "length (quote ''sig'') = 5" "length (quote ''height'') = 8" "length (quote ''prev'') = 6"
  "length (quote ''difficulty'') = 12" "length (quote ''miner'') = 7" "length (quote ''extra_nonce'') = 13" "length (quote ''merkle'') = 8" "length (quote ''txs'') = 5"
  "length (quote ''type'') = 6" "length (quote ''payload'') = 9" "length (quote ''blocks'') = 8" "length (quote ''mempool'') = 9"
  by (simp_all add: length_quote_plain plain_char_def)

lemma length_enc_tx:
  assumes "tx_Verify ed t = None"
  shows "length (print (enc_tx t)) \<le> 400"
proof -
  note s = tx_Verify_shape[OF assms]
  have p: "length (print (enc_string (From t))) \<le> 42" "length (print (enc_string (To t))) \<le> 42"
    using s by (simp_all add: enc_string_def length_quote_plain)
  let ?ms = "[(''from'', enc_string (From t)), (''to'', enc_string (To t)), (''amount'', enc_u64 (Amount t)),
     (''fee'', enc_u64 (Fee t)), (''nonce'', enc_u64 (tx_Nonce t)), (''time'', enc_i64 (tx_Time t))]"
  let ?w = "\<lambda>ms. \<Sum>(k, v) \<leftarrow> ms. length (quote k) + length (print v) + 2"
  have "?w ?ms \<le> 218"
    using p length_enc_u64[of "Amount t"] length_enc_u64[of "Fee t"] length_enc_u64[of "tx_Nonce t"] length_enc_i64[of "tx_Time t"]
    by simp
  moreover have "?w (omit_empty ''pub'' (PubKey t)) \<le> 53" "?w (omit_empty ''sig'' (Sig t)) \<le> 97"
    using length_omit[of "PubKey t" 32 "''pub''"] length_omit[of "Sig t" 64 "''sig''"] s by (simp_all add: plain_char_def)
  moreover have "length (print (enc_tx t)) \<le> 2 + (?w ?ms + ?w (omit_empty ''pub'' (PubKey t)) + ?w (omit_empty ''sig'' (Sig t)))"
    using length_members[of "?ms @ omit_empty ''pub'' (PubKey t) @ omit_empty ''sig'' (Sig t)"] unfolding enc_tx_def
    by (simp del: print_members.simps)
  ultimately show ?thesis by linarith
qed

subsection \<open>Blocks of the active chain\<close>

lemma apply_txs_verified:
  "apply_txs ed ps f s = Ret (None, f', s') \<Longrightarrow> q \<in> set ps \<Longrightarrow> \<exists>t. q = Some t \<and> tx_Verify ed t = None"
proof (induction ps arbitrary: f s)
  case (Cons q' ps)
  then obtain t where "q' = Some t" by (cases q') auto
  with Cons show ?case by (auto simp: run_bind_eq_Ret Let_def split: option.splits if_splits)
qed simp

lemma ApplyBlock_verified:
  assumes "ApplyBlock ed p b s = Ret (None, s')" and "q \<in> set (Txs b)"
  shows "\<exists>t. q = Some t \<and> tx_Verify ed t = None"
proof -
  obtain p0 rest where b: "Txs b = p0 # rest" using assms(1) by (cases "Txs b") (simp_all add: ApplyBlock_def)
  with assms(1) obtain cb where cb: "p0 = Some cb" by (cases p0) (simp_all add: ApplyBlock_def)
  from assms(1) b cb obtain r f s1 where a: "apply_txs ed rest 0 s = Ret (r, f, s1)" by (auto simp: ApplyBlock_def run_bind_eq_Ret split: if_splits)
  with assms(1) b cb have "r = None" "tx_Verify ed cb = None"
    by (auto simp: ApplyBlock_def run_bind_eq_Ret Let_def split: if_splits option.splits)
  with a assms(2) b cb apply_txs_verified[of ed rest 0 s f s1] show ?thesis by auto
qed

lemma replay_verified:
  "replay ed p bs s = Ret (None, s') \<Longrightarrow> b \<in> set bs \<Longrightarrow> Height b \<noteq> 0 \<Longrightarrow> \<exists>s1 s2. ApplyBlock ed p b s1 = Ret (None, s2)"
  by (induction bs arbitrary: s) (auto simp: run_bind_eq_Ret split: if_splits)

definition compact_block :: "env \<Rightarrow> block \<Rightarrow> bool" where
  "compact_block E b \<longleftrightarrow> list_all plain_char (Miner b) \<and> length (Miner b) \<le> 40 \<and> length (Txs b) \<le> nat (MaxTxsPerBlock (en_params E))
     \<and> (\<forall>q \<in> set (Txs b). \<exists>t. q = Some t \<and> tx_Verify (en_ed E) t = None)"

lemma compact_chain:
  assumes inv: "node_inv E n" and t: "n_tip n = Some t" and i: "i < length (active_chain n)"
  shows "compact_block E (active_chain n ! i)"
proof -
  let ?e = "branch (n_blocks n) t ! i" and ?b = "active_chain n ! i"
  note tree = node_invD(1)[OF inv] and facts = tip_entry[OF inv t]
  have e: "map_of (n_blocks n) (e_hash ?e) = Some ?e" by (rule active_chain_hash(2)[OF inv t i])
  have b: "e_block ?e = ?b" using i by (simp add: facts(4))
  show ?thesis
  proof (cases "Height ?b = 0")
    case True
    then have "?b = Genesis (en_params E)" using tree_genesis(2)[OF tree e] b by simp
    then show ?thesis by (simp add: compact_block_def Genesis_def CoinbaseAddress_def)
  next
    case False
    then have "Height (e_block ?e) \<noteq> 0" unfolding b .
    then obtain par :: blockEntry and now where "basic_ok (en_params E) (e_block ?e) (e_block par) now"
      by (rule tree_parent[OF tree e]) blast
    then have p: "basic_ok (en_params E) ?b (e_block par) now" unfolding b .
    then have "Valid (Miner ?b)" "length (Txs ?b) \<le> nat (MaxTxsPerBlock (en_params E))" by (auto simp: basic_ok_def)
    moreover from replay_verified[OF active_chain_replays[OF inv] nth_mem[OF i] False]
    have "\<forall>q \<in> set (Txs ?b). \<exists>t. q = Some t \<and> tx_Verify (en_ed E) t = None" using ApplyBlock_verified by metis
    ultimately show ?thesis using Valid_plain[of "Miner ?b"] Valid_length[of "Miner ?b"] by (simp add: compact_block_def)
  qed
qed

lemma compact_json_ok: "compact_block E b \<Longrightarrow> block_json_ok b"
  by (force simp: compact_block_def block_json_ok_def list_all_iff tx_ptr_ok_def utf8_ok_plain tx_Verify_json_ok)

lemma length_enc_block:
  assumes "compact_block E b"
  shows "length (print (enc_block b)) \<le> 400 + 401 * length (Txs b)"
proof -
  have txs: "length (print (enc_slice (enc_pointer enc_tx) (Txs b))) \<le> 4 + 401 * length (Txs b)"
  proof (cases "Txs b = []")
    case False
    have "length (print (enc_pointer enc_tx q)) \<le> 400" if "q \<in> set (Txs b)" for q
      using that assms length_enc_tx by (auto simp: compact_block_def enc_pointer_def)
    from length_elems_map[of "Txs b" "enc_pointer enc_tx" "\<lambda>_. 400", OF this] False
    show ?thesis by (simp add: enc_slice_def sum_list_triv mult.commute)
  qed (simp add: enc_slice_def)
  have m: "length (print (enc_string (Miner b))) \<le> 42" using assms by (simp add: compact_block_def enc_string_def length_quote_plain)
  let ?ms = "[(''height'', enc_u64 (Height b)), (''prev'', enc_hash (PrevHash b)), (''time'', enc_i64 (Time b)),
     (''difficulty'', enc_u64 (Difficulty b)), (''miner'', enc_string (Miner b)), (''extra_nonce'', enc_u64 (ExtraNonce b)),
     (''merkle'', enc_hash (Merkle b)), (''nonce'', enc_u64 (Nonce b)), (''txs'', enc_slice (enc_pointer enc_tx) (Txs b))]"
  have "(\<Sum>(k, v) \<leftarrow> ?ms. length (quote k) + length (print v) + 2) \<le> 398 + 401 * length (Txs b)"
    using m txs length_enc_u64[of "Height b"] length_enc_u64[of "Difficulty b"] length_enc_u64[of "ExtraNonce b"] length_enc_u64[of "Nonce b"]
      length_enc_i64[of "Time b"] by (simp add: length_enc_hash)
  with length_members[of ?ms] show ?thesis unfolding enc_block_def by (simp del: print_members.simps)
qed

subsection \<open>The budgets\<close>

lemma collect_budget:
  assumes inv: "node_inv E n" "n_tip n = Some t" and "txs < syncTxBudget"
  shows "list_all (compact_block E) (collect n (Height (e_block t)) h txs k) \<and> length (collect n (Height (e_block t)) h txs k) \<le> k
    \<and> txs + (\<Sum>b \<leftarrow> collect n (Height (e_block t)) h txs k. length (Txs b)) < syncTxBudget + nat (MaxTxsPerBlock (en_params E)) + 1"
  using assms(3)
proof (induction k arbitrary: h txs)
  case (Suc k)
  show ?case
  proof (cases "h \<le> Height (e_block t)")
    case True
    let ?i = "unat h" and ?b = "active_chain n ! unat h"
    have i: "?i < length (active_chain n)" using True by (simp add: length_active_chain[OF inv] word_le_nat_alt less_Suc_eq_le)
    let ?e = "branch (n_blocks n) t ! ?i"
    have c: "n_chainHeights n h = Some (e_hash ?e)" using chain_height[OF inv, of h] True by simp
    have e: "map_of (n_blocks n) (e_hash ?e) = Some ?e" by (rule active_chain_hash(2)[OF inv i])
    have b: "e_block ?e = ?b" using i by (simp add: tip_entry(4)[OF inv])
    have cb: "compact_block E ?b" by (rule compact_chain[OF inv i])
    then have l: "length (Txs ?b) \<le> nat (MaxTxsPerBlock (en_params E))" by (simp add: compact_block_def)
    have step: "collect n (Height (e_block t)) h txs (Suc k) =
      (if txs + length (Txs ?b) \<ge> syncTxBudget then [?b] else ?b # collect n (Height (e_block t)) (h + 1) (txs + length (Txs ?b)) k)"
      unfolding collect.simps(2) c option.case e using True by (simp only: b simp_thms if_False option.case)
    show ?thesis
    proof (cases "txs + length (Txs ?b) \<ge> syncTxBudget")
      case True
      then show ?thesis unfolding step using cb l Suc.prems by simp
    next
      case False
      then show ?thesis unfolding step using Suc.IH[of "txs + length (Txs ?b)" "h + 1"] cb by (simp add: add.assoc)
    qed
  qed (use Suc.prems in simp)
qed simp

lemma answer_compact:
  assumes "node_inv E n"
  shows "list_all (compact_block E) (blocksAfterLocator hs k n) \<and> length (blocksAfterLocator hs k n) \<le> k
    \<and> (\<Sum>b \<leftarrow> blocksAfterLocator hs k n. length (Txs b)) \<le> syncTxBudget + nat (MaxTxsPerBlock (en_params E))"
proof (cases "n_tip n")
  case (Some t)
  have "0 < syncTxBudget" by (simp add: syncTxBudget_def)
  from collect_budget[OF assms Some this, of "locator_start n hs" k] Some show ?thesis by (simp add: blocksAfterLocator_def)
qed (simp add: blocksAfterLocator_def)

lemma length_envelope:
  assumes "list_all plain_char ty" and "length ty \<le> 20" and "length (print v) \<le> k"
  shows "length (Marshal enc_envelope (NewEnvelope ty v)) \<le> k + 50"
  using assms length_quote_plain[of ty] by (simp add: Marshal_def enc_envelope_def NewEnvelope_def enc_string_def)

lemma answer_fits:
  assumes "node_inv E n" and "MaxTxsPerBlock (en_params E) \<le> 10000" and "k \<le> 500"
  shows "length (Marshal enc_envelope (message_envelope (MsgBlocks (map Some (blocksAfterLocator hs k n))))) \<le> MaxFrameSize"
proof -
  let ?out = "blocksAfterLocator hs k n"
  note a = answer_compact[OF assms(1), of hs k]
  have "length (print (enc_pointer enc_block q)) \<le> 400 + 401 * length (Txs (the q))" if "q \<in> set (map Some ?out)" for q
    using that a length_enc_block by (auto simp: list_all_iff enc_pointer_def)
  from length_elems_map[of "map Some ?out" "enc_pointer enc_block" "\<lambda>q. 400 + 401 * length (Txs (the q))", OF this]
  have "length (print_elems (map (enc_pointer enc_block) (map Some ?out))) \<le> (\<Sum>b \<leftarrow> ?out. 400 + 401 * length (Txs b) + 1)"
    by (simp add: comp_def)
  also have "\<dots> = 401 * length ?out + 401 * (\<Sum>b \<leftarrow> ?out. length (Txs b))"
    by (simp add: sum_list_addf sum_list_const_mult sum_list_triv)
  also have "\<dots> \<le> 401 * 500 + 401 * (5000 + 10000)"
    using a assms(2,3) by (intro add_mono mult_le_mono) (auto simp: syncTxBudget_def)
  finally have "length (print (enc_one ''blocks'' (enc_array (enc_pointer enc_block) (map Some ?out)))) \<le> 6300000"
    by (simp add: enc_one_def enc_array_def)
  from length_envelope[OF _ _ this, of "''blocks''"] show ?thesis
    by (simp add: message_envelope_def MaxFrameSize_def plain_char_def)
qed

lemma pool_txs_verified:
  assumes "node_inv E n" and "t \<in> set (pool_txs n)"
  shows "tx_Verify (en_ed E) t = None"
  using node_invD(6)[OF assms(1)] assms(2) by (auto simp: pool_inv_def pool_ok_def pool_txs_def)

lemma mempool_reply_fits:
  assumes "node_inv E n"
  shows "length (Marshal enc_envelope (message_envelope (MsgMempool (map Some (mempool_reply n))))) \<le> MaxFrameSize"
proof -
  let ?out = "mempool_reply n"
  have "length (print (enc_pointer enc_tx q)) \<le> 400" if "q \<in> set (map Some ?out)" for q
    using that length_enc_tx[OF pool_txs_verified[OF assms]] by (auto simp: mempool_reply_def enc_pointer_def dest!: in_set_takeD)
  from length_elems_map[of "map Some ?out" "enc_pointer enc_tx" "\<lambda>_. 400", OF this]
  have "length (print_elems (map (enc_pointer enc_tx) (map Some ?out))) \<le> 401 * length ?out" by (simp add: sum_list_triv comp_def mult.commute)
  also have "\<dots> \<le> 401 * 5000" by (intro mult_le_mono) (simp_all add: mempool_reply_def mempoolReplyBudget_def)
  finally have "length (print (enc_one ''txs'' (enc_array (enc_pointer enc_tx) (map Some ?out)))) \<le> 2100000"
    by (simp add: enc_one_def enc_array_def)
  from length_envelope[OF _ _ this, of "''mempool''"] show ?thesis
    by (simp add: message_envelope_def MaxFrameSize_def plain_char_def)
qed

end
