(* ===== verification/WireProps.thy ===== *)
theory WireProps
  imports WireFits
begin

text \<open>
  Properties of the wire: frames survive a stream, a hostile stream costs little, and what a reachable
  node answers reaches the peer that asked, as the message it is.
\<close>

subsection \<open>Streams of frames\<close>

lemma ReadFrame_used:
  assumes "ReadFrame s = (r, s')"
  shows "\<exists>used. s = used @ s' \<and> length used \<le> 4 + MaxFrameSize
    \<and> (case r of Inl e \<Rightarrow> True | Inr env \<Rightarrow> 4 \<le> length used \<and> env_Type env \<noteq> '''')"
proof (cases "4 \<le> length s")
  case False
  then have "s' = []" "\<exists>e. r = Inl e" using assms by (auto simp: ReadFrame_def ReadFull_def)
  then show ?thesis using False by (intro exI[of _ s]) auto
next
  case True
  let ?n = "SetBytes (take 4 s)"
  have full: "ReadFull 4 s = (Inr (take 4 s), drop 4 s)" using True by (simp add: ReadFull_def)
  show ?thesis
  proof (cases "?n > MaxFrameSize")
    case big: True
    then show ?thesis using assms True full by (intro exI[of _ "take 4 s"]) (auto simp: ReadFrame_def Let_def)
  next
    case small: False
    show ?thesis
    proof (cases "?n \<le> length (drop 4 s)")
      case False
      then have "s' = []" "\<exists>e. r = Inl e" using assms full small by (auto simp: ReadFrame_def ReadFull_def Let_def)
      then show ?thesis using False small by (intro exI[of _ s]) auto
    next
      case fits: True
      have "take (4 + ?n) s @ drop (4 + ?n) s = s" by (rule append_take_drop_id)
      moreover have "s' = drop (4 + ?n) s" "case r of Inl e \<Rightarrow> True | Inr env \<Rightarrow> env_Type env \<noteq> ''''"
        using assms full small fits
        by (auto simp: ReadFrame_def ReadFull_def Let_def add.commute split: option.splits if_splits)
      ultimately show ?thesis using fits True small by (intro exI[of _ "take (4 + ?n) s"]) (auto split: sum.splits)
    qed
  qed
qed

text \<open>The loop of \<open>serveConn\<close> around \<open>ReadFrame\<close>: the envelopes of a stream, and the error that ends it.\<close>

function read_frames :: "bytes \<Rightarrow> envelope list \<times> frame_error" where
  "read_frames s = (case ReadFrame s of (Inl e, s') \<Rightarrow> ([], e)
     | (Inr env, s') \<Rightarrow> (case read_frames s' of (envs, e) \<Rightarrow> (env # envs, e)))"
  by pat_completeness auto
termination
proof (relation "measure length", goal_cases)
  case (2 s x s' env)
  then have "ReadFrame s = (Inr env, s')" by simp
  from ReadFrame_used[OF this] show ?case by auto
qed simp

declare read_frames.simps [simp del]

text \<open>C12: frames survive the stream. However many envelopes are written one after another, each with a type and
  within the limit, the other side reads exactly them, in order, and then the end of the stream.\<close>

theorem frames_survive:
  assumes "list_all (\<lambda>e. envelope_ok e \<and> length (Marshal enc_envelope e) \<le> MaxFrameSize) es"
  shows "list_all (\<lambda>e. fst (WriteFrame None None e) = None) es
    \<and> read_frames (concat (map (\<lambda>e. snd (WriteFrame None None e)) es)) = (es, EOF)"
  using assms
proof (induction es)
  case Nil
  show ?case by (simp add: read_frames.simps[of "[]"] ReadFrame_def ReadFull_def)
next
  case (Cons e es)
  then have e: "envelope_ok e" "length (Marshal enc_envelope e) \<le> MaxFrameSize" by simp_all
  let ?rest = "concat (map (\<lambda>e. snd (WriteFrame None None e)) es)"
  have "read_frames (frame_bytes e @ ?rest) = (e # es, EOF)"
    using ReadFrame_frame[OF e, of ?rest] Cons by (simp add: read_frames.simps[of "frame_bytes e @ _"])
  then show ?case using WriteFrame_ok[OF e(2)] Cons by simp
qed

definition demo_envelope :: envelope where
  "demo_envelope = message_envelope MsgGetMempool"

lemma demo_envelope_ok: "envelope_ok demo_envelope" "length (Marshal enc_envelope demo_envelope) \<le> MaxFrameSize"
proof -
  show "envelope_ok demo_envelope"
    by (simp add: demo_envelope_def message_envelope_def NewEnvelope_def envelope_ok_def maxNestingDepth_def)
  have "length (print (JObj [])) \<le> 2" by simp
  from length_envelope[OF _ _ this, of "''getmempool''"] show "length (Marshal enc_envelope demo_envelope) \<le> MaxFrameSize"
    by (simp add: demo_envelope_def message_envelope_def MaxFrameSize_def plain_char_def)
qed

theorem frames_survive_witness:
  "read_frames (concat (map (\<lambda>e. snd (WriteFrame None None e)) [demo_envelope, demo_envelope])) = ([demo_envelope, demo_envelope], EOF)"
proof -
  have "list_all (\<lambda>e. envelope_ok e \<and> length (Marshal enc_envelope e) \<le> MaxFrameSize) [demo_envelope, demo_envelope]"
    using demo_envelope_ok by simp
  from conjunct2[OF frames_survive[OF this]] show ?thesis .
qed





subsection \<open>Answers\<close>

text \<open>A message is delivered: its frame can be written, is read back whole, and the node that reads it handles the message.\<close>

definition delivered :: "message \<Rightarrow> bool" where
  "delivered msg \<longleftrightarrow> (\<exists>bs. WriteFrame None None (message_envelope msg) = (None, bs)
     \<and> (\<forall>rest. ReadFrame (bs @ rest) = (Inr (message_envelope msg), rest))
     \<and> (\<forall>E p n. onEnvelope E p (message_envelope msg) n = onMessage E p msg n))"

lemma message_envelope_ok: "message_json_ok msg \<Longrightarrow> envelope_ok (message_envelope msg)"
proof -
  assume ok: "message_json_ok msg"
  have one: "json_ok (enc_one k v) = (utf8_ok k \<and> json_ok v)" "depth (enc_one k v) = Suc (depth v)" for k v
    by (simp_all add: enc_one_def)
  have big: "5 < maxNestingDepth" by (simp add: maxNestingDepth_def)
  show ?thesis
  proof (cases msg)
    case (MsgGetBlocks hs c)
    have "list_all (\<lambda>_. True) hs" by (simp add: list_all_iff)
    from hashes_json.enc_ok[OF this] MsgGetBlocks big show ?thesis
      by (simp add: message_envelope_def NewEnvelope_def envelope_ok_def)
  next
    case (MsgBlocks bs)
    with ok block_array.enc_ok[of bs] big show ?thesis
      by (simp add: message_json_ok_def message_envelope_def NewEnvelope_def envelope_ok_def one)
  next
    case (MsgNewBlock b)
    with ok block_ptr.enc_ok[of b] big show ?thesis
      by (simp add: message_json_ok_def message_envelope_def NewEnvelope_def envelope_ok_def one)
  next
    case (MsgNewTx t)
    with ok tx_ptr.enc_ok[of t] big show ?thesis
      by (simp add: message_json_ok_def message_envelope_def NewEnvelope_def envelope_ok_def one)
  next
    case (MsgMempool ts)
    with ok tx_array.enc_ok[of ts] big show ?thesis
      by (simp add: message_json_ok_def message_envelope_def NewEnvelope_def envelope_ok_def one)
  qed (simp add: message_envelope_def NewEnvelope_def envelope_ok_def maxNestingDepth_def)
qed

lemma delivered_if:
  "message_json_ok msg \<Longrightarrow> length (Marshal enc_envelope (message_envelope msg)) \<le> MaxFrameSize \<Longrightarrow> delivered msg"
  using WriteFrame_ok ReadFrame_frame[OF message_envelope_ok] onEnvelope_message by (auto simp: delivered_def)

text \<open>C16: answers arrive. What a reachable node answers to a request for blocks, at most 500 of them cut at the
  budget of transactions, and to a request for its mempool, fits into a frame, is read back by the peer
  unchanged, and is handled there as the message it is; the answer to \<open>getblocks\<close> is sent unless it is empty.\<close>

theorem answers_arrive:
  assumes "env_ok E" and "reachable E n" and "MaxTxsPerBlock (en_params E) \<le> 10000"
  shows "(case blocksAfterLocator hs (nat (if c \<le> 0 \<or> c > syncBatch then syncBatch else c)) n of [] \<Rightarrow> onGetBlocks E p (Some (hs, c)) n = Ret n
      | out \<Rightarrow> onGetBlocks E p (Some (hs, c)) n = Ret (emit (SendTo (peer_id p) (MsgBlocks (map Some out))) n) \<and> delivered (MsgBlocks (map Some out)))
    \<and> (case mempool_reply n of [] \<Rightarrow> onGetMempool p n = n
      | txs \<Rightarrow> onGetMempool p n = emit (SendTo (peer_id p) (MsgMempool (map Some txs))) n \<and> delivered (MsgMempool (map Some txs)))"
proof (intro conjI)
  note inv = reachable_inv[OF assms(1,2)]
  let ?k = "nat (if c \<le> 0 \<or> c > syncBatch then syncBatch else c)"
  let ?out = "blocksAfterLocator hs ?k n"
  have compact: "list_all (compact_block E) ?out" using answer_compact[OF inv, of hs ?k] by (rule conjunct1)
  have k: "?k \<le> 500" by (auto simp: syncBatch_def)
  have "list_all block_json_ok ?out" using compact by (rule list.pred_mono_strong) (rule compact_json_ok)
  then have "message_json_ok (MsgBlocks (map Some ?out))" by (simp add: message_json_ok_def block_ptr_ok_def list_all_iff)
  from delivered_if[OF this answer_fits[OF inv assms(3) k]] have d: "delivered (MsgBlocks (map Some ?out))" .
  show "case blocksAfterLocator hs (nat (if c \<le> 0 \<or> c > syncBatch then syncBatch else c)) n of [] \<Rightarrow> onGetBlocks E p (Some (hs, c)) n = Ret n
      | out \<Rightarrow> onGetBlocks E p (Some (hs, c)) n = Ret (emit (SendTo (peer_id p) (MsgBlocks (map Some out))) n) \<and> delivered (MsgBlocks (map Some out))"
    using d by (cases ?out) (auto simp: onGetBlocks_def Let_def)
  have "message_json_ok (MsgMempool (map Some (mempool_reply n)))"
    using pool_txs_verified[OF inv] tx_Verify_json_ok
    by (auto simp: message_json_ok_def tx_ptr_ok_def list_all_iff mempool_reply_def dest!: in_set_takeD)
  from delivered_if[OF this mempool_reply_fits[OF inv]]
  show "case mempool_reply n of [] \<Rightarrow> onGetMempool p n = n
      | txs \<Rightarrow> onGetMempool p n = emit (SendTo (peer_id p) (MsgMempool (map Some txs))) n \<and> delivered (MsgMempool (map Some txs))"
    by (cases "mempool_reply n") (auto simp: onGetMempool_def Let_def)
qed

end
