(* ===== verification/Store.thy ===== *)
theory Store
  imports WireFits
begin

text \<open>
  \<open>internal/store/store.go\<close>: the block file, one JSON line per block, appended to and read back at the
  start, and the file of known peers. The disk is the contents of the two files, \<open>None\<close> where one
  does not exist; whether a call of the operating system succeeds is an argument, and a failing write
  may have written a part. \<open>bufio.Scanner\<close>, which reads the lines, gives up on a line that fills its
  buffer.
\<close>

record disk =
  d_blocks :: "string option"
  d_peers :: "string option"

definition newline :: char where
  "newline = CHR 0x0A"

subsection \<open>The block file\<close>

text \<open>The arguments: whether the directory and the file could be made.\<close>

definition store_Open :: "bool \<Rightarrow> bool \<Rightarrow> disk \<Rightarrow> disk option" where
  "store_Open mkdir openfile d = (if \<not> mkdir then None else if \<not> openfile then None
     else Some (d\<lparr>d_blocks := Some (case d_blocks d of None \<Rightarrow> '''' | Some s \<Rightarrow> s)\<rparr>))"

definition block_line :: "block \<Rightarrow> string" where
  "block_line b = Marshal enc_block b @ [newline]"

definition AppendBlock :: "nat option \<Rightarrow> block \<Rightarrow> disk \<Rightarrow> bool \<times> disk" where
  "AppendBlock fate b d = (let data = block_line b in case fate of
     None \<Rightarrow> (True, d\<lparr>d_blocks := map_option (\<lambda>s. s @ data) (d_blocks d)\<rparr>)
   | Some k \<Rightarrow> (False, d\<lparr>d_blocks := map_option (\<lambda>s. s @ take k data) (d_blocks d)\<rparr>))"

definition maxLine :: nat where
  "maxLine = 8388608"

definition dropCR :: "string \<Rightarrow> string" where
  "dropCR line = (if line \<noteq> [] \<and> last line = CHR 0x0D then butlast line else line)"

datatype load_error = OpenFailed | CorruptLine | LineTooLong

text \<open>The loop over \<open>sc.Scan()\<close> on what is left of the file.\<close>

function load_lines :: "string \<Rightarrow> load_error + block list" where
  "load_lines s = (if s = [] then Inr [] else
     let line = takeWhile (\<lambda>c. c \<noteq> newline) s; rest = drop (Suc (length line)) s in
     if length line \<ge> maxLine then Inl LineTooLong
     else if dropCR line = [] then load_lines rest
     else case Unmarshal dec_block zero_block (dropCR line) of None \<Rightarrow> Inl CorruptLine
     | Some b \<Rightarrow> (case load_lines rest of Inl e \<Rightarrow> Inl e | Inr bs \<Rightarrow> Inr (b # bs)))"
  by pat_completeness auto
termination
  by (relation "measure length") (auto simp: Let_def)

declare load_lines.simps [simp del]

definition LoadBlocks :: "bool \<Rightarrow> disk \<Rightarrow> load_error + block list" where
  "LoadBlocks openfile d = (case d_blocks d of None \<Rightarrow> Inr []
     | Some s \<Rightarrow> if \<not> openfile then Inl OpenFailed else load_lines s)"

subsection \<open>The file of peers\<close>

text \<open>\<open>json.MarshalIndent\<close> of a slice of strings that is not nil, with two blanks.\<close>

definition indent_strings :: "string list \<Rightarrow> string" where
  "indent_strings xs = (if xs = [] then ''[]''
     else CHR ''['' # newline # concat (map (\<lambda>x. ''  '' @ quote x @ [CHR '','', newline]) (butlast xs))
       @ ''  '' @ quote (last xs) @ [newline, CHR '']''])"

text \<open>The text goes to a temporary file that is renamed over the old one.\<close>

definition SavePeers :: "bool \<Rightarrow> bool \<Rightarrow> string list \<Rightarrow> disk \<Rightarrow> bool \<times> disk" where
  "SavePeers write rename addrs d = (let data = indent_strings addrs in
     if \<not> write then (False, d) else if \<not> rename then (False, d)
     else (True, d\<lparr>d_peers := Some (data @ [newline])\<rparr>))"

definition LoadPeers :: "bool \<Rightarrow> disk \<Rightarrow> string list option" where
  "LoadPeers readfile d = (case d_peers d of None \<Rightarrow> Some []
     | Some s \<Rightarrow> if \<not> readfile then None else Unmarshal (dec_slice dec_string '''') [] s)"

subsection \<open>Reading back what was appended\<close>

lemma escape_no_control: "c \<in> set (escape s) \<Longrightarrow> 32 \<le> code c"
proof (induction s rule: escape.induct)
  case (2 a s)
  have hd: "32 \<le> code (hex_digit k)" if "k < 16" for k
  proof -
    have "list_all (\<lambda>c. 32 \<le> code c) hexAlphabet" "length hexAlphabet = 16" by (simp_all add: hexAlphabet_def)
    then show ?thesis using that by (simp add: list_all_length hex_digit_def)
  qed
  show ?case
  proof (cases "code a < 128")
    case True
    have "32 \<le> code c" if "c \<in> set (escape_ascii a)"
    proof -
      have d: "code a div 16 < 16" using True by simp
      from escape_ascii_cases[of a] that show ?thesis by (auto simp: is_escape_def hd d)
    qed
    with 2 True show ?thesis by auto
  next
    case False
    show ?thesis
    proof (cases "utf8_size (a # s)")
      case None
      with 2 False show ?thesis by (auto simp del: utf8_size.simps)
    next
      case (Some k)
      have "c \<in> set (take k (a # s)) \<Longrightarrow> 32 \<le> code c" using utf8_size_high[OF Some] False by (auto simp: list_all_iff)
      with 2 False Some hd show ?thesis by (auto simp: Let_def simp del: utf8_size.simps split: if_splits)
    qed
  qed
qed simp

text \<open>The text of a well-formed value is one line.\<close>

lemma num_step_char: "num_step ns c = Some ns' \<Longrightarrow> 32 \<le> code c"
  by (cases ns) (auto simp: num_step_def is_digit_code exponent_char_def split: if_splits)

lemma num_run_chars: "num_run ns t = Some ns' \<Longrightarrow> c \<in> set t \<Longrightarrow> 32 \<le> code c"
  by (induction t arbitrary: ns) (auto dest: num_step_char split: option.splits)

lemma number_chars: "number_ok t \<Longrightarrow> c \<in> set t \<Longrightarrow> 32 \<le> code c"
  by (auto simp: number_ok_def num_start_def is_digit_code dest: num_run_chars split: list.splits option.splits if_splits)

lemma quote_chars: "c \<in> set (quote s) \<Longrightarrow> 32 \<le> code c"
  using escape_no_control[of c s] by (auto simp: quote_def)

lemma print_chars:
  "json_ok v \<Longrightarrow> c \<in> set (print v) \<Longrightarrow> 32 \<le> code c"
  "(\<forall>v \<in> set vs. json_ok v) \<Longrightarrow> c \<in> set (print_elems vs) \<Longrightarrow> 32 \<le> code c"
  "(\<forall>(k, v) \<in> set ms. utf8_ok k \<and> json_ok v) \<Longrightarrow> c \<in> set (print_members ms) \<Longrightarrow> 32 \<le> code c"
  by (induction v and vs and ms rule: print_print_elems_print_members.induct)
    (auto dest: number_chars quote_chars split: if_splits)

lemma Marshal_line:
  assumes "block_json_ok b"
  shows "takeWhile (\<lambda>c. c \<noteq> newline) (block_line b @ rest) = Marshal enc_block b"
    and "dropCR (Marshal enc_block b) = Marshal enc_block b" and "Marshal enc_block b \<noteq> []"
proof -
  have c: "32 \<le> code c" if "c \<in> set (Marshal enc_block b)" for c
    using print_chars(1)[of "enc_block b" c] block_json.enc_ok[OF assms] that by (simp add: Marshal_def)
  then have "c \<noteq> newline" "c \<noteq> CHR 0x0D" if "c \<in> set (Marshal enc_block b)" for c using that by (fastforce simp: newline_def)+
  then show "takeWhile (\<lambda>c. c \<noteq> newline) (block_line b @ rest) = Marshal enc_block b"
    by (simp add: block_line_def takeWhile_append2 takeWhile_tail)
  show nonempty: "Marshal enc_block b \<noteq> []" by (simp add: Marshal_def enc_block_def)
  with \<open>\<And>c. c \<in> set (Marshal enc_block b) \<Longrightarrow> c \<noteq> CHR 0x0D\<close> last_in_set[OF nonempty]
  show "dropCR (Marshal enc_block b) = Marshal enc_block b" by (simp add: dropCR_def)
qed

lemma load_line:
  assumes "block_json_ok b" and "length (Marshal enc_block b) < maxLine"
  shows "load_lines (block_line b @ rest) = (case load_lines rest of Inl e \<Rightarrow> Inl e | Inr bs \<Rightarrow> Inr (b # bs))"
proof -
  note l = Marshal_line[OF assms(1)]
  have "3 \<le> maxNestingDepth" by (simp add: maxNestingDepth_def)
  from block_json.Unmarshal_Marshal[OF this assms(1)] have u: "Unmarshal dec_block zero_block (Marshal enc_block b) = Some b" .
  have n: "(block_line b @ rest = []) = False" by (simp add: block_line_def)
  have d: "drop (Suc (length (Marshal enc_block b))) (block_line b @ rest) = rest" by (simp add: block_line_def)
  show ?thesis
    unfolding load_lines.simps[of "block_line b @ rest"] n l(1) Let_def d l(2) u option.case using l(3) assms(2) by simp
qed

lemma load_line_too_long:
  assumes "block_json_ok b" and "maxLine \<le> length (Marshal enc_block b)"
  shows "load_lines (block_line b @ rest) = Inl LineTooLong"
proof -
  have n: "(block_line b @ rest = []) = False" by (simp add: block_line_def)
  show ?thesis unfolding load_lines.simps[of "block_line b @ rest"] n Marshal_line(1)[OF assms(1)] Let_def using assms(2) by simp
qed

lemma load_lines_append:
  "list_all (\<lambda>b. block_json_ok b \<and> length (Marshal enc_block b) < maxLine) bs \<Longrightarrow>
    load_lines (concat (map block_line bs) @ rest) = (case load_lines rest of Inl e \<Rightarrow> Inl e | Inr cs \<Rightarrow> Inr (bs @ cs))"
  by (induction bs) (auto simp: load_line split: sum.splits)

lemma load_lines_Nil [simp]: "load_lines [] = Inr []"
  by (simp add: load_lines.simps[of "[]"])

lemma AppendBlock_run:
  "d_blocks d = Some s \<Longrightarrow> fold (\<lambda>b d. snd (AppendBlock None b d)) bs d = d\<lparr>d_blocks := Some (s @ concat (map block_line bs))\<rparr>"
  by (induction bs arbitrary: d s) (simp_all add: AppendBlock_def)

end
