(* ===== verification/StoreProps.thy ===== *)
theory StoreProps
  imports Store
begin

text \<open>
  Properties of the files: what was appended is loaded, what a write left unfinished or a line that is
  too long does to the next start, and the round trip of the peers.
\<close>

subsection \<open>Blocks\<close>

definition line_ok :: "block \<Rightarrow> bool" where
  "line_ok b \<longleftrightarrow> block_json_ok b \<and> length (Marshal enc_block b) < maxLine"

definition append_all :: "block list \<Rightarrow> disk \<Rightarrow> disk" where
  "append_all bs d = fold (\<lambda>b d. snd (AppendBlock None b d)) bs d"

lemma append_all_blocks: "d_blocks d = Some s \<Longrightarrow> append_all bs d = d\<lparr>d_blocks := Some (s @ concat (map block_line bs))\<rparr>"
  unfolding append_all_def by (rule AppendBlock_run)


lemma zero_block_line: "line_ok zero_block"
proof -
  have "compact_block E zero_block" for E by (simp add: compact_block_def zero_block_def)
  from length_enc_block[OF this] have "length (Marshal enc_block zero_block) \<le> 400" by (simp add: Marshal_def zero_block_def)
  then show ?thesis by (simp add: line_ok_def block_json_ok_def zero_block_def maxLine_def)
qed


definition opened_disk :: disk where
  "opened_disk = \<lparr> d_blocks = Some '''', d_peers = None \<rparr>"


text \<open>C33: one line that is too long locks the node out. The store appends every block, but the reader gives up on
  a line of eight megabytes: wherever such a block stands in the file, \<open>LoadBlocks\<close> fails, and no later
  append repairs it.\<close>

theorem long_line_stops_loading:
  assumes "d_blocks d = Some ''''" and "list_all line_ok bs" and "block_json_ok b" and "maxLine \<le> length (Marshal enc_block b)"
  shows "LoadBlocks True (append_all (bs @ b # cs) d) = Inl LineTooLong"
proof -
  have "list_all (\<lambda>b. block_json_ok b \<and> length (Marshal enc_block b) < maxLine) bs" using assms(2) by (simp add: line_ok_def[abs_def])
  from load_lines_append[OF this, of "block_line b @ concat (map block_line cs)"] load_line_too_long[OF assms(3,4)]
  show ?thesis using append_all_blocks[OF assms(1), of "bs @ b # cs"] by (simp add: LoadBlocks_def)
qed

definition long_block :: block where
  "long_block = zero_block\<lparr>Miner := replicate maxLine (CHR ''a'')\<rparr>"

theorem long_line_stops_loading_witness: "LoadBlocks True (append_all [zero_block, long_block, zero_block] opened_disk) = Inl LineTooLong"
proof -
  have p: "list_all plain_char (replicate maxLine (CHR ''a''))" by (simp add: list_all_iff plain_char_def)
  have ok: "block_json_ok long_block" using utf8_ok_plain[OF p] by (simp add: long_block_def block_json_ok_def zero_block_def)
  have "maxLine \<le> length (quote (Miner long_block))" using length_quote_plain[OF p] by (simp add: long_block_def)
  also have "\<dots> \<le> length (Marshal enc_block long_block)" by (simp add: Marshal_def enc_block_def enc_string_def)
  finally have long: "maxLine \<le> length (Marshal enc_block long_block)" .
  have "list_all line_ok [zero_block]" using zero_block_line by simp
  from long_line_stops_loading[OF _ this ok long, of opened_disk "[zero_block]"] show ?thesis by (simp add: opened_disk_def)
qed

subsection \<open>A torn write\<close>

text \<open>Inside an object the scanner has something open; once the object is closed only white space may follow.\<close>

definition not_done :: "scanner \<Rightarrow> bool" where
  "not_done s \<longleftrightarrow> snd s \<noteq> [] \<or> (\<exists>v. fst s = EndValue v)"

lemma end_value_not_done: "end_value v c st = Some s \<Longrightarrow> not_done s"
  by (auto simp: end_value_def not_done_def split: if_splits list.splits opened.splits)

lemma scan_step_not_done: "not_done s \<Longrightarrow> scan_step s c = Some s' \<Longrightarrow> not_done s'"
proof -
  assume s: "not_done s" and step: "scan_step s c = Some s'"
  obtain mode st where m: "s = (mode, st)" by fastforce
  have e: "end_string raw st = Some s' \<Longrightarrow> st \<noteq> [] \<Longrightarrow> not_done s'" for raw
    by (auto simp: end_string_def not_done_def split: option.splits list.splits opened.splits)
  have b: "begin_value c st = Some s' \<Longrightarrow> st \<noteq> [] \<Longrightarrow> not_done s'"
    by (auto simp: begin_value_def push_def not_done_def split: if_splits)
  show ?thesis
  proof (cases mode)
    case (EndValue v)
    then show ?thesis using step m end_value_not_done by simp
  next
    case (InNumber ns acc)
    then show ?thesis using s step m end_value_not_done
      by (auto simp: scan_step_def not_done_def split: option.splits if_splits)
  qed (use s step m e b in \<open>auto simp: scan_step_def not_done_def split: if_splits list.splits opened.splits\<close>)
qed

lemma scan_all_not_done: "not_done s \<Longrightarrow> scan_all cs s = Some s' \<Longrightarrow> not_done s'"
  by (induction cs arbitrary: s) (auto split: option.splits dest: scan_step_not_done)

lemma scan_all_closed:
  "scan_all cs (EndValue v, []) \<noteq> None \<Longrightarrow> list_all isSpace cs"
  by (induction cs) (auto simp: end_value_def split: if_splits option.splits)

text \<open>An object is complete with its closing brace.\<close>

lemma object_end:
  assumes "scan_all (CHR ''{'' # p) scan_start = Some s" and "scan_step s (CHR '' '') = Some (EndValue w, [])"
  shows "s = (EndValue w, [])"
proof -
  have "scan_step scan_start (CHR ''{'') = Some (BeginStringOrEmpty, [InKey []])"
    by (simp add: scan_step_def scan_start_def begin_value_def push_def isSpace_def maxNestingDepth_def)
  then have "scan_all p (BeginStringOrEmpty, [InKey []]) = Some s" using assms(1) by simp
  from scan_all_not_done[OF _ this] have nd: "not_done s" by (simp add: not_done_def)
  obtain mode st where m: "s = (mode, st)" by fastforce
  have "st = []"
    using assms(2) m nd
    by (cases mode) (auto simp: scan_step_def not_done_def end_value_def isSpace_def begin_value_def push_def end_string_def
        split: if_splits option.splits list.splits opened.splits)
  then show ?thesis using assms(2) m nd by (auto simp: not_done_def end_value_def isSpace_def)
qed

lemma scan_print_object:
  assumes "json_ok (JObj ms)" and "depth (JObj ms) \<le> maxNestingDepth"
  shows "scan_all (print (JObj ms)) scan_start = Some (EndValue (JObj ms), [])"
proof -
  have "scan_all (print (JObj ms) @ '' '') scan_start = Some (EndValue (JObj ms), [])"
    using scan_print(1)[OF assms(1), of "[]" "CHR '' ''" "[]"] assms(2)
    by (simp add: scan_start_def closer_def isSpace_def end_value_def)
  then obtain s where s: "scan_all (print (JObj ms)) scan_start = Some s" "scan_step s (CHR '' '') = Some (EndValue (JObj ms), [])"
    by (auto simp: scan_all_append split: option.splits)
  then show ?thesis using object_end[of "print_members ms @ ''}''" s] by simp
qed

text \<open>\<open>Decode\<close> stops where the object ends.\<close>

lemma scan_first_complete:
  "scan_all p s = Some (EndValue v, []) \<Longrightarrow> p \<noteq> [] \<Longrightarrow> \<not> isSpace (last p) \<Longrightarrow> scan_first (p @ rest) s = Some v"
proof (induction p arbitrary: s)
  case (Cons c p)
  then obtain s' where s': "scan_step s c = Some s'" "scan_all p s' = Some (EndValue v, [])" by (auto split: option.splits)
  show ?case
  proof (cases "\<exists>w. s' = (EndValue w, [])")
    case True
    then obtain w where w: "s' = (EndValue w, [])" by blast
    have "list_all isSpace p" by (rule scan_all_closed[of p w]) (use s'(2) w in simp)
    with Cons.prems(3) have "p = []" by (cases p rule: rev_cases) auto
    with s' w show ?thesis by simp
  next
    case False
    then have "p \<noteq> []" using s'(2) by auto
    then have "scan_first (p @ rest) s' = Some v" using Cons.IH[OF s'(2)] Cons.prems(3) by simp
    with s'(1) False show ?thesis by (cases s') (auto split: scan.splits list.splits)
  qed
qed simp

lemma parse_first_object:
  assumes "json_ok (JObj ms)" and "depth (JObj ms) \<le> maxNestingDepth"
  shows "parse_first (print (JObj ms) @ rest) = Some (JObj ms)"
  using scan_first_complete[OF scan_print_object[OF assms], of "rest @ '' ''"] by (simp add: parse_first_def isSpace_def)

text \<open>So no proper prefix of an object is a value.\<close>

lemma parse_prefix:
  assumes "json_ok (JObj ms)" and "depth (JObj ms) \<le> maxNestingDepth" and "print (JObj ms) = p @ q" and "p \<noteq> []" and "q \<noteq> []"
  shows "parse p = None"
proof (rule ccontr)
  assume "parse p \<noteq> None"
  then obtain w where w: "scan_all (p @ '' '') scan_start = Some (EndValue w, [])"
    by (auto simp: parse_def split: option.splits prod.splits scan.splits list.splits)
  then obtain s where s: "scan_all p scan_start = Some s" "scan_step s (CHR '' '') = Some (EndValue w, [])"
    by (auto simp: scan_all_append split: option.splits)
  obtain p' where p': "p = CHR ''{'' # p'" using assms(3,4) by (cases p) simp_all
  have "s = (EndValue w, [])" by (rule object_end[OF s(1)[unfolded p'] s(2)])
  moreover have "scan_all (print (JObj ms)) scan_start \<noteq> None"
    using scan_print_object[OF assms(1,2)] by simp
  then have "scan_all (p @ q) scan_start \<noteq> None" unfolding assms(3) .
  ultimately have "scan_all q (EndValue w, []) \<noteq> None" using s(1) by (simp add: scan_all_append)
  from scan_all_closed[OF this] have "isSpace (last q)" using assms(5) by (simp add: list_all_iff)
  moreover have "last q = CHR ''}''" using assms(3,5) by (metis last_appendR last_snoc print.simps(6) append_Cons)
  ultimately show False by (simp add: isSpace_def)
qed

text \<open>C34: a write that is cut short keeps the node from starting. If the append of a block fails after it has
  written some but not all of the block's text after whole lines, and nothing is written after it, \<open>LoadBlocks\<close> reports
  a corrupt line.\<close>

theorem torn_write_is_corrupt:
  assumes "d_blocks d = Some ''''" and "list_all line_ok (bs @ [b])" and "0 < k" and "k < length (Marshal enc_block b)"
  shows "LoadBlocks True (snd (AppendBlock (Some k) b (append_all bs d))) = Inl CorruptLine"
proof -
  let ?p = "take k (Marshal enc_block b)"
  have b: "block_json_ok b" "length (Marshal enc_block b) < maxLine" using assms(2) by (simp_all add: line_ok_def)
  have p: "take k (block_line b) = ?p" using assms(4) by (simp add: block_line_def)
  have chars: "c \<noteq> newline" "c \<noteq> CHR 0x0D" if "c \<in> set ?p" for c
    using print_chars(1)[of "enc_block b" c] block_json.enc_ok[OF b(1)] in_set_takeD[OF that]
    by (auto simp: Marshal_def newline_def)
  have ne: "(?p = []) = False" using assms(3,4) by auto
  have line: "takeWhile (\<lambda>c. c \<noteq> newline) ?p = ?p" using chars(1) by (simp add: takeWhile_eq_all_conv)
  have cr: "dropCR ?p = ?p" using chars(2) last_in_set[of ?p] ne by (auto simp: dropCR_def)
  obtain ms where ms: "enc_block b = JObj ms" by (simp add: enc_block_def)
  have ok: "json_ok (JObj ms)" "depth (JObj ms) \<le> 3" using block_json.enc_ok[OF b(1)] unfolding ms by (rule conjunct1, rule conjunct2)
  have "parse ?p = None"
  proof (rule parse_prefix[OF ok(1)])
    show "depth (JObj ms) \<le> maxNestingDepth" using ok(2) by (rule order_trans) (simp add: maxNestingDepth_def)
    show "print (JObj ms) = ?p @ drop k (Marshal enc_block b)" unfolding Marshal_def ms by (rule append_take_drop_id[symmetric])
  qed (use assms(3,4) in auto)
  then have "Unmarshal dec_block zero_block ?p = None" by (simp add: Unmarshal_def)
  then have l: "load_lines ?p = Inl CorruptLine"
    unfolding load_lines.simps[of ?p] line Let_def cr ne using ne b(2) by simp
  have "list_all (\<lambda>b. block_json_ok b \<and> length (Marshal enc_block b) < maxLine) bs" using assms(2) by (simp add: line_ok_def[abs_def])
  from load_lines_append[OF this, of ?p] l p show ?thesis
    using append_all_blocks[OF assms(1), of bs] by (simp add: LoadBlocks_def AppendBlock_def Let_def)
qed

theorem torn_write_is_corrupt_witness: "LoadBlocks True (snd (AppendBlock (Some 1) zero_block (append_all [zero_block] opened_disk))) = Inl CorruptLine"
proof -
  have "1 < length (Marshal enc_block zero_block)" by (simp add: Marshal_def enc_block_def)
  with torn_write_is_corrupt[of opened_disk "[zero_block]" zero_block 1] zero_block_line show ?thesis by (simp add: opened_disk_def)
qed

subsection \<open>The file of peers\<close>

lemma scan_spaces: "list_all isSpace sp \<Longrightarrow> mode = BeginValue \<or> mode = BeginValueOrEmpty \<Longrightarrow>
    scan_all (sp @ rest) (mode, st) = scan_all rest (mode, st)"
  by (induction sp) (auto simp: scan_step_def)

lemma scan_indented_string:
  assumes "utf8_ok x"
  shows "scan_all (''  '' @ quote x @ rest) (BeginValue, InArr acc # st) = scan_all rest (EndValue (JStr x), InArr acc # st)"
proof -
  have "list_all isSpace ''  ''" by (simp add: isSpace_def)
  from scan_spaces[OF this, of BeginValue "quote x @ rest" "InArr acc # st"]
    scan_quote(2)[OF assms, of rest "InArr acc # st"] unquote_escape[OF assms]
  show ?thesis by (simp add: end_string_def del: scan_all.simps)
qed

lemma scan_indented:
  "list_all utf8_ok (xs @ [y]) \<Longrightarrow>
    scan_all (concat (map (\<lambda>x. ''  '' @ quote x @ [CHR '','', newline]) xs) @ ''  '' @ quote y @ newline # CHR '']'' # rest) (BeginValue, InArr acc # st)
     = scan_all rest (EndValue (JArr (rev acc @ map JStr (xs @ [y]))), st)"
proof (induction xs arbitrary: acc)
  case Nil
  then show ?case using scan_indented_string[of y "newline # CHR '']'' # rest" acc st]
    by (simp add: end_value_def isSpace_def newline_def)
next
  case (Cons x xs)
  let ?r = "concat (map (\<lambda>x. ''  '' @ quote x @ [CHR '','', newline]) xs) @ ''  '' @ quote y @ newline # CHR '']'' # rest"
  have "scan_all (CHR '','' # newline # ?r) (EndValue (JStr x), InArr acc # st) = scan_all ?r (BeginValue, InArr (JStr x # acc) # st)"
    by (simp add: end_value_def isSpace_def newline_def scan_step_def del: append.simps)
  then show ?case using scan_indented_string[of x "CHR '','' # newline # ?r" acc st] Cons.IH[of "JStr x # acc"] Cons.prems
    by (simp del: scan_all.simps)
qed

lemma dec_strings: "dec_elems dec_string '''' (map JStr xs) [] = Some xs"
  by (induction xs) (simp_all add: dec_string_def)

lemma parse_indent_strings: "list_all utf8_ok xs \<Longrightarrow> parse (indent_strings xs @ [newline]) = Some (JArr (map JStr xs))"
proof (cases "xs = []")
  case True
  then show ?thesis
    by (simp add: parse_def indent_strings_def scan_start_def scan_step_def begin_value_def push_def isSpace_def newline_def
        end_value_def maxNestingDepth_def)
next
  case False
  assume ok: "list_all utf8_ok xs"
  let ?b = "concat (map (\<lambda>x. ''  '' @ quote x @ [CHR '','', newline]) (butlast xs)) @ ''  '' @ quote (last xs) @ newline # CHR '']'' # newline # '' ''"
  have "hd ?b = CHR '' ''" "?b \<noteq> []" by (cases "butlast xs"; simp)+
  then obtain bs where b: "?b = CHR '' '' # bs" by (cases ?b) auto
  have start: "scan_all (CHR ''['' # newline # ?b) scan_start = scan_all ?b (BeginValueOrEmpty, [InArr []])"
    by (simp add: scan_start_def scan_step_def begin_value_def push_def isSpace_def newline_def maxNestingDepth_def del: append.simps)
  have "scan_all ?b (BeginValueOrEmpty, [InArr []]) = scan_all ?b (BeginValue, [InArr []])"
  proof -
    obtain c cs where f: "?b = ''  '' @ CHR 0x22 # cs" by (cases "butlast xs") (auto simp: quote_def)
    have "list_all isSpace ''  ''" by (simp add: isSpace_def)
    from scan_spaces[OF this, of BeginValueOrEmpty "CHR 0x22 # cs"] scan_spaces[OF this, of BeginValue "CHR 0x22 # cs"]
    show ?thesis unfolding f by (simp add: scan_step_def isSpace_def del: append.simps)
  qed
  also have "\<dots> = scan_all (newline # '' '') (EndValue (JArr (map JStr xs)), [])"
    using scan_indented[of "butlast xs" "last xs" "newline # '' ''" "[]" "[]"] ok False by simp
  also have "\<dots> = Some (EndValue (JArr (map JStr xs)), [])" by (simp add: end_value_def isSpace_def newline_def)
  finally show ?thesis using start False by (simp add: parse_def indent_strings_def del: scan_all.simps)
qed

lemma peers_survive:
  assumes "list_all utf8_ok addrs" and "SavePeers True True addrs d = (ok, d')"
  shows "ok \<and> LoadPeers True d' = Some addrs"
  using assms parse_indent_strings[OF assms(1)]
  by (auto simp: SavePeers_def LoadPeers_def Let_def Unmarshal_def dec_slice_def dec_strings)

end
