(* ===== verification/Api.thy ===== *)
theory Api
  imports StoreProps NodeApi
begin

text \<open>
  \<open>internal/api/api.go\<close>: the handlers of the local HTTP API, as functions of the request and the node.
  A reply is the JSON value the handler writes with status 200 (\<open>writeJSON\<close> only indents its text); a
  refusal is the reason it gives with status 400 (\<open>httpError\<close>), whose wording is left out. Routing and
  the decoding of the query string are \<open>net/http\<close>'s.
\<close>

datatype api_error = ApiInvalidAddress | ApiBadJson | ApiInvalidDestination | ApiAmount amount_error | ApiSend send_error

datatype response = Reply json | BadRequest api_error

subsection \<open>Queries\<close>

definition enc_count :: "nat \<Rightarrow> json" where
  "enc_count n = JNum (fmt_d n)"

definition enc_info :: "info \<Rightarrow> json" where
  "enc_info i = JObj [(''name'', enc_string (i_Name i)), (''ticker'', enc_string (i_Ticker i)), (''height'', enc_u64 (i_Height i)),
     (''tip'', enc_hash (i_Tip i)), (''difficulty'', enc_u64 (i_Difficulty i)), (''next_reward'', enc_u64 (i_NextReward i)),
     (''supply'', enc_u64 (i_Supply i)), (''address'', enc_string (i_Address i)), (''balance'', enc_u64 (i_Balance i)),
     (''mempool'', enc_count (i_Mempool i)), (''peers'', enc_count (i_Peers i)), (''hashrate'', enc_u64 (i_Hashrate i)),
     (''target_block_ms'', enc_i64 (i_TargetTime i))]"

definition api_info :: "env \<Rightarrow> nat \<Rightarrow> u64 option \<Rightarrow> node \<Rightarrow> response run" where
  "api_info E peers rate n = run_bind (Info E peers rate n) (\<lambda>i. Ret (Reply (enc_info i)))"

text \<open>The keys of a map are written in their order.\<close>

definition api_balance :: "env \<Rightarrow> string \<Rightarrow> node \<Rightarrow> response" where
  "api_balance E query n = (let addr = (if query = '''' then WalletAddress E else query) in
     if \<not> Valid addr then BadRequest ApiInvalidAddress
     else let acct = GetAccount n addr in
       Reply (JObj [(''address'', enc_string addr), (''balance'', enc_u64 (Balance acct)), (''nonce'', enc_u64 (acct_Nonce acct))]))"

definition enc_summary :: "summary \<Rightarrow> json" where
  "enc_summary s = JObj [(''height'', enc_u64 (s_Height s)), (''hash'', enc_hash (s_Hash s)), (''time'', enc_i64 (s_Time s)),
     (''difficulty'', enc_u64 (s_Difficulty s)), (''miner'', enc_string (s_Miner s)), (''tx_count'', enc_count (s_TxCount s)),
     (''coinbase_amount'', enc_u64 (s_Amount s))]"

text \<open>\<open>strconv.Atoi\<close>; out of range it is the nearest integer, which the clamp below treats as an error is.\<close>

definition blocks_count :: "string \<Rightarrow> int" where
  "blocks_count query = (let count = (case ParseInt query of None \<Rightarrow> 0 | Some c \<Rightarrow> c) in
     if count \<le> 0 \<or> count > 100 then 10 else count)"

text \<open>\<open>RecentBlocks\<close> returns a nil slice only without a tip.\<close>

definition api_blocks :: "string \<Rightarrow> node \<Rightarrow> response run" where
  "api_blocks query n = run_bind (RecentBlocks (blocks_count query) n) (\<lambda>out.
     Ret (Reply (if n_tip n = None then JNull else enc_array enc_summary out)))"

text \<open>\<open>remote\<close> is the address at the other end of a peer's connection.\<close>

definition api_peers :: "env \<Rightarrow> (link \<Rightarrow> string) \<Rightarrow> switch \<Rightarrow> response" where
  "api_peers E remote sw = Reply (enc_one ''peers'' (enc_array enc_string
     (if en_sw E then map (\<lambda>(d, p). remote p @ '' -> '' @ l_Advert p) (sw_peers sw) else [])))"

subsection \<open>Sending\<close>

record send_request =
  q_To :: string
  q_Amount :: string
  q_Fee :: string

definition dec_send_request :: "json \<Rightarrow> send_request \<Rightarrow> send_request option" where
  "dec_send_request = dec_struct [field ''to'' dec_string q_To (\<lambda>x. q_To_update (\<lambda>_. x)),
     field ''amount'' dec_string q_Amount (\<lambda>x. q_Amount_update (\<lambda>_. x)), field ''fee'' dec_string q_Fee (\<lambda>x. q_Fee_update (\<lambda>_. x))]"

definition zero_send_request :: send_request where
  "zero_send_request = \<lparr> q_To = '''', q_Amount = '''', q_Fee = '''' \<rparr>"

text \<open>\<open>http.MaxBytesReader\<close>: what follows the first 4096 bytes is not seen.\<close>

definition maxBody :: nat where
  "maxBody = 4096"

definition parse_fee :: "string \<Rightarrow> amount_error + u64" where
  "parse_fee s = (if TrimSpace s \<noteq> '''' then ParseAmount s else Inr 0)"

definition api_send :: "env \<Rightarrow> string \<Rightarrow> node \<Rightarrow> (response \<times> node) run" where
  "api_send E body n =
     (case (case parse_first (take maxBody body) of None \<Rightarrow> None | Some v \<Rightarrow> dec_send_request v zero_send_request) of
        None \<Rightarrow> Ret (BadRequest ApiBadJson, n)
      | Some req \<Rightarrow> let to_addr = TrimSpace (q_To req) in
        if \<not> Valid to_addr then Ret (BadRequest ApiInvalidDestination, n)
        else case ParseAmount (q_Amount req) of Inl e \<Rightarrow> Ret (BadRequest (ApiAmount e), n)
        | Inr amount \<Rightarrow>
        case parse_fee (q_Fee req) of Inl e \<Rightarrow> Ret (BadRequest (ApiAmount e), n)
        | Inr fee \<Rightarrow> run_bind (Send E to_addr amount fee n) (\<lambda>(r, n). Ret (case r of
            Inl e \<Rightarrow> BadRequest (ApiSend e)
          | Inr txid \<Rightarrow> Reply (JObj [(''amount'', enc_u64 amount), (''to'', enc_string to_addr), (''txid'', enc_hash txid)]), n)))"

end
