(* ===== verification/Kernel.thy ===== *)
theory Kernel
  imports Midstate
begin

text \<open>
  The OpenCL kernel of \<open>internal/miner/gpu_opencl.go\<close> (the constant \<open>kernelSource\<close>): what one
  work item computes for its nonce, and what a dispatch of many work items, which share the two
  output cells, leaves in them. The kernel accepts a nonce exactly when the block with that nonce
  meets its target, so the fast path and the validation of the consensus agree.
\<close>

subsection \<open>One work item\<close>

definition kernel_K :: "u32 list" where
  "kernel_K = [0x428A2F98, 0x71374491, 0xB5C0FBCF, 0xE9B5DBA5, 0x3956C25B, 0x59F111F1, 0x923F82A4, 0xAB1C5ED5,
     0xD807AA98, 0x12835B01, 0x243185BE, 0x550C7DC3, 0x72BE5D74, 0x80DEB1FE, 0x9BDC06A7, 0xC19BF174,
     0xE49B69C1, 0xEFBE4786, 0x0FC19DC6, 0x240CA1CC, 0x2DE92C6F, 0x4A7484AA, 0x5CB0A9DC, 0x76F988DA,
     0x983E5152, 0xA831C66D, 0xB00327C8, 0xBF597FC7, 0xC6E00BF3, 0xD5A79147, 0x06CA6351, 0x14292967,
     0x27B70A85, 0x2E1B2138, 0x4D2C6DFC, 0x53380D13, 0x650A7354, 0x766A0ABB, 0x81C2C92E, 0x92722C85,
     0xA2BFE8A1, 0xA81A664B, 0xC24B8B70, 0xC76C51A3, 0xD192E819, 0xD6990624, 0xF40E3585, 0x106AA070,
     0x19A4C116, 0x1E376C08, 0x2748774C, 0x34B0BCB5, 0x391C0CB3, 0x4ED8AA4A, 0x5B9CCA4F, 0x682E6FF3,
     0x748F82EE, 0x78A5636F, 0x84C87814, 0x8CC70208, 0x90BEFFFA, 0xA4506CEB, 0xBEF9A3F7, 0xC67178F2]"

definition rotr :: "u32 \<Rightarrow> nat \<Rightarrow> u32" where
  "rotr x n = drop_bit n x OR push_bit (32 - n) x"

definition bswap32 :: "u32 \<Rightarrow> u32" where
  "bswap32 x = push_bit 24 (x AND 0x000000FF) OR push_bit 8 (x AND 0x0000FF00)
     OR drop_bit 8 (x AND 0x00FF0000) OR drop_bit 24 (x AND 0xFF000000)"

text \<open>The first sixteen words: the template with the nonce put in.\<close>

definition kernel_block :: "u32 list \<Rightarrow> nat \<Rightarrow> u64 \<Rightarrow> u32 list" where
  "kernel_block blockTpl nonceWord nonce = (let
     w = map (\<lambda>i. blockTpl ! i) [0..<16];
     w = w[nonceWord := bswap32 (ucast (nonce AND 0xFFFFFFFF))];
     w = w[nonceWord + 1 := bswap32 (ucast (drop_bit 32 nonce))]
   in w)"

definition kernel_extend :: "u32 list \<Rightarrow> nat \<Rightarrow> u32 list" where
  "kernel_extend w i = (let
     s0 = rotr (w ! (i - 15)) 7 XOR rotr (w ! (i - 15)) 18 XOR drop_bit 3 (w ! (i - 15));
     s1 = rotr (w ! (i - 2)) 17 XOR rotr (w ! (i - 2)) 19 XOR drop_bit 10 (w ! (i - 2))
   in w @ [w ! (i - 16) + s0 + w ! (i - 7) + s1])"

text \<open>The loop body of the rounds; its assignments shift the registers one by one.\<close>

fun kernel_round :: "u32 list \<Rightarrow> regs \<Rightarrow> nat \<Rightarrow> regs" where
  "kernel_round w (a, b, c, d, e, f, g, h) i = (let
     S1 = rotr e 6 XOR rotr e 11 XOR rotr e 25;
     ch = (e AND f) XOR (NOT e AND g);
     t1 = h + S1 + ch + kernel_K ! i + w ! i;
     S0 = rotr a 2 XOR rotr a 13 XOR rotr a 22;
     maj = (a AND b) XOR (a AND c) XOR (b AND c);
     t2 = S0 + maj;
     h = g; g = f; f = e; e = d + t1; d = c; c = b; b = a; a = t1 + t2
   in (a, b, c, d, e, f, g, h))"

definition kernel_hash :: "gpuMidstate \<Rightarrow> u64 \<Rightarrow> u32 list" where
  "kernel_hash mid nonce = (let
     w = foldl kernel_extend (kernel_block (mid_Block mid) (mid_NonceWord mid) nonce) [16..<64];
     m = mid_H mid
   in case foldl (kernel_round w) (m!0, m!1, m!2, m!3, m!4, m!5, m!6, m!7) [0..<64] of
        (a, b, c, d, e, f, g, h) \<Rightarrow> [m!0 + a, m!1 + b, m!2 + c, m!3 + d, m!4 + e, m!5 + f, m!6 + g, m!7 + h])"

text \<open>The comparison loop, its two breaks the two early results.\<close>

fun kernel_less :: "u32 list \<Rightarrow> u32 list \<Rightarrow> bool" where
  "kernel_less (h # hs) (t # ts) = (if h < t then True else if h > t then False else kernel_less hs ts)"
| "kernel_less _ _ = False"

definition kernel_accepts :: "gpuMidstate \<Rightarrow> u32 list \<Rightarrow> u64 \<Rightarrow> bool" where
  "kernel_accepts mid target nonce = kernel_less (kernel_hash mid nonce) target"

subsection \<open>The kernel's arithmetic is the compressor's\<close>

lemma kernel_K_eq: "kernel_K = sha256K"
  unfolding kernel_K_def sha256K_def by (rule refl)

lemma rotr_eq:
  "rotr x 2 = RotateLeft32 x (- 2)" "rotr x 6 = RotateLeft32 x (- 6)" "rotr x 7 = RotateLeft32 x (- 7)"
  "rotr x 11 = RotateLeft32 x (- 11)" "rotr x 13 = RotateLeft32 x (- 13)" "rotr x 17 = RotateLeft32 x (- 17)"
  "rotr x 18 = RotateLeft32 x (- 18)" "rotr x 19 = RotateLeft32 x (- 19)" "rotr x 22 = RotateLeft32 x (- 22)"
  "rotr x 25 = RotateLeft32 x (- 25)"
  by (simp_all add: rotr_def RotateLeft32_def or.commute)

text \<open>A masked byte, as a range of bits.\<close>

lemma byte_masks:
  "(0x000000FF :: u32) = mask 8" "(0x0000FF00 :: u32) = push_bit 8 (mask 8)"
  "(0x00FF0000 :: u32) = push_bit 16 (mask 8)" "(0xFF000000 :: u32) = push_bit 24 (mask 8)"
  by (simp_all add: mask_eq_exp_minus_1 push_bit_eq_mult)

lemma bswap32_eq: "bswap32 x = ReverseBytes32 x"
proof (rule bit_word_eqI)
  fix k
  assume k: "k < LENGTH(32)"
  then consider "k < 8" | "8 \<le> k" "k < 16" | "16 \<le> k" "k < 24" | "24 \<le> k" "k < 32" by fastforce
  then show "bit (bswap32 x) k = bit (ReverseBytes32 x) k"
    unfolding bswap32_def ReverseBytes32_def be_Uint32_def byte_masks
    by cases (auto simp: bit_simps algebra_simps)
qed

lemma nonce_words_eq:
  "(bswap32 (ucast (nonce AND 0xFFFFFFFF :: u64)), bswap32 (ucast (drop_bit 32 nonce))) = nonceWords nonce"
proof -
  have m: "(0xFFFFFFFF :: u64) = mask 32" by (simp add: mask_eq_exp_minus_1)
  have "(ucast (nonce AND 0xFFFFFFFF) :: u32) = ucast nonce"
    unfolding m by (rule bit_word_eqI) (auto simp: bit_simps)
  then show ?thesis by (simp add: bswap32_eq nonceWords_def)
qed

lemma kernel_extend_eq: "kernel_extend = schedule_step"
  by (intro ext) (simp add: kernel_extend_def schedule_step_def rotr_eq)

lemma kernel_round_eq: "kernel_round w = compress_round w"
proof (intro ext)
  fix r :: regs and i
  obtain a b c d e f g h where "r = (a, b, c, d, e, f, g, h)" by (cases r) auto
  then show "kernel_round w r i = compress_round w r i" by (simp add: rotr_eq kernel_K_eq Let_def)
qed

lemma kernel_block_eq:
  assumes "length tpl = 16"
  shows "kernel_block tpl k nonce = tpl[k := fst (nonceWords nonce), k + 1 := snd (nonceWords nonce)]"
proof -
  have "map (\<lambda>i. tpl ! i) [0..<16] = tpl" using assms by (intro nth_equalityI) auto
  then show ?thesis using nonce_words_eq[of nonce] by (simp add: kernel_block_def prod_eq_iff)
qed

lemma block_words_concat: "length ws = 16 \<Longrightarrow> block_words (concat (map (be_bytes 4) ws)) = ws"
  using block_words_words_of[of "concat (map (be_bytes 4) ws)"] words_of_concat[of ws]
  by (simp add: length_concat comp_def sum_list_triv)

lemma kernel_hash_finish:
  assumes "length (mid_Block mid) = 16"
  shows "concat (map (be_bytes 4) (kernel_hash mid nonce)) = finish mid nonce"
proof -
  let ?w = "(mid_Block mid)[mid_NonceWord mid := fst (nonceWords nonce), mid_NonceWord mid + 1 := snd (nonceWords nonce)]"
  have "kernel_hash mid nonce = compress_words (mid_H mid) (schedule_words ?w)"
    by (simp add: kernel_hash_def compress_words_def schedule_words_def kernel_extend_eq kernel_round_eq
        kernel_block_eq[OF assms] Let_def)
  moreover have "block_words (concat (map (be_bytes 4) ?w)) = ?w" using assms by (intro block_words_concat) simp
  ultimately show ?thesis
    by (simp add: finish_def sha256Compress_def Let_def case_prod_unfold)
qed

subsection \<open>The comparison\<close>

lemma kernel_less_iff: "length hs = length ts \<Longrightarrow> kernel_less hs ts \<longleftrightarrow> hs < ts"
  by (induction hs ts rule: list_induct2) auto

lemma words_less_iff:
  assumes "length xs = length (ys :: u32 list)"
  shows "xs < ys \<longleftrightarrow> base_val (2 ^ 32) (map unat xs) < base_val (2 ^ 32) (map unat ys)"
proof -
  have "map unat xs < map unat ys \<longleftrightarrow> xs < ys"
    by (rule map_less_iff[of UNIV]) (simp_all add: assms word_less_nat_alt)
  moreover have "\<forall>d \<in> set (map unat ws). d < 2 ^ 32" for ws :: "u32 list"
  proof -
    have "unat w < 2 ^ LENGTH(32)" for w :: u32 by (rule unsigned_less)
    then show ?thesis by auto
  qed
  ultimately show ?thesis using base_val_less_iff[of "map unat xs" "map unat ys" "2 ^ 32"] assms by simp
qed

lemma targetWords_words_of: "targetWords t = words_of (FillBytes 32 t)"
  by (simp add: targetWords_def words_of_def Let_def)

lemma targetWords_value: "t < 2 ^ 256 \<Longrightarrow> base_val (2 ^ 32) (map unat (targetWords t)) = t"
proof -
  assume t: "t < 2 ^ 256"
  have "SetBytes (concat (map (be_bytes 4) (words_of (FillBytes 32 t)))) = SetBytes (FillBytes 32 t)"
    by (subst concat_words_of) simp_all
  with t show ?thesis by (simp add: SetBytes_words targetWords_words_of SetBytes_FillBytes)
qed

lemma length_targetWords [simp]: "length (targetWords t) = 8"
  by (simp add: targetWords_def Let_def)

lemma length_kernel_hash [simp]: "length (kernel_hash mid nonce) = 8"
  by (simp add: kernel_hash_def Let_def split: prod.split)

lemma kernel_accepts_iff:
  assumes "length (mid_Block mid) = 16" and "t < 2 ^ 256"
  shows "kernel_accepts mid (targetWords t) nonce \<longleftrightarrow> SetBytes (finish mid nonce) < t"
  using targetWords_value[OF assms(2)]
  by (simp add: kernel_accepts_def kernel_less_iff words_less_iff SetBytes_words flip: kernel_hash_finish[OF assms(1)])

lemma buildMidstate_block: "buildMidstate hdr = Some mid \<Longrightarrow> length (mid_Block mid) = 16"
  by (auto simp: buildMidstate_def Let_def split: if_splits)

lemma Target_less: "Target d < 2 ^ 256"
  using Target_bound[of d] by (simp add: MaxTarget_def)

lemma kernel_meets_target:
  assumes "buildMidstate (HeaderBytes b) = Some mid" and "Difficulty b \<noteq> 0"
  shows "kernel_accepts mid (targetWords (Target (Difficulty b))) nonce \<longleftrightarrow> MeetsTarget (b\<lparr>Nonce := nonce\<rparr>)"
proof -
  have "finish mid nonce = hash_bytes (block_Hash (b\<lparr>Nonce := nonce\<rparr>))"
    unfolding block_Hash_def HeaderBytes_nonce by (rule finish_midstate[OF assms(1)])
  then show ?thesis
    using kernel_accepts_iff[OF buildMidstate_block[OF assms(1)] Target_less] assms(2)
    by (simp add: MeetsTarget_def Let_def)
qed

subsection \<open>A dispatch\<close>

text \<open>
  The work items of a dispatch run in any interleaving. An item first reads \<open>outFound\<close> and may
  leave at once; the read may be stale, so an item may also start after a hit. It ends with the
  atomic compare-and-exchange, and only the item that set the flag writes the nonce.
\<close>

datatype item = Waiting | Hashing | Done

record cells =
  outFound :: bool
  outNonce :: u64

inductive dispatch_step :: "gpuMidstate \<Rightarrow> u32 list \<Rightarrow> u64 \<Rightarrow> cells \<times> item list \<Rightarrow> cells \<times> item list \<Rightarrow> bool"
  for mid target base where
  leave: "i < length items \<Longrightarrow> items ! i = Waiting \<Longrightarrow> outFound c
    \<Longrightarrow> dispatch_step mid target base (c, items) (c, items[i := Done])"
| begin_hash: "i < length items \<Longrightarrow> items ! i = Waiting
    \<Longrightarrow> dispatch_step mid target base (c, items) (c, items[i := Hashing])"
| miss: "i < length items \<Longrightarrow> items ! i = Hashing \<Longrightarrow> \<not> kernel_accepts mid target (base + of_nat i)
    \<Longrightarrow> dispatch_step mid target base (c, items) (c, items[i := Done])"
| hit: "i < length items \<Longrightarrow> items ! i = Hashing \<Longrightarrow> kernel_accepts mid target (base + of_nat i) \<Longrightarrow> \<not> outFound c
    \<Longrightarrow> dispatch_step mid target base (c, items) (c\<lparr>outFound := True, outNonce := base + of_nat i\<rparr>, items[i := Done])"
| late: "i < length items \<Longrightarrow> items ! i = Hashing \<Longrightarrow> kernel_accepts mid target (base + of_nat i) \<Longrightarrow> outFound c
    \<Longrightarrow> dispatch_step mid target base (c, items) (c, items[i := Done])"

inductive dispatch :: "gpuMidstate \<Rightarrow> u32 list \<Rightarrow> u64 \<Rightarrow> nat \<Rightarrow> cells \<times> item list \<Rightarrow> bool"
  for mid target base count where
  launch: "\<not> outFound c \<Longrightarrow> dispatch mid target base count (c, replicate count Waiting)"
| step: "dispatch mid target base count s \<Longrightarrow> dispatch_step mid target base s s' \<Longrightarrow> dispatch mid target base count s'"

inductive_cases dispatch_stepE: "dispatch_step mid target base (c, items) s'"

definition dispatch_inv :: "gpuMidstate \<Rightarrow> u32 list \<Rightarrow> u64 \<Rightarrow> nat \<Rightarrow> cells \<times> item list \<Rightarrow> bool" where
  "dispatch_inv mid target base count s \<longleftrightarrow> (case s of (c, items) \<Rightarrow> length items = count
     \<and> (outFound c \<longrightarrow> (\<exists>i < count. outNonce c = base + of_nat i) \<and> kernel_accepts mid target (outNonce c))
     \<and> (\<not> outFound c \<longrightarrow> (\<forall>i < count. items ! i = Done \<longrightarrow> \<not> kernel_accepts mid target (base + of_nat i))))"

lemma dispatch_inv_step:
  assumes "dispatch_step mid target base s s'" and "dispatch_inv mid target base count s"
  shows "dispatch_inv mid target base count s'"
  using assms by (cases rule: dispatch_step.cases) (auto simp: dispatch_inv_def nth_list_update)

lemma dispatch_inv_all: "dispatch mid target base count s \<Longrightarrow> dispatch_inv mid target base count s"
proof (induction rule: dispatch.induct)
  case (launch c)
  then show ?case by (simp add: dispatch_inv_def)
next
  case (step s s')
  then show ?case by (blast intro: dispatch_inv_step)
qed

text \<open>What a finished dispatch leaves in the cells.\<close>

definition finished :: "item list \<Rightarrow> bool" where
  "finished items \<longleftrightarrow> list_all (\<lambda>w. w = Done) items"

lemma dispatch_finished:
  assumes "dispatch mid target base count (c, items)" and "finished items"
  shows "if outFound c then (\<exists>i < count. outNonce c = base + of_nat i) \<and> kernel_accepts mid target (outNonce c)
    else \<forall>i < count. \<not> kernel_accepts mid target (base + of_nat i)"
  using dispatch_inv_all[OF assms(1)] assms(2) by (auto simp: dispatch_inv_def finished_def list_all_length)

text \<open>A dispatch can always be finished, one item after the other.\<close>

fun run_items :: "gpuMidstate \<Rightarrow> u32 list \<Rightarrow> u64 \<Rightarrow> nat list \<Rightarrow> cells \<Rightarrow> cells" where
  "run_items mid target base [] c = c"
| "run_items mid target base (i # is) c = run_items mid target base is
     (if outFound c then c else if kernel_accepts mid target (base + of_nat i)
      then c\<lparr>outFound := True, outNonce := base + of_nat i\<rparr> else c)"

lemma run_items_dispatch:
  assumes "dispatch mid target base count (c, items)" and "distinct is" and "\<forall>i \<in> set is. i < length items \<and> items ! i = Waiting"
  shows "\<exists>items'. dispatch mid target base count (run_items mid target base is c, items')
     \<and> length items' = length items \<and> (\<forall>i < length items. items' ! i = (if i \<in> set is then Done else items ! i))"
  using assms
proof (induction "is" arbitrary: c items)
  case (Cons i "is")
  let ?c = "if outFound c then c else if kernel_accepts mid target (base + of_nat i)
      then c\<lparr>outFound := True, outNonce := base + of_nat i\<rparr> else c"
  from Cons.prems have i: "i < length items" "items ! i = Waiting" by simp_all
  have mid_state: "dispatch mid target base count (c, items[i := Hashing])"
    using dispatch.step[OF Cons.prems(1)] dispatch_step.begin_hash[OF i] by blast
  have at: "i < length (items[i := Hashing])" "items[i := Hashing] ! i = Hashing" using i by simp_all
  have "dispatch mid target base count (?c, items[i := Done])"
  proof (cases "outFound c")
    case True
    with dispatch.step[OF Cons.prems(1)] dispatch_step.leave[OF i True] show ?thesis by auto
  next
    case False
    with dispatch.step[OF mid_state] dispatch_step.hit[OF at] dispatch_step.miss[OF at] show ?thesis by fastforce
  qed
  moreover have "distinct is" and "\<forall>j \<in> set is. j < length (items[i := Done]) \<and> items[i := Done] ! j = Waiting"
    using Cons.prems(2,3) by (auto simp: nth_list_update)
  ultimately obtain items' where
    "dispatch mid target base count (run_items mid target base is ?c, items')" "length items' = length items"
    "\<forall>j < length items. items' ! j = (if j \<in> set is then Done else items[i := Done] ! j)"
    using Cons.IH[of ?c "items[i := Done]"] by auto
  then show ?case by (intro exI[of _ items']) (auto simp: nth_list_update)
qed auto

lemma dispatch_can_finish:
  assumes "\<not> outFound c"
  shows "\<exists>items. dispatch mid target base count (run_items mid target base [0..<count] c, items) \<and> finished items"
proof -
  from run_items_dispatch[OF dispatch.launch[OF assms, of mid target base count], of "[0..<count]"] obtain items' where
    "dispatch mid target base count (run_items mid target base [0..<count] c, items')" "length items' = count"
    "\<forall>i < count. items' ! i = Done" by auto
  then show ?thesis by (auto simp: finished_def list_all_length)
qed

end
