(* ===== verification/GpuHost.thy ===== *)
theory GpuHost
  imports Kernel
begin

text \<open>
  The host side of the OpenCL backend, \<open>internal/miner/gpu_opencl.go\<close>: \<open>openGPU\<close> with the
  resources it acquires and gives back, \<open>Search\<close> and \<open>Close\<close>. The driver is a parameter: which
  calls succeed, which devices the platforms list. The interface \<open>gpuHandle\<close> of \<open>backend.go\<close> is the
  locale \<open>gpu_handle\<close>, interpreted on \<open>Search\<close> over the kernel.
\<close>

subsection \<open>The driver\<close>

datatype resource = Context | Queue | Program | KernelObject | MidBuf | BlockBuf | TargetBuf | NonceOutBuf | FoundOutBuf

datatype call = Create resource | Release resource

text \<open>
  A platform lists the names of its GPU devices, or its query fails. \<open>clGetPlatformIDs\<close> reports how
  many platforms there are even when it has room for eight only.
\<close>

record opencl =
  cl_platforms :: "string list option list option"
  cl_creates :: "resource \<Rightarrow> bool"
  cl_builds :: bool

datatype gpu_error = NotCompiled | NoPlatforms | NoDevice | CannotCreate resource | BuildFailed
  | WriteFailed | SetArgFailed nat | EnqueueFailed | ReadFoundFailed | ReadNonceFailed

text \<open>The fields of the struct that may be nil.\<close>

record openclGPU =
  g_name :: string
  g_kernel :: bool
  g_program :: bool
  g_bufs :: "resource list"
  g_queue :: bool
  g_ctx :: bool

subsection \<open>Opening and closing\<close>

text \<open>The loop over the platforms indexes an array of eight.\<close>

fun find_device :: "nat \<Rightarrow> string list option list \<Rightarrow> string option run" where
  "find_device i [] = Ret None"
| "find_device i (p # ps) = (if i \<ge> 8 then Panic else
     (case p of Some (d # ds) \<Rightarrow> Ret (Some d) | _ \<Rightarrow> find_device (Suc i) ps))"

definition gpu_Close :: "openclGPU \<Rightarrow> call list \<Rightarrow> call list" where
  "gpu_Close g log = (let
     log = (if g_kernel g then log @ [Release KernelObject] else log);
     log = (if g_program g then log @ [Release Program] else log);
     log = log @ map Release (g_bufs g);
     log = (if g_queue g then log @ [Release Queue] else log)
   in if g_ctx g then log @ [Release Context] else log)"

text \<open>The five calls of \<open>mk\<close>, each closing what exists when it fails.\<close>

fun make_buffers :: "opencl \<Rightarrow> resource list \<Rightarrow> openclGPU \<Rightarrow> call list \<Rightarrow> (gpu_error + openclGPU) \<times> call list" where
  "make_buffers cl [] g log = (Inr g, log)"
| "make_buffers cl (r # rs) g log =
     (if cl_creates cl r then make_buffers cl rs (g\<lparr>g_bufs := g_bufs g @ [r]\<rparr>) (log @ [Create r])
      else (Inl (CannotCreate r), gpu_Close g log))"

text \<open>\<open>openGPU\<close> from the context on, and with the choice of the device before it.\<close>

definition gpu_acquire :: "opencl \<Rightarrow> string \<Rightarrow> (gpu_error + openclGPU) \<times> call list" where
  "gpu_acquire cl name =
     (if \<not> cl_creates cl Context then (Inl (CannotCreate Context), [])
      else let log = [Create Context] in
      if \<not> cl_creates cl Queue then (Inl (CannotCreate Queue), log @ [Release Context])
      else let log = log @ [Create Queue] in
      if \<not> cl_creates cl Program then (Inl (CannotCreate Program), log @ [Release Queue, Release Context])
      else let log = log @ [Create Program] in
      if \<not> cl_builds cl then (Inl BuildFailed, log @ [Release Program, Release Queue, Release Context])
      else if \<not> cl_creates cl KernelObject
      then (Inl (CannotCreate KernelObject), log @ [Release Program, Release Queue, Release Context])
      else let log = log @ [Create KernelObject];
               g = \<lparr> g_name = name, g_kernel = True, g_program = True, g_bufs = [], g_queue = True, g_ctx = True \<rparr>
      in make_buffers cl [MidBuf, BlockBuf, TargetBuf, NonceOutBuf, FoundOutBuf] g log)"

definition openGPU :: "opencl \<Rightarrow> ((gpu_error + openclGPU) \<times> call list) run" where
  "openGPU cl = (case cl_platforms cl of None \<Rightarrow> Ret (Inl NoPlatforms, [])
   | Some platforms \<Rightarrow> if platforms = [] then Ret (Inl NoPlatforms, [])
   else run_bind (find_device 0 platforms) (\<lambda>device. case device of None \<Rightarrow> Ret (Inl NoDevice, [])
   | Some name \<Rightarrow> Ret (gpu_acquire cl name)))"

subsection \<open>Searching\<close>

text \<open>
  \<open>Search\<close> issues its driver calls in a fixed order, 0 to 13, and stops at the first that fails.
  \<open>out\<close> is what the dispatch leaves in the output cells.
\<close>

definition gpu_Search :: "(nat \<Rightarrow> bool) \<Rightarrow> cells \<Rightarrow> gpu_error + u64 \<times> bool" where
  "gpu_Search ok out =
     (if \<not> list_all ok [0..<4] then Inl WriteFailed
      else case find (\<lambda>k. \<not> ok (4 + k)) [0..<7] of Some k \<Rightarrow> Inl (SetArgFailed k) | None \<Rightarrow>
      if \<not> ok 11 then Inl EnqueueFailed
      else if \<not> ok 12 then Inl ReadFoundFailed
      else if \<not> outFound out then Inr (0, False)
      else if \<not> ok 13 then Inl ReadNonceFailed
      else Inr (outNonce out, True))"

lemma gpu_Search_Inr:
  "gpu_Search ok out = Inr (nonce, found) \<Longrightarrow> found = outFound out \<and> (found \<longrightarrow> nonce = outNonce out)"
  by (auto simp: gpu_Search_def split: if_splits option.splits)

subsection \<open>No resource is leaked\<close>

text \<open>The resources alive after a sequence of calls; releasing a dead one is an error.\<close>

fun alive :: "call list \<Rightarrow> resource set \<Rightarrow> resource set option" where
  "alive [] R = Some R"
| "alive (Create r # cs) R = (if r \<in> R then None else alive cs (insert r R))"
| "alive (Release r # cs) R = (if r \<in> R then alive cs (R - {r}) else None)"

lemma alive_append: "alive (cs @ ds) R = (case alive cs R of None \<Rightarrow> None | Some S \<Rightarrow> alive ds S)"
  by (induction cs R rule: alive.induct) auto

lemma alive_releases:
  "distinct rs \<Longrightarrow> set rs \<subseteq> R \<Longrightarrow> alive (map Release rs) R = Some (R - set rs)"
proof (induction rs arbitrary: R)
  case (Cons r rs)
  then have "set rs \<subseteq> R - {r}" "distinct rs" by auto
  from Cons.IH[OF this(2,1)] have "alive (map Release rs) (R - {r}) = Some (R - {r} - set rs)" .
  moreover have "R - {r} - set rs = R - set (r # rs)" by auto
  ultimately show ?case using Cons.prems by simp
qed simp

text \<open>A handle owns what is alive.\<close>

definition owns :: "openclGPU \<Rightarrow> call list \<Rightarrow> bool" where
  "owns g log \<longleftrightarrow> g_kernel g \<and> g_program g \<and> g_queue g \<and> g_ctx g \<and> distinct (g_bufs g)
     \<and> set (g_bufs g) \<inter> {KernelObject, Program, Queue, Context} = {}
     \<and> alive log {} = Some ({KernelObject, Program, Queue, Context} \<union> set (g_bufs g))"

lemma owns_Close: "owns g log \<Longrightarrow> alive (gpu_Close g log) {} = Some {}"
proof -
  assume own: "owns g log"
  let ?R = "set (g_bufs g) \<union> {Queue, Context}"
  have "alive (map Release (g_bufs g)) ?R = Some (?R - set (g_bufs g))"
    using own by (intro alive_releases) (auto simp: owns_def)
  moreover have "?R - set (g_bufs g) = {Queue, Context}" using own by (auto simp: owns_def)
  moreover have "{KernelObject, Program, Queue, Context} \<union> set (g_bufs g) - {KernelObject} - {Program} = ?R"
    using own by (auto simp: owns_def)
  ultimately show ?thesis using own by (simp add: gpu_Close_def owns_def Let_def alive_append)
qed

lemma make_buffers_owns:
  "owns g log \<Longrightarrow> distinct rs \<Longrightarrow> set rs \<inter> set (g_bufs g) = {} \<Longrightarrow> set rs \<inter> {KernelObject, Program, Queue, Context} = {}
   \<Longrightarrow> (case make_buffers cl rs g log of (Inl e, log') \<Rightarrow> alive log' {} = Some {} | (Inr g', log') \<Rightarrow> owns g' log')"
proof (induction rs arbitrary: g log)
  case (Cons r rs)
  show ?case
  proof (cases "cl_creates cl r")
    case True
    have "owns (g\<lparr>g_bufs := g_bufs g @ [r]\<rparr>) (log @ [Create r])"
      using Cons.prems by (auto simp: owns_def alive_append)
    from Cons.IH[OF this] Cons.prems True show ?thesis by simp
  next
    case False
    with owns_Close[OF Cons.prems(1)] show ?thesis by simp
  qed
qed simp

lemma gpu_acquire_owns:
  "case gpu_acquire cl name of (Inl e, log) \<Rightarrow> alive log {} = Some {} | (Inr g, log) \<Rightarrow> owns g log"
proof -
  define g where "g = \<lparr> g_name = name, g_kernel = True, g_program = True, g_bufs = [], g_queue = True, g_ctx = True \<rparr>"
  define log where "log = [Create Context, Create Queue, Create Program, Create KernelObject]"
  define made where "made = make_buffers cl [MidBuf, BlockBuf, TargetBuf, NonceOutBuf, FoundOutBuf] g log"
  have bufs: "case made of (Inl e, log') \<Rightarrow> alive log' {} = Some {} | (Inr g', log') \<Rightarrow> owns g' log'"
    unfolding made_def by (intro make_buffers_owns) (auto simp: owns_def g_def log_def)
  have "gpu_acquire cl name = made \<or> (\<exists>e log. gpu_acquire cl name = (Inl e, log) \<and> alive log {} = Some {})"
    unfolding gpu_acquire_def Let_def append.simps made_def g_def log_def by simp
  with bufs show ?thesis by (auto split: prod.splits sum.splits)
qed

lemma openGPU_balanced:
  assumes "openGPU cl = Ret (r, log)"
  shows "case r of Inl e \<Rightarrow> alive log {} = Some {} | Inr g \<Rightarrow> owns g log"
proof (cases "\<exists>name. gpu_acquire cl name = (r, log)")
  case True
  then obtain name where "gpu_acquire cl name = (r, log)" by blast
  with gpu_acquire_owns[of cl name] show ?thesis by simp
next
  case False
  with assms have "\<exists>e. r = Inl e \<and> log = []"
    by (auto simp: openGPU_def run_bind_eq_Ret split: option.splits if_splits)
  then show ?thesis by auto
qed

subsection \<open>The interface of a GPU backend\<close>

text \<open>
  What the miner relies on: a nonce reported as found is one of the batch and accepted, and a batch
  reported empty holds no accepted nonce.
\<close>

locale gpu_handle =
  fixes Search :: "gpuMidstate \<Rightarrow> u32 list \<Rightarrow> u64 \<Rightarrow> u32 \<Rightarrow> gpu_error + u64 \<times> bool"
  assumes found: "Search mid target base count = Inr (nonce, True)
      \<Longrightarrow> kernel_accepts mid target nonce \<and> (\<exists>i < unat count. nonce = base + of_nat i)"
    and not_found: "Search mid target base count = Inr (nonce, False)
      \<Longrightarrow> \<forall>i < unat count. \<not> kernel_accepts mid target (base + of_nat i)"
begin

text \<open>In terms of the block whose header the midstate was built from.\<close>

lemma found_meets_target:
  assumes "buildMidstate (HeaderBytes b) = Some mid" and "Difficulty b \<noteq> 0"
    and "Search mid (targetWords (Target (Difficulty b))) base count = Inr (nonce, True)"
  shows "MeetsTarget (b\<lparr>Nonce := nonce\<rparr>)"
  using found[OF assms(3)] kernel_meets_target[OF assms(1,2)] by blast

lemma not_found_none_meets:
  assumes "buildMidstate (HeaderBytes b) = Some mid" and "Difficulty b \<noteq> 0"
    and "Search mid (targetWords (Target (Difficulty b))) base count = Inr (nonce, False)" and "i < unat count"
  shows "\<not> MeetsTarget (b\<lparr>Nonce := base + of_nat i\<rparr>)"
  using not_found[OF assms(3)] assms(4) kernel_meets_target[OF assms(1,2)] by blast

end

text \<open>
  The code's backend, for any driver and any completed dispatch: the cells are those of some
  interleaving of the work items that has finished.
\<close>

definition completed :: "gpuMidstate \<Rightarrow> u32 list \<Rightarrow> u64 \<Rightarrow> u32 \<Rightarrow> cells \<Rightarrow> bool" where
  "completed mid target base count c \<longleftrightarrow>
     (\<exists>items. dispatch mid target base (unat count) (c, items) \<and> finished items)"

definition no_hit :: cells where
  "no_hit = \<lparr> outFound = False, outNonce = 0 \<rparr>"

definition in_order :: "gpuMidstate \<Rightarrow> u32 list \<Rightarrow> u64 \<Rightarrow> u32 \<Rightarrow> cells" where
  "in_order mid target base count = run_items mid target base [0..<unat count] no_hit"

lemma in_order_completed: "completed mid target base count (in_order mid target base count)"
  unfolding completed_def in_order_def by (rule dispatch_can_finish) (simp add: no_hit_def)

lemma Search_laws:
  assumes "completed mid target base count out" and "gpu_Search ok out = Inr (nonce, b)"
  shows "if b then kernel_accepts mid target nonce \<and> (\<exists>i < unat count. nonce = base + of_nat i)
    else \<forall>i < unat count. \<not> kernel_accepts mid target (base + of_nat i)"
proof -
  from assms(1) obtain items where "dispatch mid target base (unat count) (out, items)" "finished items"
    by (auto simp: completed_def)
  from dispatch_finished[OF this] gpu_Search_Inr[OF assms(2)] show ?thesis by (auto split: if_splits)
qed

interpretation opencl: gpu_handle "\<lambda>mid target base count. gpu_Search ok (in_order mid target base count)"
  for ok :: "nat \<Rightarrow> bool"
  using Search_laws[OF in_order_completed] by unfold_locales (auto split: if_splits)

end
