(* ===== verification/Miner.thy ===== *)
theory Miner
  imports GpuHost NodeApi Amount
begin

text \<open>
  The miner, \<open>internal/miner/miner.go\<close> and \<open>backend.go\<close>: the choice of a backend, one mining round on
  the CPU (threads that share a nonce counter, in any interleaving) or on the GPU (one dispatch
  after the other, with the fall-back to the CPU), and the clean-up when \<open>Run\<close> returns. What the
  code waits for - a solution, a new tip, the cancelled context - is a parameter of a round.
\<close>

subsection \<open>Backends\<close>

datatype backend = BackendAuto | BackendCPU | BackendGPU

definition backend_String :: "backend \<Rightarrow> string" where
  "backend_String b = (case b of BackendCPU \<Rightarrow> ''cpu'' | BackendGPU \<Rightarrow> ''gpu'' | BackendAuto \<Rightarrow> ''auto'')"

text \<open>
  \<open>strings.ToLower\<close> on ASCII; no other rune is lowered to a letter of the three names.
\<close>

definition lower_char :: "char \<Rightarrow> char" where
  "lower_char c = (let k = of_char c :: nat in if 65 \<le> k \<and> k \<le> 90 then char_of (k + 32) else c)"

definition ParseBackend :: "string \<Rightarrow> string + backend" where
  "ParseBackend s = (let l = map lower_char (TrimSpace s) in
     if l = '''' \<or> l = ''auto'' then Inr BackendAuto
     else if l = ''cpu'' then Inr BackendCPU
     else if l = ''gpu'' then Inr BackendGPU
     else Inl s)"

subsection \<open>The miner\<close>

definition defaultGPUBatch :: int where "defaultGPUBatch = 2 ^ 20"

record miner =
  m_addr :: address
  m_threads :: int
  m_minPause :: int
  m_backend :: backend
  m_gpuBatch :: u32
  m_resolved :: bool
  m_active :: backend
  m_gpu :: "openclGPU option"
  m_nonce :: u64
  m_total :: u64

text \<open>\<open>New\<close> clamps its arguments; \<open>uint32(gpuBatch)\<close> truncates.\<close>

definition miner_New :: "wallet \<Rightarrow> int \<Rightarrow> int \<Rightarrow> backend \<Rightarrow> int \<Rightarrow> miner" where
  "miner_New w threads minPause backend gpuBatch = (let
     threads = (if threads < 1 then 1 else threads);
     minPause = (if minPause < 0 then 0 else minPause);
     gpuBatch = (if gpuBatch \<le> 0 then defaultGPUBatch else gpuBatch)
   in \<lparr> m_addr = wallet_Address w, m_threads = threads, m_minPause = minPause, m_backend = backend,
        m_gpuBatch = of_int gpuBatch, m_resolved = False, m_active = BackendAuto, m_gpu = None,
        m_nonce = 0, m_total = 0 \<rparr>)"

text \<open>
  The backend is resolved once. \<open>opened\<close> is what \<open>openGPU\<close> returns, the two rates are the outcomes
  of the benchmarks; the second result is the driver calls the resolution adds to those of \<open>openGPU\<close>.
\<close>

definition resolveBackend :: "gpu_error + openclGPU \<Rightarrow> u64 \<Rightarrow> gpu_error + u64 \<Rightarrow> miner \<Rightarrow> miner \<times> call list" where
  "resolveBackend opened cpuRate gpuRate m = (case m_backend m of
     BackendCPU \<Rightarrow> (m\<lparr>m_active := BackendCPU\<rparr>, [])
   | BackendGPU \<Rightarrow> (case opened of
       Inl e \<Rightarrow> (m\<lparr>m_active := BackendCPU\<rparr>, [])
     | Inr h \<Rightarrow> (m\<lparr>m_gpu := Some h, m_active := BackendGPU\<rparr>, []))
   | BackendAuto \<Rightarrow> (case opened of
       Inl e \<Rightarrow> (m\<lparr>m_active := BackendCPU\<rparr>, [])
     | Inr h \<Rightarrow> (case gpuRate of
         Inl e \<Rightarrow> (m\<lparr>m_active := BackendCPU\<rparr>, gpu_Close h [])
       | Inr r \<Rightarrow> if r \<le> cpuRate then (m\<lparr>m_active := BackendCPU\<rparr>, gpu_Close h [])
                  else (m\<lparr>m_gpu := Some h, m_active := BackendGPU\<rparr>, []))))"

text \<open>\<open>gpu_stub.go\<close>: in a build without the tag \<open>gpu\<close>, \<open>openGPU\<close> only fails, so every request ends with the CPU.\<close>

definition stub_openGPU :: "gpu_error + openclGPU" where
  "stub_openGPU = Inl NotCompiled"

lemma stub_resolves: "m_active (fst (resolveBackend stub_openGPU cpuRate gpuRate m)) = BackendCPU"
  by (cases "m_backend m") (simp_all add: resolveBackend_def stub_openGPU_def)

definition EnsureBackend :: "gpu_error + openclGPU \<Rightarrow> u64 \<Rightarrow> gpu_error + u64 \<Rightarrow> miner \<Rightarrow> backend \<times> miner \<times> call list" where
  "EnsureBackend opened cpuRate gpuRate m =
     (if m_resolved m then (m_active m, m, [])
      else case resolveBackend opened cpuRate gpuRate m of (m, log) \<Rightarrow> (m_active m, m\<lparr>m_resolved := True\<rparr>, log))"

definition BackendName :: "miner \<Rightarrow> string" where
  "BackendName m = (case m_gpu m of
     Some h \<Rightarrow> if m_active m = BackendGPU then ''gpu ('' @ g_name h @ '')'' else backend_String (m_active m)
   | None \<Rightarrow> backend_String (m_active m))"

text \<open>The header the benchmarks hash, and the target of \<open>benchmarkGPU\<close> that no hash meets.\<close>

definition benchmarkHeader :: "address \<Rightarrow> bytes" where
  "benchmarkHeader addr = HeaderBytes \<lparr> Height = 0, PrevHash = 0, Time = 1, Difficulty = 1, Miner = addr,
     ExtraNonce = 0, Merkle = 0, Nonce = 0, Txs = [] \<rparr>"

text \<open>
  The benchmark loop, \<open>k\<close> dispatches long: the deadline decides \<open>k\<close>. \<open>None\<close> is \<open>errNotUsable\<close>, the
  result otherwise an error of the driver or the number of hashes.
\<close>

fun benchmark_loop :: "(gpuMidstate \<Rightarrow> u32 list \<Rightarrow> u64 \<Rightarrow> u32 \<Rightarrow> gpu_error + u64 \<times> bool) \<Rightarrow> gpuMidstate \<Rightarrow> u32 \<Rightarrow> nat \<Rightarrow> u64 \<Rightarrow> u64 \<Rightarrow> gpu_error + u64" where
  "benchmark_loop search mid batch 0 base acc = Inr acc"
| "benchmark_loop search mid batch (Suc k) base acc = (case search mid (replicate 8 0) base batch of
     Inl e \<Rightarrow> Inl e
   | Inr (nonce, hit) \<Rightarrow> if hit then Inr acc
       else benchmark_loop search mid batch k (base + ucast batch) (acc + ucast batch))"

definition benchmarkGPU :: "(gpuMidstate \<Rightarrow> u32 list \<Rightarrow> u64 \<Rightarrow> u32 \<Rightarrow> gpu_error + u64 \<times> bool) \<Rightarrow> nat \<Rightarrow> miner \<Rightarrow> (gpu_error + u64) option" where
  "benchmarkGPU search k m = (case buildMidstate (benchmarkHeader (m_addr m)) of
     None \<Rightarrow> None | Some mid \<Rightarrow> Some (benchmark_loop search mid (m_gpuBatch m) k 0 0))"

subsection \<open>A CPU round\<close>

text \<open>
  The shared cells: the counters of the miner and the channel \<open>found\<close> of capacity one. A thread
  that has a solution returns, whether or not the channel takes it.
\<close>

record search =
  sr_nonce :: u64
  sr_total :: u64
  sr_found :: "block option"
  sr_returned :: "nat set"

definition try_nonce :: "block \<Rightarrow> nat \<Rightarrow> nat \<Rightarrow> search \<Rightarrow> search" where
  "try_nonce cand target i s =
     (if i \<in> sr_returned s then s else let
        nonce = sr_nonce s + 1;
        work = cand\<lparr>ExtraNonce := of_nat i, Nonce := nonce\<rparr>;
        s = s\<lparr>sr_nonce := nonce, sr_total := sr_total s + 1\<rparr>
      in if SetBytes (hash_bytes (block_Hash work)) < target
         then s\<lparr>sr_found := (case sr_found s of None \<Rightarrow> Some work | Some b \<Rightarrow> Some b),
                sr_returned := insert i (sr_returned s)\<rparr>
         else s)"

text \<open>
  The threads take turns as \<open>sched\<close> says; ids out of range do not exist. A turn is one pass of the thread's loop:
  between the atomic increment of the nonce and the send, a pass touches only the thread's own copy of the
  candidate, so that splitting it could only change which of several solutions the channel keeps.
\<close>

fun run_threads :: "block \<Rightarrow> nat \<Rightarrow> nat \<Rightarrow> nat list \<Rightarrow> search \<Rightarrow> search" where
  "run_threads cand target threads [] s = s"
| "run_threads cand target threads (i # sched) s =
     run_threads cand target threads sched (if i < threads then try_nonce cand target i s else s)"

definition search_start :: "miner \<Rightarrow> search" where
  "search_start m = \<lparr> sr_nonce = m_nonce m, sr_total = m_total m, sr_found = None, sr_returned = {} \<rparr>"

datatype wake = Found | NewTip | Cancelled

text \<open>
  The round: the threads run for the schedule, then the main goroutine wakes up. It can wake up for
  a solution only if there is one (else the round is not over: \<open>Diverge\<close>), and submits it to the
  node as it is then.
\<close>

definition mineOnceCPU :: "env \<Rightarrow> block \<Rightarrow> nat \<Rightarrow> nat list \<Rightarrow> wake \<Rightarrow> miner \<Rightarrow> node \<Rightarrow> (miner \<times> node) run" where
  "mineOnceCPU E cand target sched w m n = (let
     s = run_threads cand target (nat (m_threads m)) sched (search_start m);
     m = m\<lparr>m_nonce := sr_nonce s, m_total := sr_total s\<rparr>
   in case w of
     Found \<Rightarrow> (case sr_found s of None \<Rightarrow> Diverge
       | Some blk \<Rightarrow> run_bind (SubmitSolution E blk n) (\<lambda>(err, n). Ret (m, n)))
   | NewTip \<Rightarrow> Ret (m, n)
   | Cancelled \<Rightarrow> Ret (m, n))"

subsection \<open>A GPU round\<close>

text \<open>
  \<open>polls\<close> are the outcomes of the non-blocking select before each dispatch: \<open>True\<close> to go on. A round
  whose polls are used up is not over. \<open>cpu\<close> is the CPU round the loop falls back to.
\<close>

fun gpu_loop :: "env \<Rightarrow> (gpuMidstate \<Rightarrow> u32 list \<Rightarrow> u64 \<Rightarrow> u32 \<Rightarrow> gpu_error + u64 \<times> bool) \<Rightarrow> (miner \<Rightarrow> node \<Rightarrow> (miner \<times> node) run)
    \<Rightarrow> gpuMidstate \<Rightarrow> u32 list \<Rightarrow> block \<Rightarrow> bool list \<Rightarrow> u64 \<Rightarrow> miner \<Rightarrow> node \<Rightarrow> (miner \<times> node) run" where
  "gpu_loop E search cpu mid tw work [] base m n = Diverge"
| "gpu_loop E search cpu mid tw work (go # polls) base m n =
     (if \<not> go then Ret (m, n) else let
        res = search mid tw base (m_gpuBatch m);
        m = m\<lparr>m_total := m_total m + ucast (m_gpuBatch m)\<rparr>
      in case res of
           Inl e \<Rightarrow> cpu (m\<lparr>m_gpu := None, m_active := BackendCPU\<rparr>) n
         | Inr (nonce, hit) \<Rightarrow>
             if hit then run_bind (SubmitSolution E (work\<lparr>Nonce := nonce\<rparr>) n) (\<lambda>(err, n). Ret (m, n))
             else gpu_loop E search cpu mid tw work polls (base + ucast (m_gpuBatch m)) m n)"

definition mineOnceGPU :: "env \<Rightarrow> (gpuMidstate \<Rightarrow> u32 list \<Rightarrow> u64 \<Rightarrow> u32 \<Rightarrow> gpu_error + u64 \<times> bool)
    \<Rightarrow> block \<Rightarrow> nat \<Rightarrow> bool list \<Rightarrow> nat list \<Rightarrow> wake \<Rightarrow> miner \<Rightarrow> node \<Rightarrow> (miner \<times> node) run" where
  "mineOnceGPU E search cand target polls sched w m n = (let
     work = cand\<lparr>ExtraNonce := 0\<rparr>;
     cpu = mineOnceCPU E cand target sched w
   in case buildMidstate (HeaderBytes work) of None \<Rightarrow> cpu m n
      | Some mid \<Rightarrow> gpu_loop E search cpu mid (targetWords target) work polls 0 m n)"

subsection \<open>A round, and the end of \<open>Run\<close>\<close>

text \<open>
  \<open>meanwhile\<close> is what else the node does between the building of the candidate and the end of the
  search. Without a tip the round only waits.
\<close>

definition mineOnce :: "env \<Rightarrow> (gpuMidstate \<Rightarrow> u32 list \<Rightarrow> u64 \<Rightarrow> u32 \<Rightarrow> gpu_error + u64 \<times> bool)
    \<Rightarrow> bool list \<Rightarrow> nat list \<Rightarrow> wake \<Rightarrow> (node \<Rightarrow> node) \<Rightarrow> miner \<Rightarrow> node \<Rightarrow> (miner \<times> node) run" where
  "mineOnce E search polls sched w meanwhile m n =
     (case SubscribeTips n of (snap, ch, n) \<Rightarrow>
      run_bind (BuildCandidate E (m_addr m) n) (\<lambda>(cand, n).
      run_bind (case cand of None \<Rightarrow> Ret (m, n)
        | Some cand \<Rightarrow> (let target = Target (Difficulty cand); n = meanwhile n in
            if m_active m = BackendGPU then mineOnceGPU E search cand target polls sched w m n
            else mineOnceCPU E cand target sched w m n))
      (\<lambda>(m, n). Ret (m, cancelTips ch n))))"

text \<open>
  \<open>Run\<close> defers the release of the GPU if it has one when it starts. The deferred function calls
  \<open>m.gpu.Close()\<close> on whatever \<open>m.gpu\<close> is then; a nil interface panics.
\<close>

definition run_cleanup :: "bool \<Rightarrow> miner \<Rightarrow> (miner \<times> call list) run" where
  "run_cleanup deferred m = (if deferred then
     (case m_gpu m of None \<Rightarrow> Panic | Some h \<Rightarrow> Ret (m\<lparr>m_gpu := None\<rparr>, gpu_Close h []))
     else Ret (m, []))"

text \<open>The rounds \<open>Run\<close> makes before the context is cancelled, and then its clean-up.\<close>

fun run_rounds :: "(miner \<Rightarrow> node \<Rightarrow> (miner \<times> node) run) list \<Rightarrow> miner \<Rightarrow> node \<Rightarrow> (miner \<times> node) run" where
  "run_rounds [] m n = Ret (m, n)"
| "run_rounds (round # rounds) m n = run_bind (round m n) (\<lambda>(m, n). run_rounds rounds m n)"

definition miner_Run :: "(miner \<Rightarrow> node \<Rightarrow> (miner \<times> node) run) list \<Rightarrow> miner \<Rightarrow> node \<Rightarrow> (miner \<times> node \<times> call list) run" where
  "miner_Run rounds m n = run_bind (run_rounds rounds m n) (\<lambda>(m', n).
     run_bind (run_cleanup (m_gpu m \<noteq> None) m') (\<lambda>(m'', log). Ret (m'', n, log)))"

end
