(* ===== verification/Cli.thy ===== *)
theory Cli
  imports Api Miner
begin

text \<open>
  The commands of \<open>cmd/blugold/main.go\<close>: what they make of their arguments, what they ask the node's API,
  how they read its answer, and how a wallet is found or made. A command that calls \<open>fatalf\<close> ends with
  an error. The flag package, the terminal and the transport of the HTTP client are outside; the wallet
  file of \<open>internal/crypto\<close> is its contents, \<open>None\<close> when there is none.
\<close>

subsection \<open>Commands\<close>

datatype command = Init | Keygen | ShowAddress | Serve | Mine | SendTo_cmd | ShowBalance | ShowInfo | Scan | Version | Help

text \<open>\<open>main\<close> on \<open>os.Args\<close>: \<open>None\<close> prints the usage and exits with status 2.\<close>

definition main_dispatch :: "string list \<Rightarrow> (command \<times> string list) option" where
  "main_dispatch args = (case args of prog # cmd # rest \<Rightarrow> map_option (\<lambda>c. (c, rest))
     (if cmd = ''init'' then Some Init else if cmd = ''keygen'' then Some Keygen else if cmd = ''address'' then Some ShowAddress
      else if cmd = ''serve'' then Some Serve else if cmd = ''mine'' then Some Mine else if cmd = ''send'' then Some SendTo_cmd
      else if cmd = ''balance'' then Some ShowBalance else if cmd = ''info'' then Some ShowInfo else if cmd = ''scan'' then Some Scan
      else if cmd = ''version'' \<or> cmd = ''--version'' \<or> cmd = ''-v'' then Some Version
      else if cmd = ''help'' \<or> cmd = ''--help'' \<or> cmd = ''-h'' then Some Help else None)
   | _ \<Rightarrow> None)"

subsection \<open>The wallet\<close>

datatype wallet_error = WalletMissing | WalletCorrupt | WalletUnreadable

definition enc_wallet :: "wallet \<Rightarrow> json" where
  "enc_wallet w = enc_one ''priv'' (enc_bytes (Some (Priv w)))"

definition dec_wallet :: "json \<Rightarrow> bytes option \<Rightarrow> bytes option option" where
  "dec_wallet = dec_one ''priv'' dec_bytes"

text \<open>\<open>SaveWallet\<close>: the outcomes of making the directory, writing the temporary file and renaming it.\<close>

definition SaveWallet :: "bool \<Rightarrow> bool \<Rightarrow> bool \<Rightarrow> wallet \<Rightarrow> string option \<Rightarrow> bool \<times> string option" where
  "SaveWallet mkdir write rename w file = (let data = Marshal enc_wallet w in
     if \<not> mkdir then (False, file) else if \<not> write then (False, file) else if \<not> rename then (False, file)
     else (True, Some data))"

text \<open>
  \<open>LoadWallet\<close>; \<open>readable\<close> tells whether the permissions let the process look the path up and read it. Without
  them \<open>os.ReadFile\<close> fails with another error than \<open>IsNotExist\<close>, also where there is no file.
\<close>

definition LoadWallet :: "bool \<Rightarrow> string option \<Rightarrow> wallet_error + wallet" where
  "LoadWallet readable file = (if \<not> readable then Inl WalletUnreadable else
     case file of None \<Rightarrow> Inl WalletMissing | Some data \<Rightarrow>
     case Unmarshal dec_wallet None data of None \<Rightarrow> Inl WalletCorrupt | Some priv \<Rightarrow>
     if length (slice_bytes priv) \<noteq> 64 then Inl WalletCorrupt else Inr \<lparr> Priv = slice_bytes priv \<rparr>)"

datatype cli_error = Usage | WalletBroken | GenerateFailed | SaveFailed | WalletExists | NoWalletFile | BadAmount amount_error
  | BadScanCount | BadThreads | BadBackend | Remote string | HttpStatus nat string | BadReply

text \<open>\<open>GenerateWallet\<close>: \<open>ed25519.GenerateKey\<close> gives a private key or fails.\<close>

definition GenerateWallet :: "bytes option \<Rightarrow> wallet option" where
  "GenerateWallet key = map_option (\<lambda>k. \<lparr> Priv = k \<rparr>) key"

definition loadOrCreateWallet :: "bool \<Rightarrow> bytes option \<Rightarrow> bool \<times> bool \<times> bool \<Rightarrow> string option \<Rightarrow> (cli_error + wallet) \<times> string option" where
  "loadOrCreateWallet readable key io file = (case LoadWallet readable file of Inr w \<Rightarrow> (Inr w, file)
     | Inl err \<Rightarrow> if err \<noteq> WalletMissing then (Inl WalletBroken, file)
       else case GenerateWallet key of None \<Rightarrow> (Inl GenerateFailed, file) | Some w \<Rightarrow>
       (case io of (mkdir, write, rename) \<Rightarrow> case SaveWallet mkdir write rename w file of (ok, file) \<Rightarrow>
          (if ok then Inr w else Inl SaveFailed, file)))"

definition cmdKeygen :: "bool \<Rightarrow> bool \<Rightarrow> bytes option \<Rightarrow> bool \<times> bool \<times> bool \<Rightarrow> string option \<Rightarrow> (cli_error + wallet) \<times> string option" where
  "cmdKeygen force readable key io file =
     (if (case LoadWallet readable file of Inr w \<Rightarrow> True | Inl err \<Rightarrow> False) \<and> \<not> force then (Inl WalletExists, file)
      else case GenerateWallet key of None \<Rightarrow> (Inl GenerateFailed, file) | Some w \<Rightarrow>
       (case io of (mkdir, write, rename) \<Rightarrow> case SaveWallet mkdir write rename w file of (ok, file) \<Rightarrow>
          (if ok then Inr w else Inl SaveFailed, file)))"

definition cmdAddress :: "bool \<Rightarrow> string option \<Rightarrow> cli_error + address" where
  "cmdAddress readable file = (case LoadWallet readable file of Inl err \<Rightarrow> Inl NoWalletFile | Inr w \<Rightarrow> Inr (wallet_Address w))"

subsection \<open>Starting a node\<close>

fun split_commas :: "string \<Rightarrow> string list" where
  "split_commas [] = [[]]"
| "split_commas (c # cs) = (if c = CHR '','' then [] # split_commas cs
     else case split_commas cs of f # fs \<Rightarrow> (c # f) # fs | [] \<Rightarrow> [[c]])"

definition parse_seeds :: "string \<Rightarrow> string list" where
  "parse_seeds seedList = filter (\<lambda>s. s \<noteq> '''') (map TrimSpace (split_commas seedList))"

text \<open>\<open>cmdMine\<close> after its flags: the threads, the backend and the batch \<open>runNode\<close> gets.\<close>

definition cmdMine :: "nat \<Rightarrow> int \<Rightarrow> string \<Rightarrow> int \<Rightarrow> cli_error + int \<times> backend \<times> int" where
  "cmdMine nargs threads backendFlag gpuBatch = (if nargs > 0 then Inl Usage
     else if threads < 1 then Inl BadThreads
     else case ParseBackend backendFlag of Inl e \<Rightarrow> Inl BadBackend | Inr b \<Rightarrow> Inr (threads, b, gpuBatch))"

text \<open>\<open>net.JoinHostPort\<close>, and the advertised address; \<open>lan\<close> is what \<open>detectLANIP\<close> finds.\<close>

definition JoinHostPort :: "string \<Rightarrow> string \<Rightarrow> string" where
  "JoinHostPort host port = (if List.member host (CHR '':'') \<or> List.member host (CHR ''%'') then CHR ''['' # host @ '']:'' @ port
     else host @ '':'' @ port)"

definition discoverAdvertise :: "string \<Rightarrow> string \<Rightarrow> string" where
  "discoverAdvertise lan listen = (let port = (case SplitHostPort listen of None \<Rightarrow> ''7007'' | Some (host, port) \<Rightarrow> port) in
     if lan = '''' then listen else JoinHostPort lan port)"

subsection \<open>Asking the node\<close>

definition TrimRight :: "string \<Rightarrow> char \<Rightarrow> string" where
  "TrimRight s c = rev (dropWhile (\<lambda>x. x = c) (rev s))"

definition api_url :: "string \<Rightarrow> string \<Rightarrow> string" where
  "api_url api path = TrimRight api (CHR ''/'') @ path"

text \<open>The field \<open>error\<close> of a refusal, read with whatever else is wrong with it ignored.\<close>

definition error_field :: "string \<Rightarrow> string" where
  "error_field data = (case parse data of Some (JObj ms) \<Rightarrow>
       fold (\<lambda>(k, v) acc. if fold_name k = fold_name ''error'' then (case v of JStr s \<Rightarrow> s | _ \<Rightarrow> acc) else acc) ms ''''
     | _ \<Rightarrow> '''')"

definition decode :: "(json \<Rightarrow> 'a \<Rightarrow> 'a option) \<Rightarrow> 'a \<Rightarrow> nat \<Rightarrow> string \<Rightarrow> cli_error + 'a" where
  "decode dec out status data = (if status \<ge> 400 then
       (let e = error_field data in if e \<noteq> '''' then Inl (Remote e) else Inl (HttpStatus status data))
     else case Unmarshal dec out data of None \<Rightarrow> Inl BadReply | Some x \<Rightarrow> Inr x)"

text \<open>\<open>cmdSend\<close> up to its request; the keys of a map are written in their order.\<close>

definition send_body :: "string \<Rightarrow> u64 \<Rightarrow> u64 \<Rightarrow> string" where
  "send_body to_addr amount fee = print (JObj [(''amount'', enc_string (FormatAmount amount)),
     (''fee'', enc_string (FormatAmount fee)), (''to'', enc_string to_addr)])"

definition cmdSend :: "string list \<Rightarrow> string \<Rightarrow> cli_error + string" where
  "cmdSend args feeFlag = (case args of
     [to_addr, amountArg] \<Rightarrow> (case ParseAmount amountArg of Inl e \<Rightarrow> Inl (BadAmount e) | Inr amount \<Rightarrow>
       case ParseAmount feeFlag of Inl e \<Rightarrow> Inl (BadAmount e) | Inr fee \<Rightarrow> Inr (send_body to_addr amount fee))
   | _ \<Rightarrow> Inl Usage)"

definition dec_txid :: "json \<Rightarrow> hash \<Rightarrow> hash option" where
  "dec_txid = dec_one ''txid'' dec_hash"

definition balance_path :: "string list \<Rightarrow> string" where
  "balance_path args = (let addr = (case args of [] \<Rightarrow> '''' | a # _ \<Rightarrow> a) in
     if addr \<noteq> '''' then ''/api/balance?addr='' @ addr else ''/api/balance'')"

record balance_reply =
  b_Address :: string
  b_Balance :: u64
  b_Nonce :: u64

definition dec_balance :: "json \<Rightarrow> balance_reply \<Rightarrow> balance_reply option" where
  "dec_balance = dec_struct [field ''address'' dec_string b_Address (\<lambda>x. b_Address_update (\<lambda>_. x)),
     field ''balance'' dec_u64 b_Balance (\<lambda>x. b_Balance_update (\<lambda>_. x)), field ''nonce'' dec_u64 b_Nonce (\<lambda>x. b_Nonce_update (\<lambda>_. x))]"

definition balance_line :: "balance_reply \<Rightarrow> string" where
  "balance_line r = b_Address r @ ''  '' @ FormatAmount (b_Balance r) @ '' BLG (nonce '' @ fmt_d (unat (b_Nonce r)) @ '')'' @ [newline]"

text \<open>\<open>cmdScan\<close>: the number of blocks it asks for.\<close>

definition scan_count :: "string list \<Rightarrow> cli_error + int" where
  "scan_count args = (case args of [] \<Rightarrow> Inr 10 | a # _ \<Rightarrow>
     (case ParseInt a of None \<Rightarrow> Inl BadScanCount | Some n \<Rightarrow> if n \<le> 0 then Inl BadScanCount else Inr n))"

definition scan_path :: "int \<Rightarrow> string" where
  "scan_path count = ''/api/blocks?count='' @ fmt_i count"

definition shortAddr :: "address \<Rightarrow> string" where
  "shortAddr s = (if length s > 12 then take 8 s @ ''...'' @ drop (length s - 4) s else s)"

end
