(* ===== verification/Served.thy ===== *)
theory Served
  imports NodeFacts
begin

text \<open>
  What every request keeps. A relation between a node and what it becomes that is reflexive and
  transitive, that the operations on the mempool respect and that one insertion respects is respected
  by every request: the locale states that interface once, for the theories that follow a node
  over its life.
\<close>

lemma same_chain_effects [simp]:
  "same_chain n (emit ev n') = same_chain n n'" "same_chain n (sendGetBlocks p hs n') = same_chain n n'"
  by (simp_all add: same_chain_def emit_def sendGetBlocks_def)

locale kept =
  fixes R :: "env \<Rightarrow> node \<Rightarrow> node \<Rightarrow> bool"
  assumes trans: "R E n n1 \<Longrightarrow> R E n1 n2 \<Longrightarrow> R E n n2"
    and same: "same_chain n n' \<Longrightarrow> R E n n'"
    and insertion: "env_ok E \<Longrightarrow> node_inv E n \<Longrightarrow> wire_ok b \<Longrightarrow> insertBlockLocked E b False an ex n = Ret (err, n') \<Longrightarrow> R E n n'"
begin

lemma refl: "R E n n"
  by (rule same) simp

lemma AddTx_kept:
  assumes "env_ok E" and "node_inv E n" and "AddTx E t ex n = Ret (err, n')"
  shows "node_inv E n' \<and> R E n n'"
  using AddTx_ok[OF node_invD(6)[OF assms(2)] node_state_small[OF env_okD(1)[OF assms(1)] assms(2)], of t ex]
    same_chain_inv[OF assms(2)] same assms(3) by fastforce

lemma insert_kept:
  assumes "env_ok E" and "node_inv E n" and "wire_ok b" and "insertBlockLocked E b False an ex n = Ret (err, n')"
  shows "node_inv E n' \<and> R E n n'"
  using insertBlockLocked_result[OF env_okD(1)[OF assms(1)] assms(2,3), of False an ex] insertion[OF assms] assms(4) by auto

lemma acceptRemoteBlock_kept:
  assumes "env_ok E" and "node_inv E n" and "wire_ok b" and "acceptRemoteBlock E b p an n = Ret (a, n')"
  shows "node_inv E n' \<and> R E n n'"
proof -
  have "R E n (sendGetBlocks p hs n1)" if "R E n n1" for hs n1
    by (rule trans[OF that same]) simp
  with assms(4) insert_kept[OF assms(1-3)] assms(2) refl show ?thesis
    by (auto simp: acceptRemoteBlock_def Let_def run_bind_eq_Ret split: if_splits option.splits)
qed

lemma accept_loop_kept:
  assumes "env_ok E"
  shows "node_inv E n \<Longrightarrow> blocks_wire_ok qs \<Longrightarrow> accept_loop E p qs acc dp n = Ret (a, d, n')
    \<Longrightarrow> node_inv E n' \<and> R E n n'"
proof (induction qs arbitrary: acc dp n)
  case (Cons q qs)
  then obtain b where q: "q = Some b" "wire_ok b" "blocks_wire_ok qs" by (auto simp: blocks_wire_ok_def split: option.splits)
  with Cons.prems(3) obtain ok n1 where a: "acceptRemoteBlock E b p False n = Ret (ok, n1)"
    "\<exists>acc dp. accept_loop E p qs acc dp n1 = Ret (a, d, n')"
    by (auto simp: run_bind_eq_Ret split: if_splits)
  from acceptRemoteBlock_kept[OF assms Cons.prems(1) q(2) a(1)] have "node_inv E n1" "R E n n1" by simp_all
  with Cons.IH q(3) a(2) show ?case by (metis trans)
qed (simp add: refl)

lemma mempool_loop_kept:
  assumes "env_ok E"
  shows "node_inv E n \<Longrightarrow> mempool_loop E p qs n = Ret n' \<Longrightarrow> R E n n'"
proof (induction qs arbitrary: n)
  case (Cons q qs)
  show ?case
  proof (cases q)
    case (Some t)
    with Cons.prems(2) obtain err n1 where a: "AddTx E t (Dial p) n = Ret (err, n1)" "mempool_loop E p qs n1 = Ret n'"
      by (auto simp: run_bind_eq_Ret)
    from AddTx_kept[OF assms Cons.prems(1) a(1)] Cons.IH a(2) show ?thesis by (metis trans)
  qed (use Cons in simp)
qed (simp add: refl)

lemma onMessage_kept:
  assumes "env_ok E" and "node_inv E n" and "message_ok msg" and "onMessage E p msg n = Ret n'"
  shows "R E n n'"
proof (cases msg)
  case (MsgBlocks qs)
  with assms(3) have qs: "blocks_wire_ok qs" by (simp add: message_ok_def)
  show ?thesis
  proof (cases "qs = []")
    case False
    with MsgBlocks assms(4) obtain a d n1 where l: "accept_loop E p qs 0 0 n = Ret (a, d, n1)" "same_chain n1 n'"
      by (auto simp: onMessage_def onBlocks_def run_bind_eq_Ret Let_def split: if_splits)
    with accept_loop_kept[OF assms(1,2) qs l(1)] same[OF l(2)] show ?thesis by (metis trans)
  qed (use MsgBlocks assms(4) refl in \<open>simp add: onMessage_def onBlocks_def\<close>)
next
  case (MsgNewBlock q)
  with assms acceptRemoteBlock_kept[OF assms(1,2)] refl show ?thesis
    by (cases q) (auto simp: onMessage_def onNewBlock_def run_bind_eq_Ret message_ok_def)
next
  case (MsgNewTx q)
  with assms AddTx_kept[OF assms(1,2)] refl show ?thesis by (cases q) (auto simp: onMessage_def onNewTx_def run_bind_eq_Ret)
next
  case (MsgMempool qs)
  with assms mempool_loop_kept[OF assms(1,2)] refl show ?thesis by (auto simp: onMessage_def onMempool_def split: option.splits)
qed (use assms(4) in \<open>auto simp: onMessage_def onGetBlocks_def onGetMempool_def Let_def split: if_splits intro!: same\<close>)

lemma Send_kept:
  assumes "env_ok E" and "node_inv E n" and "Send E a amount fee n = Ret (res, n')"
  shows "R E n n'"
proof (cases "en_wallet E = None \<or> \<not> Valid a")
  case False
  then obtain w where w: "en_wallet E = Some w" "Valid a" by auto
  from pendingState_ok[OF node_invD(6)[OF assms(2)] node_state_small[OF env_okD(1)[OF assms(1)] assms(2)]] obtain ps where
    ps: "pendingState n = Ret (ps, n\<lparr>n_pending := Some ps, n_pendingDirty := False\<rparr>)" "small ps" by blast
  let ?n = "n\<lparr>n_pending := Some ps, n_pendingDirty := False, n_ticks := Suc (n_ticks n)\<rparr>"
  have sc: "same_chain n ?n" and "pool_inv E ?n"
    using ps(2) node_invD(6)[OF assms(2)] by (simp_all add: same_chain_def pool_inv_def)
  then have inv': "node_inv E ?n" by (rule same_chain_inv[OF assms(2)])
  obtain t where "build_send E w a amount fee n = Ret (t, ?n)" using ps(1) by (simp add: build_send_def nowMs_def Let_def)
  with w assms(3) obtain err where "AddTx E t '''' ?n = Ret (err, n')"
    by (auto simp: Send_def run_bind_eq_Ret split: option.splits)
  from AddTx_kept[OF assms(1) inv' this] trans[OF same[OF sc]] show ?thesis by blast
qed (use assms(3) refl in \<open>auto simp: Send_def split: option.splits\<close>)

lemma BuildCandidate_kept:
  assumes "env_ok E" and "node_inv E n" and "BuildCandidate E miner n = Ret (b, n')"
  shows "R E n n'"
proof (cases "n_tip n")
  case None
  with assms(3) refl show ?thesis by (simp add: BuildCandidate_def)
next
  case (Some t)
  obtain b' n1 where "BuildCandidate E miner n = Ret (b', n1)" "same_chain n n1"
    by (rule BuildCandidate_result[OF env_okD(1)[OF assms(1)] assms(2) env_okD(2)[OF assms(1)] Some, of miner]) blast
  with assms(3) same show ?thesis by auto
qed

lemma serve_kept:
  assumes "env_ok E" and "node_inv E n" and "request_ok r" and "serve E r n = Ret n'"
  shows "R E n n'"
proof -
  note inv = assms(2)
  show ?thesis
  proof (cases r)
    case (Submit b)
    with assms(3,4) insert_kept[OF assms(1) inv] show ?thesis
      by (auto simp: serve_def SubmitSolution_def run_bind_eq_Ret request_ok_def)
  next
    case (AddTransaction t ex)
    with assms(4) AddTx_kept[OF assms(1) inv] show ?thesis by (auto simp: serve_def run_bind_eq_Ret)
  next
    case (SendPayment a amount fee)
    with assms(4) Send_kept[OF assms(1) inv] show ?thesis by (auto simp: serve_def run_bind_eq_Ret)
  next
    case (Candidate miner)
    with assms(4) BuildCandidate_kept[OF assms(1) inv] show ?thesis by (auto simp: serve_def run_bind_eq_Ret)
  next
    case (Deliver p msg)
    with assms(3,4) onMessage_kept[OF assms(1) inv] show ?thesis by (simp add: serve_def request_ok_def)
  next
    case (Connect p)
    with assms(4) show ?thesis by (auto simp: serve_def onPeerConnect_def run_bind_eq_Ret intro!: same)
  next
    case SyncTick
    with assms(4) show ?thesis by (auto simp: serve_def sync_tick_def run_bind_eq_Ret split: if_splits intro!: same)
  qed (use assms(4) in \<open>auto simp: serve_def SubscribeTips_def cancelTips_def Stop_def Let_def same_chain_def intro!: same\<close>)
qed

end

end
