(* ===== verification/NodeWork.thy ===== *)
theory NodeWork
  imports NodeProps Served
begin

text \<open>
  What only grows or stays bounded over the life of a node: the work of its tip, the hashes it rejects
  and the number of its orphans.
\<close>

subsection \<open>The measures\<close>

definition progress :: "node \<Rightarrow> node \<Rightarrow> bool" where
  "progress n n' \<longleftrightarrow> forward n n' \<and> orphan_count n' \<le> max maxOrphans (orphan_count n)"

lemma progress_refl [simp]: "progress n n"
  by (simp add: progress_def)

lemma progress_trans: "progress n n1 \<Longrightarrow> progress n1 n2 \<Longrightarrow> progress n n2"
  by (auto simp: progress_def intro: forward_trans)

lemma same_chain_work: "same_chain n n' \<Longrightarrow> progress n n'"
  by (simp add: same_chain_def progress_def orphan_count_def)

lemma insert_work:
  assumes "params_ok (en_params E)" and "node_inv E n" and "wire_ok b" and "insertBlockLocked E b fd an ex n = Ret (err, n')"
  shows "node_inv E n' \<and> progress n n'"
  using insertBlockLocked_result[OF assms(1-3), of fd an ex] assms(4) by (auto simp: progress_def)

interpretation prog: kept "\<lambda>E. progress"
proof
  show "progress n n'" if "env_ok E" and "node_inv E n" and "wire_ok b" and "insertBlockLocked E b False an ex n = Ret (err, n')"
    for E :: env and n b an ex err n' using insert_work[OF env_okD(1)[OF that(1)] that(2-4)] by (rule conjunct2)
qed (fact progress_trans same_chain_work)+

lemma load_loop_progress:
  assumes "params_ok (en_params E)"
  shows "node_inv E n \<Longrightarrow> \<forall>b \<in> set bs. wire_ok b \<Longrightarrow> load_loop E bs n = Ret (err, n') \<Longrightarrow> progress n n'"
proof (induction bs arbitrary: n)
  case (Cons b bs)
  from Cons.prems(2) have w: "wire_ok b" by simp
  from Cons.prems(3) obtain e1 n1 where i: "insertBlockLocked E b True False '''' n = Ret (e1, n1)"
    and r: "n' = n1 \<or> load_loop E bs n1 = Ret (err, n')"
    by (auto simp: run_bind_eq_Ret split: option.splits)
  from insert_work[OF assms Cons.prems(1) w i] have n1: "node_inv E n1" "progress n n1" by simp_all
  from r show ?case
  proof
    assume "load_loop E bs n1 = Ret (err, n')"
    with Cons.IH[OF n1(1)] Cons.prems(2) have "progress n1 n'" by simp
    with n1(2) show ?thesis by (rule progress_trans)
  qed (use n1 in simp)
qed simp

lemma New_orphans:
  assumes "env_ok E" and "stored_ok E loaded" and "New E loaded = Ret (err, n)"
  shows "orphan_count n \<le> maxOrphans"
proof -
  note ok = env_okD(1)[OF assms(1)]
  have nz: "genesisHash E \<noteq> 0" using assms(1) by (simp add: env_ok_def)
  have zero: "orphan_count (seeded E True) = 0" by (simp add: orphan_count_def seeded_def empty_node_def)
  obtain e1 n1 where b: "boot_blocks E loaded (empty_node\<lparr>n_booting := True\<rparr>) = Ret (e1, n1)" "node_inv E n1"
    using boot_blocks_ok[OF ok nz assms(2)] by blast
  have c: "orphan_count n1 \<le> maxOrphans"
  proof (cases loaded)
    case Nil
    then have "n1 = appendBlock E (Genesis (en_params E)) (seeded E True)"
      using b(1) by (simp add: boot_blocks_def insert_genesis Let_def split: if_splits)
    then have "n_orphans n1 = n_orphans (seeded E True)" by (simp add: appendBlock_def)
    then show ?thesis by (simp add: orphan_count_def seeded_def empty_node_def)
  next
    case (Cons g bs)
    with assms(2) have g: "g = Genesis (en_params E)" "\<forall>b \<in> set bs. wire_ok b" by (auto simp: stored_ok_def list_all_iff)
    from b(1) Cons g have "load_loop E bs (seeded E True) = Ret (e1, n1)" by (simp add: boot_blocks_def insert_genesis)
    from load_loop_progress[OF ok seeded_inv[OF nz] g(2) this] zero show ?thesis by (simp add: progress_def)
  qed
  show ?thesis
  proof (cases e1)
    case None
    have "node_inv E (n1\<lparr>n_booting := False\<rparr>)" using b(2) by simp
    from selectTip_result[OF ok this] obtain n2 where
      n2: "selectTip E (n1\<lparr>n_booting := False\<rparr>) = Ret n2" "frame (n1\<lparr>n_booting := False\<rparr>) n2" by blast
    have "n = n2" using assms(3) b(1) None n2(1) by (simp add: New_def)
    with n2(2) c show ?thesis by (simp add: frame_def orphan_count_def)
  qed (use assms(3) b(1) c in \<open>simp add: New_def\<close>)
qed

subsection \<open>Over a life\<close>

lemma serve_all_result:
  assumes "env_ok E"
  shows "reachable E n \<Longrightarrow> list_all request_ok rs \<Longrightarrow> \<exists>n'. serve_all E rs n = Ret n' \<and> reachable E n' \<and> forward n n'"
proof (induction rs arbitrary: n)
  case (Cons r rs)
  then have r: "request_ok r" "list_all request_ok rs" by simp_all
  note inv = reachable_inv[OF assms Cons.prems(1)]
  from serve_ok[OF assms inv r(1)] obtain n1 where n1: "serve E r n = Ret n1" by blast
  have f: "forward n n1" using prog.serve_kept[OF assms inv r(1) n1] by (simp add: progress_def)
  from Cons.IH[OF reachable.serve[OF Cons.prems(1) r(1) n1] r(2)] obtain n2 where
    "serve_all E rs n1 = Ret n2" "reachable E n2" "forward n1 n2" by blast
  with n1 forward_trans[OF f] show ?case by auto
qed simp

text \<open>A rejected hash is refused from then on, and never gets into the tree.\<close>

lemma rejected_stays_out:
  assumes "env_ok E" and "reachable E n" and "block_Hash b \<in> n_rejected n" and "list_all request_ok rs"
  shows "\<exists>n'. serve_all E rs n = Ret n' \<and> map_of (n_blocks n') (block_Hash b) = None
    \<and> SubmitSolution E b n' = Ret (Some PreviouslyRejected, n')"
proof -
  from serve_all_result[OF assms(1,2,4)] obtain n' where n': "serve_all E rs n = Ret n'" "reachable E n'" "forward n n'" by blast
  then have rej: "block_Hash b \<in> n_rejected n'" using assms(3) by (auto simp: forward_def)
  then have "map_of (n_blocks n') (block_Hash b) = None" by (rule node_invD(3)[OF reachable_inv[OF assms(1) n'(2)]])
  with n'(1) rej show ?thesis by (simp add: SubmitSolution_def insertBlockLocked_def Let_def)
qed

text \<open>C5: no well-formed request makes a node give up work: whatever it is sent, the branch it follows afterwards has
  at least the work of the branch it followed before, even when a heavier branch turns out invalid.\<close>

theorem work_never_decreases:
  assumes "env_ok E" and "reachable E n" and "request_ok r" and "serve E r n = Ret n'"
  shows "tip_work n \<le> tip_work n'"
  using prog.serve_kept[OF assms(1) reachable_inv[OF assms(1,2)] assms(3,4)] by (simp add: progress_def forward_def)

text \<open>C27: the memory a peer can make a node spend on orphans is bounded: a reachable node never holds
  more than \<open>maxOrphans\<close> blocks whose parent it does not know.\<close>

theorem orphans_bounded:
  assumes "env_ok E" and "reachable E n"
  shows "orphan_count n \<le> maxOrphans"
  using assms(2)
proof induction
  case (start loaded n)
  from New_orphans[OF assms(1) start] show ?case .
next
  case (serve n r n')
  with prog.serve_kept[OF assms(1) reachable_inv[OF assms(1) serve.hyps(1)] serve.hyps(2,3)] show ?case
    by (simp add: progress_def)
qed

theorem orphans_bounded_witness: "orphan_count (fresh_node demo_env) \<le> maxOrphans"
  by (rule orphans_bounded[OF demo_env_ok demo_reachable])

end
