(* ===== verification/FirstBlock.thy ===== *)
theory FirstBlock
  imports GenesisHash Ledger
begin

text \<open>
  The first block after the genesis block of the main network, mined at difficulty one: its miner's
  address, its coinbase, its merkle root and its hash, computed by the kernel. It is the concrete
  input of the properties that need a block with a proof of work.
\<close>

subsection \<open>The miner\<close>

definition demo_body :: string where
  "demo_body = replicate 32 (CHR ''a'')"

definition demo_addr :: address where
  "demo_addr = ''blu1aaaaaaaaaaaaaaaaaaaaaaaaaaaaaaaa26f3''"

definition addr_b1 :: bytes where
  "addr_b1 =
     [98, 108, 117, 49, 97, 97, 97, 97, 97, 97, 97, 97, 97, 97, 97, 97, 97, 97, 97, 97, 97, 97, 97, 97,
     97, 97, 97, 97, 97, 97, 97, 97, 97, 97, 97, 97, 128, 0, 0, 0, 0, 0, 0, 0, 0, 0, 0, 0, 0, 0, 0, 0,
     0, 0, 0, 0, 0, 0, 0, 0, 0, 0, 1, 32]"

lemma addr_pad: "sha256_pad (string_bytes (AddressPrefix @ demo_body)) = concat [addr_b1]"
  by code_simp

lemma addr_words1: "map uint (words_of addr_b1) =
     [1651275057, 1633771873, 1633771873, 1633771873, 1633771873, 1633771873, 1633771873, 1633771873,
     1633771873, 2147483648, 0, 0, 0, 0, 0, 288]"
  by code_simp

lemma addr_compress1: "compress_int (map uint sha256IV)
     [1651275057, 1633771873, 1633771873, 1633771873, 1633771873, 1633771873, 1633771873, 1633771873,
     1633771873, 2147483648, 0, 0, 0, 0, 0, 288]
   = [653486477, 3158821824, 1932202743, 1263651622, 2940385486, 4186634533, 2268590029, 764327400]"
  by (simp add: sha_int_defs K_int_eq sha256IV_def)

lemma addr_hash: "HashBytes (string_bytes (AddressPrefix @ demo_body)) = 0x26f3698dbc47cbc0732b12f74b51cb26af42b8cef98af9258737efcd2d8eb5e8"
proof -
  have "HashBytes (string_bytes (AddressPrefix @ demo_body)) = of_nat (base_val (2 ^ 32) (map nat
     [653486477, 3158821824, 1932202743, 1263651622, 2940385486, 4186634533, 2268590029, 764327400]))"
  proof (rule hash_blocks[OF addr_pad])
    show "list_all (\<lambda>b. length b = 64) [addr_b1]" by (simp add: addr_b1_def)
    show "foldl compress_int (map uint sha256IV) (map (\<lambda>b. map uint (words_of b)) [addr_b1]) =
     [653486477, 3158821824, 1932202743, 1263651622, 2940385486, 4186634533, 2268590029, 764327400]"
      by (simp add: addr_words1 addr_compress1)
  qed
  then show ?thesis by (simp add: base_val_def)
qed

lemma demo_addr_Valid: "Valid demo_addr"
proof -
  have "computeChecksum demo_body = ''26f3''"
    unfolding computeChecksum_def HashBytes_def[symmetric] addr_hash by code_simp
  moreover have "demo_body = take (length demo_addr - checksumLen - length AddressPrefix) (drop (length AddressPrefix) demo_addr)"
    by code_simp
  moreover have "length demo_addr = addrLength" "take (length AddressPrefix) demo_addr = AddressPrefix"
    "list_all body_char demo_body" "drop (length demo_addr - checksumLen) demo_addr = ''26f3''" by code_simp+
  ultimately show ?thesis by (simp add: Valid_def)
qed

subsection \<open>The coinbase\<close>

definition demo_coinbase :: tx where
  "demo_coinbase = \<lparr> From = CoinbaseAddress, To = demo_addr, Amount = 100000000, Fee = 0,
     tx_Nonce = 1, tx_Time = 1727049700000, PubKey = None, Sig = None \<rparr>"

definition coinbase_b1 :: bytes where
  "coinbase_b1 =
     [0, 0, 0, 0, 40, 0, 0, 0, 98, 108, 117, 49, 97, 97, 97, 97, 97, 97, 97, 97, 97, 97, 97, 97, 97, 97,
     97, 97, 97, 97, 97, 97, 97, 97, 97, 97, 97, 97, 97, 97, 97, 97, 97, 97, 50, 54, 102, 51, 0, 225,
     245, 5, 0, 0, 0, 0, 0, 0, 0, 0, 0, 0, 0, 0]"

definition coinbase_b2 :: bytes where
  "coinbase_b2 =
     [1, 0, 0, 0, 0, 0, 0, 0, 160, 18, 47, 28, 146, 1, 0, 0, 0, 0, 0, 0, 0, 0, 0, 0, 128, 0, 0, 0, 0, 0,
     0, 0, 0, 0, 0, 0, 0, 0, 0, 0, 0, 0, 0, 0, 0, 0, 0, 0, 0, 0, 0, 0, 0, 0, 0, 0, 0, 0, 0, 0, 0, 0, 2,
     192]"

lemma coinbase_pad: "sha256_pad (tx_encode False demo_coinbase) = concat [coinbase_b1, coinbase_b2]"
  by code_simp

lemma coinbase_words1: "map uint (words_of coinbase_b1) =
     [0, 671088640, 1651275057, 1633771873, 1633771873, 1633771873, 1633771873, 1633771873, 1633771873,
     1633771873, 1633771873, 842425907, 14808325, 0, 0, 0]"
  by code_simp

lemma coinbase_compress1: "compress_int (map uint sha256IV)
     [0, 671088640, 1651275057, 1633771873, 1633771873, 1633771873, 1633771873, 1633771873, 1633771873,
     1633771873, 1633771873, 842425907, 14808325, 0, 0, 0]
   = [1182495952, 1063091139, 3421123141, 3451691460, 3321109677, 3366041847, 915345240, 2005123808]"
  by (simp add: sha_int_defs K_int_eq sha256IV_def)

lemma coinbase_words2: "map uint (words_of coinbase_b2) =
     [16777216, 0, 2685546268, 2449539072, 0, 0, 2147483648, 0, 0, 0, 0, 0, 0, 0, 0, 704]"
  by code_simp

lemma coinbase_compress2: "compress_int [1182495952, 1063091139, 3421123141, 3451691460, 3321109677, 3366041847, 915345240, 2005123808]
     [16777216, 0, 2685546268, 2449539072, 0, 0, 2147483648, 0, 0, 0, 0, 0, 0, 0, 0, 704]
   = [636174686, 3473794805, 2911896788, 3853895401, 1409167598, 2827776694, 3978710972, 3559833316]"
  by (simp add: sha_int_defs K_int_eq)

lemma coinbase_hash: "HashBytes (tx_encode False demo_coinbase) = 0x25eb415ecf0de6f5ad9004d4e5b5c6e953fe30eea88c72b6ed264fbcd42ebee4"
proof -
  have "HashBytes (tx_encode False demo_coinbase) = of_nat (base_val (2 ^ 32) (map nat
     [636174686, 3473794805, 2911896788, 3853895401, 1409167598, 2827776694, 3978710972, 3559833316]))"
  proof (rule hash_blocks[OF coinbase_pad])
    show "list_all (\<lambda>b. length b = 64) [coinbase_b1, coinbase_b2]" by (simp add: coinbase_b1_def coinbase_b2_def)
    show "foldl compress_int (map uint sha256IV) (map (\<lambda>b. map uint (words_of b)) [coinbase_b1, coinbase_b2]) =
     [636174686, 3473794805, 2911896788, 3853895401, 1409167598, 2827776694, 3978710972, 3559833316]"
      by (simp add: coinbase_words1 coinbase_words2 coinbase_compress1 coinbase_compress2)
  qed
  then show ?thesis by (simp add: base_val_def)
qed

lemma demo_coinbase_Hash: "tx_Hash demo_coinbase = 0x25eb415ecf0de6f5ad9004d4e5b5c6e953fe30eea88c72b6ed264fbcd42ebee4"
  unfolding tx_Hash_def by (rule coinbase_hash)

subsection \<open>The block\<close>

definition demo_mined :: block where
  "demo_mined = \<lparr> Height = 1, PrevHash = 0x8b1e4dc2722051c3963fceeba88e06a32f1a97c9ca024da69ec0bea8152633f2, Time = 1727049700000,
     Difficulty = 1, Miner = demo_addr, ExtraNonce = 0,
     Merkle = 0x25eb415ecf0de6f5ad9004d4e5b5c6e953fe30eea88c72b6ed264fbcd42ebee4, Nonce = 1, Txs = [Some demo_coinbase] \<rparr>"

definition mined_b1 :: bytes where
  "mined_b1 =
     [1, 0, 0, 0, 0, 0, 0, 0, 32, 0, 0, 0, 139, 30, 77, 194, 114, 32, 81, 195, 150, 63, 206, 235, 168,
     142, 6, 163, 47, 26, 151, 201, 202, 2, 77, 166, 158, 192, 190, 168, 21, 38, 51, 242, 160, 18, 47,
     28, 146, 1, 0, 0, 1, 0, 0, 0, 0, 0, 0, 0, 40, 0, 0, 0]"

definition mined_b2 :: bytes where
  "mined_b2 =
     [98, 108, 117, 49, 97, 97, 97, 97, 97, 97, 97, 97, 97, 97, 97, 97, 97, 97, 97, 97, 97, 97, 97, 97,
     97, 97, 97, 97, 97, 97, 97, 97, 97, 97, 97, 97, 50, 54, 102, 51, 0, 0, 0, 0, 0, 0, 0, 0, 32, 0, 0,
     0, 37, 235, 65, 94, 207, 13, 230, 245, 173, 144, 4, 212]"

definition mined_b3 :: bytes where
  "mined_b3 =
     [229, 181, 198, 233, 83, 254, 48, 238, 168, 140, 114, 182, 237, 38, 79, 188, 212, 46, 190, 228, 1,
     0, 0, 0, 0, 0, 0, 0, 128, 0, 0, 0, 0, 0, 0, 0, 0, 0, 0, 0, 0, 0, 0, 0, 0, 0, 0, 0, 0, 0, 0, 0, 0,
     0, 0, 0, 0, 0, 0, 0, 0, 0, 4, 224]"

lemma mined_pad: "sha256_pad (HeaderBytes demo_mined) = concat [mined_b1, mined_b2, mined_b3]"
  by code_simp

lemma mined_words1: "map uint (words_of mined_b1) =
     [16777216, 0, 536870912, 2334019010, 1914720707, 2520764139, 2827880099, 790271945, 3389148582,
     2663431848, 354825202, 2685546268, 2449539072, 16777216, 0, 671088640]"
  by code_simp

lemma mined_compress1: "compress_int (map uint sha256IV)
     [16777216, 0, 536870912, 2334019010, 1914720707, 2520764139, 2827880099, 790271945, 3389148582,
     2663431848, 354825202, 2685546268, 2449539072, 16777216, 0, 671088640]
   = [1073777959, 2290659736, 2355206725, 1268513958, 3457000114, 3533778204, 1243646855, 2931955699]"
  by (simp add: sha_int_defs K_int_eq sha256IV_def)

lemma mined_words2: "map uint (words_of mined_b2) =
     [1651275057, 1633771873, 1633771873, 1633771873, 1633771873, 1633771873, 1633771873, 1633771873,
     1633771873, 842425907, 0, 0, 536870912, 636174686, 3473794805, 2911896788]"
  by code_simp

lemma mined_compress2: "compress_int [1073777959, 2290659736, 2355206725, 1268513958, 3457000114, 3533778204, 1243646855, 2931955699]
     [1651275057, 1633771873, 1633771873, 1633771873, 1633771873, 1633771873, 1633771873, 1633771873,
     1633771873, 842425907, 0, 0, 536870912, 636174686, 3473794805, 2911896788]
   = [2635424124, 2728298509, 1973539136, 1389464956, 2836760911, 2601500181, 1959894349, 1868784465]"
  by (simp add: sha_int_defs K_int_eq)

lemma mined_words3: "map uint (words_of mined_b3) =
     [3853895401, 1409167598, 2827776694, 3978710972, 3559833316, 16777216, 0, 2147483648, 0, 0, 0, 0, 0,
     0, 0, 1248]"
  by code_simp

lemma mined_compress3: "compress_int [2635424124, 2728298509, 1973539136, 1389464956, 2836760911, 2601500181, 1959894349, 1868784465]
     [3853895401, 1409167598, 2827776694, 3978710972, 3559833316, 16777216, 0, 2147483648, 0, 0, 0, 0, 0,
     0, 0, 1248]
   = [2949866852, 1490085159, 3191978437, 1763970975, 275066463, 4114244708, 2843053481, 197626903]"
  by (simp add: sha_int_defs K_int_eq)

lemma mined_hash: "HashBytes (HeaderBytes demo_mined) = 0xafd3656458d0e527be41b9c569240f9f10652e5ff53a6464a9758da90bc78c17"
proof -
  have "HashBytes (HeaderBytes demo_mined) = of_nat (base_val (2 ^ 32) (map nat
     [2949866852, 1490085159, 3191978437, 1763970975, 275066463, 4114244708, 2843053481, 197626903]))"
  proof (rule hash_blocks[OF mined_pad])
    show "list_all (\<lambda>b. length b = 64) [mined_b1, mined_b2, mined_b3]" by (simp add: mined_b1_def mined_b2_def mined_b3_def)
    show "foldl compress_int (map uint sha256IV) (map (\<lambda>b. map uint (words_of b)) [mined_b1, mined_b2, mined_b3]) =
     [2949866852, 1490085159, 3191978437, 1763970975, 275066463, 4114244708, 2843053481, 197626903]"
      by (simp add: mined_words1 mined_words2 mined_words3 mined_compress1 mined_compress2 mined_compress3)
  qed
  then show ?thesis by (simp add: base_val_def)
qed

lemma demo_mined_Hash: "block_Hash demo_mined = 0xafd3656458d0e527be41b9c569240f9f10652e5ff53a6464a9758da90bc78c17"
  unfolding block_Hash_def by (rule mined_hash)

end
