(* ===== verification/ConsensusProps.thy ===== *)
theory ConsensusProps
  imports NodeWork FirstBlock
begin

text \<open>
  Properties of the rules of consensus: the ledger against its specification, the retarget rule,
  encodings, addresses and signatures, the choice of the tip and the removal of an invalid branch.
\<close>

subsection \<open>The ledger\<close>

text \<open>C6: \<open>ApplyBlock\<close> implements the abstract ledger: on a block without null transactions it returns,
  it succeeds exactly when the block is valid on the ledger of unbounded numbers, and then the state
  it leaves is the abstract result, with the block's reward added to the supply.\<close>

theorem apply_block_refines:
  assumes "keys_ok s" and "HalvingInterval p \<noteq> 0" and "Txs b = map Some ts"
    and "total_supply s + reward_nat p (unat (Height b)) < 2 ^ 64"
  shows "\<exists>err s'. ApplyBlock ed p b s = Ret (err, s') \<and> (case err of
      None \<Rightarrow> spec_block ed p b (abs_state s) = Some (abs_state s') \<and> total_supply s' = total_supply s + reward_nat p (unat (Height b))
    | Some _ \<Rightarrow> spec_block ed p b (abs_state s) = None)"
proof -
  obtain err s' where "ApplyBlock ed p b s = Ret (err, s')" "block_refines ed p b s (err, s')"
    using ApplyBlock_refines[OF assms, of ed] by auto
  then show ?thesis by (intro exI[of _ err] exI[of _ s']) (cases err; simp add: block_refines_def)
qed

subsection \<open>Retargeting\<close>

text \<open>C22: the retarget rule. With times and periods the 64-bit arithmetic can hold, the new difficulty is
  the old one scaled by expected over actual time in exact arithmetic, capped at the largest word; it
  is never zero, never below a quarter nor above four times the old one, and a slower period never
  gives a higher difficulty than a faster one.\<close>

theorem retarget_is_exact:
  assumes "sint (TargetBlockTime p) * sint (BlocksPerRetarget p) = expected" and "0 < expected" and "expected < 2 ^ 61"
    and "\<bar>sint time - sint anchor\<bar> < 2 ^ 61" and "\<bar>sint later - sint anchor\<bar> < 2 ^ 61" and "sint time \<le> sint later"
  shows "unat (retarget p d time anchor) = min (2 ^ 64 - 1) (max 1 (let actual = sint time - sint anchor in
      if actual \<le> 0 \<or> actual * 4 < expected then unat d * 4
      else if actual > 4 * expected then unat d div 4 else unat d * nat expected div nat actual))
    \<and> max 1 (unat d div 4) \<le> unat (retarget p d time anchor) \<and> unat (retarget p d time anchor) \<le> max 1 (4 * unat d)
    \<and> retarget p d later anchor \<le> retarget p d time anchor"
proof -
  let ?x = "retarget_exact expected (sint time - sint anchor) (unat d)"
  have eq: "unat (retarget p d time anchor) = min (2 ^ 64 - 1) ?x"
    by (rule retarget_exact_eq[OF assms(1-4)])
  have eq': "unat (retarget p d later anchor) = min (2 ^ 64 - 1) (retarget_exact expected (sint later - sint anchor) (unat d))"
    by (rule retarget_exact_eq[OF assms(1-3,5)])
  have clamp: "max 1 (unat d div 4) \<le> ?x" "?x \<le> max 1 (4 * unat d)" using retarget_exact_clamp[OF assms(2)] by blast+
  have le: "retarget_exact expected (sint later - sint anchor) (unat d) \<le> ?x"
    using retarget_exact_antimono[OF assms(2), of "sint time - sint anchor" "sint later - sint anchor"] assms(6) by simp
  have "unat d div 4 \<le> unat d" by (rule div_le_dividend)
  also have "unat d \<le> 2 ^ 64 - 1" using unat_u64_less[of d] by linarith
  finally have cap: "max 1 (unat d div 4) \<le> (2 ^ 64 - 1 :: nat)" by (intro max.boundedI) simp_all
  show ?thesis
  proof (intro conjI)
    show "unat (retarget p d time anchor) = min (2 ^ 64 - 1) (max 1 (let actual = sint time - sint anchor in
      if actual \<le> 0 \<or> actual * 4 < expected then unat d * 4
      else if actual > 4 * expected then unat d div 4 else unat d * nat expected div nat actual))"
      unfolding eq retarget_exact_def Let_def by (rule refl)
    show "max 1 (unat d div 4) \<le> unat (retarget p d time anchor)" unfolding eq by (rule min.boundedI[OF cap clamp(1)])
    show "unat (retarget p d time anchor) \<le> max 1 (4 * unat d)" unfolding eq by (rule min.coboundedI2[OF clamp(2)])
    show "retarget p d later anchor \<le> retarget p d time anchor"
      unfolding word_le_nat_alt eq eq' by (rule min.mono[OF order_refl le])
  qed
qed

theorem retarget_is_exact_witness: "unat (retarget DefaultParams 1000 1800000 0) = 4000"
proof -
  have "unat (retarget DefaultParams 1000 1800000 0) = min (2 ^ 64 - 1) (max 1 (let actual = sint (1800000 :: i64) - sint (0 :: i64) in
      if actual \<le> 0 \<or> actual * 4 < 7200000 then unat (1000 :: u64) * 4
      else if actual > 4 * 7200000 then unat (1000 :: u64) div 4 else unat (1000 :: u64) * nat 7200000 div nat actual))"
    using retarget_is_exact[of DefaultParams 7200000 1800000 0 1800000 1000] by (simp add: DefaultParams_def)
  then show ?thesis by simp
qed

subsection \<open>Addresses and signatures\<close>

text \<open>The shape of an address: \<open>Valid\<close> accepts exactly the prefix, 32 characters of the base-32
  alphabet and their own checksum.\<close>

lemma valid_addresses:
  "Valid s \<longleftrightarrow> (\<exists>body. length body = 32 \<and> list_all body_char body \<and> s = AddressPrefix @ body @ computeChecksum body)"
proof
  assume v: "Valid s"
  then have l: "length s = 40" by (rule Valid_length)
  with v have "list_all body_char (take 32 (drop 4 s))"
    by (simp add: Valid_def checksumLen_def Let_def split: if_splits)
  with l Valid_form[OF v] show "\<exists>body. length body = 32 \<and> list_all body_char body \<and> s = AddressPrefix @ body @ computeChecksum body"
    by (intro exI[of _ "take 32 (drop 4 s)"]) simp
qed (auto intro: Valid_make)

text \<open>C38: what \<open>Send\<close> builds verifies: with a wallet whose key was made from a seed, as every key \<open>GenerateKey\<close>
  returns is, a valid destination and anything to pay, the transaction it signs passes \<open>Verify\<close>, whatever
  the node's state. A wallet file with 64 other bytes, which \<open>LoadWallet\<close> accepts, is not covered.\<close>

theorem sent_transaction_verifies:
  assumes "ed_contract (en_ed E)" and "genuine (en_ed E) w" and "Valid a" and "amount \<noteq> 0 \<or> fee \<noteq> 0"
    and "build_send E w a amount fee n = Ret (t, n')"
  shows "tx_Verify (en_ed E) t = None"
proof -
  from assms(5) obtain ps b where ps: "pendingState n = Ret (ps, b)" by (auto simp: build_send_def run_bind_eq_Ret Let_def)
  let ?u = "\<lparr> From = wallet_Address w, To = a, Amount = amount, Fee = fee,
      tx_Nonce = acct_Nonce (Account ps (wallet_Address w)), tx_Time = en_clock E (n_ticks b),
      PubKey = Some (wallet_PubKey w), Sig = None \<rparr>"
  have t: "t = sign_tx (en_ed E) w ?u"
    using assms(5) ps by (simp add: build_send_def nowMs_def Let_def sign_tx_def)
  show ?thesis unfolding t
    by (rule sign_tx_verifies[OF assms(1,2)]) (use assms(3,4) in simp_all)
qed

theorem sent_transaction_verifies_witness:
  "\<exists>t n'. build_send demo_env zero_wallet demo_addr 5 1 (fresh_node demo_env) = Ret (t, n') \<and> tx_Verify demo_ed t = None"
proof -
  obtain t n' where b: "build_send demo_env zero_wallet demo_addr 5 1 (fresh_node demo_env) = Ret (t, n')"
    by (simp add: build_send_def pendingState_def nowMs_def Let_def)
  from sent_transaction_verifies[of demo_env, OF _ _ demo_addr_Valid _ b] b demo_ed_contract zero_wallet_genuine show ?thesis by auto
qed

subsection \<open>Branches\<close>

text \<open>C18: rejecting a branch is exact: \<open>rejectSubtree\<close> on an entry of a reachable node's tree returns, takes
  out and remembers precisely the entry and its descendants, and touches nothing else.\<close>

theorem rejection_is_exact:
  assumes "env_ok E" and "reachable E n" and "map_of (n_blocks n) (e_hash x) = Some x"
  shows "\<exists>n'. rejectSubtree x n = Ret n'
    \<and> (\<forall>h. map_of (n_blocks n') h = (if descends (n_blocks n) (e_hash x) h then None else map_of (n_blocks n) h))
    \<and> n_rejected n' = n_rejected n \<union> {h. descends (n_blocks n) (e_hash x) h} \<and> n_tip n' = n_tip n \<and> n_state n' = n_state n"
proof -
  from rejectSubtree_result[OF node_invD(1)[OF reachable_inv[OF assms(1,2)]] assms(3)] obtain D n' where
    r: "rejectSubtree x n = Ret n'" "removed D n n'" "e_hash x \<in> D" "\<forall>h \<in> D. descends (n_blocks n) (e_hash x) h"
    by (auto simp: reject_result_def)
  from r(2) have n': "n' = n\<lparr>n_rejected := n_rejected n \<union> D, n_blocks := drop_keys D (n_blocks n)\<rparr>"
    and closed: "\<And>h e. map_of (n_blocks n') h = Some e \<Longrightarrow> PrevHash (e_block e) \<notin> D" by (simp_all add: removed_def)
  have "h \<in> D" if "descends (n_blocks n) (e_hash x) h" for h
    using that
  proof induction
    case (child e h)
    show ?case
    proof (rule ccontr)
      assume "h \<notin> D"
      with child(2) have "map_of (n_blocks n') h = Some e" by (simp add: n' map_of_drop_keys)
      from closed[OF this] child.IH show False by simp
    qed
  qed (rule r(3))
  with r(4) have D: "D = {h. descends (n_blocks n) (e_hash x) h}" by blast
  show ?thesis
    by (intro exI[of _ n'] conjI) (simp_all add: r(1), simp_all add: n' map_of_drop_keys D)
qed

end
