(* ===== verification/CliProps.thy ===== *)
theory CliProps
  imports Cli ConsensusProps
begin

text \<open>
  Properties of the commands with the API: what \<open>send\<close> and \<open>scan\<close> are asked to do is what the node
  does, and what happens to the wallet file.
\<close>

subsection \<open>Text that is not trimmed\<close>

definition graphic :: "char \<Rightarrow> bool" where
  "graphic c \<longleftrightarrow> 33 \<le> code c \<and> code c \<le> 126"

lemma trim_prefix_graphic:
  assumes "list_all (\<lambda>r. r = [] \<or> \<not> graphic (hd r)) rs" and "graphic (hd s)" and "s \<noteq> []"
  shows "trim_prefix rs s = s"
proof -
  have "find (\<lambda>r. r \<noteq> [] \<and> s \<noteq> [] \<and> take (length r) s = r) rs = None"
  proof (unfold find_None_iff, rule notI, elim exE conjE)
    fix r
    assume r: "r \<in> set rs" "r \<noteq> []" "take (length r) s = r"
    then have "hd r = hd s" by (metis hd_take length_greater_0_conv)
    with assms r show False by (auto simp: list_all_iff)
  qed
  then show ?thesis by (simp add: trim_prefix.simps[of rs s])
qed

lemma space_runes_not_graphic:
  "list_all (\<lambda>r. r = [] \<or> \<not> graphic (hd r)) space_runes"
  "list_all (\<lambda>r. r = [] \<or> \<not> graphic (hd r)) (map rev space_runes)"
  by (simp_all add: space_runes_def graphic_def upt_rec)

lemma TrimSpace_graphic: "s \<noteq> [] \<Longrightarrow> graphic (hd s) \<Longrightarrow> graphic (last s) \<Longrightarrow> TrimSpace s = s"
  by (simp add: TrimSpace_def trim_prefix_graphic space_runes_not_graphic hd_rev)

lemma Valid_graphic:
  assumes "Valid s"
  shows "s \<noteq> []" and "graphic (hd s)" and "graphic (last s)"
proof -
  let ?c = "computeChecksum (take 32 (drop 4 s))"
  note f = Valid_form[OF assms] and l = Valid_length[OF assms]
  show "s \<noteq> []" using l by auto
  show "graphic (hd s)" by (subst f) (simp add: AddressPrefix_def graphic_def)
  have "length ?c = 4" by (rule length_computeChecksum)
  then have ne: "?c \<noteq> []" by (metis list.size(3) zero_neq_numeral)
  then have "last s = last ?c" by (subst f) simp
  moreover have "last ?c \<in> set ?c" using ne by (rule last_in_set)
  moreover have "graphic c" if "c \<in> set ?c" for c
  proof -
    have "list_all graphic hexAlphabet" by (simp add: hexAlphabet_def graphic_def)
    then have "graphic (hexAlphabet ! k)" if "k < 16" for k using that by (simp add: list_all_length)
    moreover have "unat (b :: byte) div 16 < 16" for b using unat_byte_less[of b] by simp
    ultimately have "list_all graphic (hex_EncodeToString bs)" for bs by (simp add: hex_EncodeToString_def list_all_iff)
    with that show ?thesis by (auto simp: computeChecksum_def list_all_iff dest!: in_set_takeD)
  qed
  ultimately show "graphic (last s)" by simp
qed

subsection \<open>Sending\<close>

lemma FormatAmount_shape:
  "list_all plain_char (FormatAmount a)" "length (FormatAmount a) \<le> 40" "TrimSpace (FormatAmount a) \<noteq> ''''"
proof -
  let ?w = "fmt_d (unat (a div Bluglets))" and ?f = "fmt_08d (unat (a mod Bluglets))"
  note f = fmt_08d_facts[OF amount_split(3)[of a]]
  have d: "list_all plain_char s" if "list_all is_digit s" for s
    using that by (rule list.pred_mono_strong) (auto simp: is_digit_code plain_char_def)
  have "plain_char (CHR ''.'')" by (simp add: plain_char_def)
  then show "list_all plain_char (FormatAmount a)" using d[OF fmt_d_digits] d[OF f(2)] by (simp add: FormatAmount_def)
  have "length ?w \<le> 20" using length_fmt_d[of "unat (a div Bluglets)"] unsigned_less[of "a div Bluglets"] by simp
  with f(1) show "length (FormatAmount a) \<le> 40" by (simp add: FormatAmount_def)
  have fne: "?f \<noteq> []" using f(1) by auto
  have "is_digit (last ?f)" using f(2) last_in_set[OF fne] by (simp add: list_all_iff)
  moreover note fne
  ultimately have "TrimSpace (FormatAmount a) = FormatAmount a"
    using hd_fmt_d[of "unat (a div Bluglets)"] by (intro TrimSpace_digits) (simp_all add: FormatAmount_def)
  then show "TrimSpace (FormatAmount a) \<noteq> ''''" by (simp add: FormatAmount_def)
qed

lemma fold_more_names [simp]:
  "fold_name ''txid'' = ''TXID''" "fold_name ''priv'' = ''PRIV''" "fold_name ''address'' = ''ADDRESS''" "fold_name ''balance'' = ''BALANCE''"
  by code_simp+

lemma send_body_read:
  assumes "Valid to_addr"
  shows "(case parse_first (take maxBody (send_body to_addr amount fee)) of None \<Rightarrow> None | Some v \<Rightarrow> dec_send_request v zero_send_request)
    = Some \<lparr> q_To = to_addr, q_Amount = FormatAmount amount, q_Fee = FormatAmount fee \<rparr>"
proof -
  let ?ms = "[(''amount'', enc_string (FormatAmount amount)), (''fee'', enc_string (FormatAmount fee)), (''to'', enc_string to_addr)]"
  have p: "list_all plain_char to_addr" by (rule Valid_plain[OF assms])
  have "length (print (enc_string (FormatAmount amount))) \<le> 42" "length (print (enc_string (FormatAmount fee))) \<le> 42"
    "length (print (enc_string to_addr)) = 42"
    using FormatAmount_shape(1,2)[of amount] FormatAmount_shape(1,2)[of fee] p Valid_length[OF assms]
    by (simp_all add: enc_string_def length_quote_plain)
  then have "length (send_body to_addr amount fee) \<le> maxBody"
    using length_members[of ?ms] unfolding send_body_def by (simp add: maxBody_def del: print_members.simps)
  then have t: "take maxBody (send_body to_addr amount fee) = print (JObj ?ms) @ []" by (simp add: send_body_def)
  have "json_ok (JObj ?ms)" using FormatAmount_shape(1) p by (simp add: utf8_ok_plain enc_string_def)
  moreover have "depth (JObj ?ms) \<le> maxNestingDepth" by (simp add: maxNestingDepth_def)
  ultimately have "parse_first (print (JObj ?ms) @ []) = Some (JObj ?ms)" by (rule parse_first_object)
  then show ?thesis unfolding t by (simp add: dec_send_request_def dec_struct_def field_def zero_send_request_def)
qed

definition send_reply :: "address \<Rightarrow> u64 \<Rightarrow> send_error + hash \<Rightarrow> response" where
  "send_reply to_addr amount r = (case r of Inl e \<Rightarrow> BadRequest (ApiSend e)
     | Inr txid \<Rightarrow> Reply (JObj [(''amount'', enc_u64 amount), (''to'', enc_string to_addr), (''txid'', enc_hash txid)]))"

text \<open>C24: \<open>blugold send\<close> pays what it says. For amounts the command accepts and a valid address, the request it
  makes is read by the API as exactly this payment: the node runs \<open>Send\<close> with that address, that
  amount and that fee, neither the formatting nor the JSON nor the limit on the body changes them, and
  the transaction hash the command prints is the one \<open>Send\<close> returned.\<close>

theorem send_reaches_node:
  assumes "ParseAmount amountArg = Inr amount" and "ParseAmount feeFlag = Inr fee" and "Valid to_addr"
  shows "\<exists>body. cmdSend [to_addr, amountArg] feeFlag = Inr body
    \<and> api_send E body n = run_bind (Send E to_addr amount fee n) (\<lambda>(r, n). Ret (send_reply to_addr amount r, n))
    \<and> (\<forall>txid answer v. send_reply to_addr amount (Inr txid) = Reply v \<and> parse answer = Some v \<longrightarrow> decode dec_txid 0 200 answer = Inr txid)"
proof (intro exI conjI)
  note rt = ParseAmount_round
  show "cmdSend [to_addr, amountArg] feeFlag = Inr (send_body to_addr amount fee)" using assms(1,2) by (simp add: cmdSend_def)
  have "TrimSpace to_addr = to_addr" using Valid_graphic[OF assms(3)] by (rule TrimSpace_graphic)
  then show "api_send E (send_body to_addr amount fee) n = run_bind (Send E to_addr amount fee n) (\<lambda>(r, n). Ret (send_reply to_addr amount r, n))"
    unfolding api_send_def send_body_read[OF assms(3)] option.case
    using assms(3) rt FormatAmount_shape(3)[of fee] by (simp add: parse_fee_def send_reply_def Let_def)
  have "decode dec_txid 0 200 answer = Inr txid"
    if "send_reply to_addr amount (Inr txid) = Reply v" "parse answer = Some v" for txid answer v
    using that by (auto simp: send_reply_def decode_def Unmarshal_def dec_txid_def dec_one_def dec_struct_def field_def)
  then show "\<forall>txid answer v. send_reply to_addr amount (Inr txid) = Reply v \<and> parse answer = Some v \<longrightarrow> decode dec_txid 0 200 answer = Inr txid"
    by blast
qed

theorem send_reaches_node_witness:
  "\<exists>body. cmdSend [demo_addr, FormatAmount 150000000] (FormatAmount 1) = Inr body
    \<and> api_send demo_env body (fresh_node demo_env) = Ret (BadRequest (ApiSend NoWallet), fresh_node demo_env)"
proof -
  obtain body where b: "cmdSend [demo_addr, FormatAmount 150000000] (FormatAmount 1) = Inr body"
    "api_send demo_env body (fresh_node demo_env)
      = run_bind (Send demo_env demo_addr 150000000 1 (fresh_node demo_env)) (\<lambda>(r, n). Ret (send_reply demo_addr 150000000 r, n))"
    using send_reaches_node[OF ParseAmount_round ParseAmount_round demo_addr_Valid, of 150000000 1 demo_env "fresh_node demo_env"] by blast
  have "Send demo_env demo_addr 150000000 1 (fresh_node demo_env) = Ret (Inl NoWallet, fresh_node demo_env)"
    by (simp add: Send_def demo_env_def)
  with b show ?thesis by (simp add: send_reply_def)
qed

subsection \<open>Scanning\<close>

lemma ParseInt_range: "ParseInt s = Some c \<Longrightarrow> - (2 ^ 63) \<le> c \<and> c < 2 ^ 63"
proof -
  assume p: "ParseInt s = Some c"
  then obtain a as where s: "s = a # as" by (cases s) (simp_all add: ParseInt_def)
  show ?thesis
  proof (cases "ParseUint (if a = CHR ''-'' \<or> a = CHR ''+'' then as else a # as)")
    case None
    with p show ?thesis by (simp add: ParseInt_def s Let_def)
  next
    case (Some n)
    have pos: "(0 :: int) < 2 ^ 63" by simp
    have u: "uint n = int (unat n)" "0 \<le> int (unat n)" by simp_all
    have c: "(if a = CHR ''-'' then if unat n \<le> 2 ^ 63 then Some (- uint n) else None
        else if unat n < 2 ^ 63 then Some (uint n) else None) = Some c"
      using p unfolding ParseInt_def s list.case Let_def Some option.case by assumption
    show ?thesis
    proof (cases "a = CHR ''-''")
      case True
      with c have le: "unat n \<le> 2 ^ 63" and cn: "c = - uint n" by (simp_all only: if_True split: if_splits) simp_all
      from le have "int (unat n) \<le> 2 ^ 63" by (metis of_nat_le_iff of_nat_numeral of_nat_power)
      with u pos cn show ?thesis by linarith
    next
      case False
      with c have le: "unat n < 2 ^ 63" and cn: "c = uint n" by (simp_all only: if_False split: if_splits) simp_all
      from le have "int (unat n) < 2 ^ 63" by (metis of_nat_less_iff of_nat_numeral of_nat_power)
      with u pos cn show ?thesis by linarith
    qed
  qed
qed

text \<open>\<open>scan N\<close> shows the last \<open>N\<close> blocks up to a hundred, and ten of them for a larger \<open>N\<close>.\<close>

lemma scan_asks_for:
  assumes "scan_count args = Inr c"
  shows "api_blocks (fmt_i c) n = run_bind (RecentBlocks (if c \<le> 100 then c else 10) n) (\<lambda>out.
     Ret (Reply (if n_tip n = None then JNull else enc_array enc_summary out)))"
proof -
  have "0 < c \<and> - (2 ^ 63) \<le> c \<and> c < 2 ^ 63"
    using assms ParseInt_range by (auto simp: scan_count_def split: list.splits option.splits if_splits)
  then show ?thesis using ParseInt_fmt_i[of c] by (simp add: api_blocks_def blocks_count_def)
qed

subsection \<open>The wallet file\<close>

lemma LoadWallet_saved:
  assumes "length k = 64" and "SaveWallet True True True \<lparr> Priv = k \<rparr> file = (ok, file')"
  shows "ok \<and> LoadWallet True file' = Inr \<lparr> Priv = k \<rparr>"
proof -
  let ?v = "enc_wallet \<lparr> Priv = k \<rparr>"
  have v: "json_ok ?v" "depth ?v \<le> maxNestingDepth" by (simp_all add: enc_wallet_def enc_one_def maxNestingDepth_def)
  have "dec_wallet ?v None = Some (Some k)" by (simp add: dec_wallet_def enc_wallet_def dec_one_enc)
  with parse_print[OF v] assms show ?thesis
    by (auto simp: SaveWallet_def LoadWallet_def Unmarshal_def Marshal_def Let_def slice_bytes_def)
qed

text \<open>C35: what the commands do to a wallet. Starting a node, mining and \<open>init\<close> leave an existing wallet file alone
  whatever is in it, and fail without writing when the path cannot be read; where there is none, the wallet they make is the one the next start loads. \<open>keygen\<close>
  without \<open>--force\<close> protects only a file it can load: one that is corrupt, or that just cannot be read
  now, is overwritten, key and all.\<close>

theorem wallet_is_kept:
  assumes "length k = 64"
  shows "snd (loadOrCreateWallet readable key io (Some data)) = Some data
    \<and> loadOrCreateWallet False key io file = (Inl WalletBroken, file)
    \<and> (\<exists>file. loadOrCreateWallet True (Some k) (True, True, True) None = (Inr \<lparr> Priv = k \<rparr>, file) \<and> LoadWallet True file = Inr \<lparr> Priv = k \<rparr>)
    \<and> cmdKeygen False readable (Some k) (True, True, True) (Some data)
        = (case LoadWallet readable (Some data) of Inr w \<Rightarrow> (Inl WalletExists, Some data)
           | Inl err \<Rightarrow> (Inr \<lparr> Priv = k \<rparr>, Some (Marshal enc_wallet \<lparr> Priv = k \<rparr>)))"
proof (intro conjI)
  have "LoadWallet readable (Some data) \<noteq> Inl WalletMissing" by (auto simp: LoadWallet_def split: option.splits)
  then show "snd (loadOrCreateWallet readable key io (Some data)) = Some data"
    by (auto simp: loadOrCreateWallet_def split: sum.splits)
  show "loadOrCreateWallet False key io file = (Inl WalletBroken, file)" by (simp add: loadOrCreateWallet_def LoadWallet_def)
  obtain ok fl where s: "SaveWallet True True True \<lparr> Priv = k \<rparr> None = (ok, fl)" by fastforce
  then have "loadOrCreateWallet True (Some k) (True, True, True) None = (if ok then Inr \<lparr> Priv = k \<rparr> else Inl SaveFailed, fl)"
    by (simp add: loadOrCreateWallet_def LoadWallet_def GenerateWallet_def)
  with LoadWallet_saved[OF assms s]
  show "\<exists>file. loadOrCreateWallet True (Some k) (True, True, True) None = (Inr \<lparr> Priv = k \<rparr>, file) \<and> LoadWallet True file = Inr \<lparr> Priv = k \<rparr>" by simp
  show "cmdKeygen False readable (Some k) (True, True, True) (Some data)
        = (case LoadWallet readable (Some data) of Inr w \<Rightarrow> (Inl WalletExists, Some data)
           | Inl err \<Rightarrow> (Inr \<lparr> Priv = k \<rparr>, Some (Marshal enc_wallet \<lparr> Priv = k \<rparr>)))"
    by (auto simp: cmdKeygen_def GenerateWallet_def SaveWallet_def Let_def split: sum.splits)
qed

theorem wallet_is_kept_witness:
  "cmdKeygen False False (Some (replicate 64 1)) (True, True, True) (Some ''my key'')
    = (Inr \<lparr> Priv = replicate 64 1 \<rparr>, Some (Marshal enc_wallet \<lparr> Priv = replicate 64 1 \<rparr>))"
proof -
  have len: "length (replicate 64 (1 :: byte)) = 64" by simp
  have "cmdKeygen False False (Some (replicate 64 1)) (True, True, True) (Some ''my key'')
      = (case LoadWallet False (Some ''my key'') of Inr w \<Rightarrow> (Inl WalletExists, Some ''my key'')
         | Inl err \<Rightarrow> (Inr \<lparr> Priv = replicate 64 1 \<rparr>, Some (Marshal enc_wallet \<lparr> Priv = replicate 64 1 \<rparr>)))"
    using wallet_is_kept[OF len, of False None "(True, True, True)" "''my key''" None] by (elim conjE)
  then show ?thesis by (simp add: LoadWallet_def)
qed

end
