(* ===== verification/MinedBlock.thy ===== *)
theory MinedBlock
  imports Miner NodeFacts
begin

text \<open>
  The miner and the node together: what a round finds is a solution of its candidate, a solution
  passes every check of the insertion, and when the tip was the best entry it becomes the new tip
  with the state it was built for.
\<close>

subsection \<open>Solutions\<close>

definition solution :: "block \<Rightarrow> nat \<Rightarrow> block \<Rightarrow> bool" where
  "solution cand target b \<longleftrightarrow> (\<exists>x y. b = cand\<lparr>ExtraNonce := x, Nonce := y\<rparr>) \<and> unat (block_Hash b) < target"

lemma run_threads_found:
  assumes "\<forall>b. sr_found s = Some b \<longrightarrow> solution cand target b"
  shows "sr_found (run_threads cand target k sched s) = Some b \<Longrightarrow> solution cand target b"
  using assms
proof (induction sched arbitrary: s)
  case (Cons i sched)
  have "\<forall>b. sr_found (try_nonce cand target i s) = Some b \<longrightarrow> solution cand target b"
    using Cons.prems(2) by (auto simp: try_nonce_def Let_def solution_def split: option.splits)
  with Cons show ?case by (cases "i < k") auto
qed auto

lemma search_found:
  "sr_found (run_threads cand target k sched (search_start m)) = Some b \<Longrightarrow> solution cand target b"
  by (rule run_threads_found[of "search_start m"]) (simp_all add: search_start_def)

text \<open>Once a thread has hit, the round can end with a solution.\<close>

lemma try_nonce_keeps: "sr_found s \<noteq> None \<Longrightarrow> sr_found (try_nonce cand target i s) \<noteq> None"
  by (auto simp: try_nonce_def Let_def split: option.splits)

lemma run_threads_keeps: "sr_found s \<noteq> None \<Longrightarrow> sr_found (run_threads cand target k sched s) \<noteq> None"
proof (induction sched arbitrary: s)
  case (Cons i sched)
  have "sr_found (if i < k then try_nonce cand target i s else s) \<noteq> None"
    using Cons.prems try_nonce_keeps by simp
  with Cons.IH show ?case by simp
qed simp

lemma run_threads_append:
  "run_threads cand target k (xs @ ys) s = run_threads cand target k ys (run_threads cand target k xs s)"
  by (induction xs arbitrary: s) simp_all

subsection \<open>Changing the nonces of a block\<close>

lemma nonces_ValidateBasic:
  "ValidateBasic p (b\<lparr>ExtraNonce := x, Nonce := y\<rparr>) par now = ValidateBasic p b par now"
proof -
  let ?b = "b\<lparr>ExtraNonce := x, Nonce := y\<rparr>"
  have sel: "Height ?b = Height b" "PrevHash ?b = PrevHash b" "Time ?b = Time b" "Txs ?b = Txs b" "Miner ?b = Miner b"
    "Merkle ?b = Merkle b" by simp_all
  show ?thesis unfolding ValidateBasic_def ComputeMerkleRoot_def sel by (rule refl)
qed

lemma nonces_ApplyBlock:
  "ApplyBlock ed p (b\<lparr>ExtraNonce := x, Nonce := y\<rparr>) s = ApplyBlock ed p b s"
proof -
  let ?b = "b\<lparr>ExtraNonce := x, Nonce := y\<rparr>"
  have sel: "Height ?b = Height b" "Txs ?b = Txs b" by simp_all
  show ?thesis unfolding ApplyBlock_def sel by (rule refl)
qed

lemma solution_PoW: "solution cand (Target (Difficulty cand)) b \<Longrightarrow> Difficulty cand \<noteq> 0 \<Longrightarrow> ValidatePoW b = None"
  by (auto simp: solution_def ValidatePoW_def MeetsTarget_def Let_def)

lemma solution_sel:
  assumes "solution cand target b"
  shows "Height b = Height cand" "PrevHash b = PrevHash cand" "Time b = Time cand" "Difficulty b = Difficulty cand"
    "Txs b = Txs cand"
  using assms by (auto simp: solution_def)

subsection \<open>Inserting a block that passes every check\<close>

lemma insert_checked:
  assumes "map_of (n_blocks n) (block_Hash b) = None" and "block_Hash b \<notin> n_rejected n" and "Height b \<noteq> 0"
    and "map_of (n_blocks n) (PrevHash b) = Some par"
    and "ValidateBasic (en_params E) b (Some (e_block par)) (en_clock E (n_ticks n)) = Ret None"
    and "Difficulty b = NextDifficulty (en_params E) (Some (e_block par)) (anchorLocked (en_params E) (n_blocks n) par)"
    and "ValidatePoW b = None" and "map_of (n_orphans n) (block_Hash b) = None"
  shows "insertBlockLocked E b fromDisk announce ex n
    = finish_insert E b announce ex (accept_block E b fromDisk par (n\<lparr>n_ticks := Suc (n_ticks n)\<rparr>))"
proof -
  have "n_orphans (accept_block E b fromDisk par n') = n_orphans n'" for n'
    by (simp add: accept_block_def store_entry_def appendBlock_def Let_def)
  with assms show ?thesis
    by (simp add: insertBlockLocked_def Let_def nowMs_def promoteOrphans_def)
qed

lemma checked_entry:
  assumes "wire_ok b" and "map_of (n_blocks n) (block_Hash b) = None" and "Height b \<noteq> 0"
    and "map_of (n_blocks n) (PrevHash b) = Some par"
    and "ValidateBasic (en_params E) b (Some (e_block par)) now = Ret None"
    and "Difficulty b = NextDifficulty (en_params E) (Some (e_block par)) (anchorLocked (en_params E) (n_blocks n) par)"
    and "ValidatePoW b = None"
  shows "new_entry_ok E (n_blocks n) \<lparr> e_block = b, e_hash = block_Hash b, e_work = e_work par + unat (Difficulty b) \<rparr>"
proof -
  have "basic_ok (en_params E) b (e_block par) now" using assms(5) ValidateBasic_ok by simp
  with assms show ?thesis unfolding new_entry_ok_def entry_ok_def Let_def wire_ok_def by simp blast
qed

text \<open>An extension of the best entry is the best entry.\<close>

lemma extension_best:
  assumes inv: "node_inv E n" and best: "best_loop (n_rejected n) (n_blocks n) None = Some t"
    and inv': "node_inv E n'" and blocks: "n_blocks n' = AList.update (e_hash e) e (n_blocks n)"
    and work: "e_work t < e_work e"
  shows "best_loop (n_rejected n') (n_blocks n') None = Some e"
proof -
  obtain b where b: "best_loop (n_rejected n') (n_blocks n') None = Some b" by (rule best_exists[OF inv'])
  have mb: "map_of (n_blocks n') (e_hash b) = Some b" by (rule best_entry(1)[OF inv' b])
  have "map_of (n_blocks n') (e_hash e) = Some e" by (simp add: blocks)
  from best_entry(2)[OF inv' b this] have nb: "\<not> better e b" .
  have "b = e"
  proof (rule ccontr)
    assume "b \<noteq> e"
    with mb have "map_of (n_blocks n) (e_hash b) = Some b" by (auto simp: blocks update_conv' split: if_splits)
    from best_entry(2)[OF inv best this] have "e_work b \<le> e_work t" by (auto simp: better_iff)
    with work nb show False by (auto simp: better_iff)
  qed
  with b show ?thesis by simp
qed

text \<open>An environment whose disk takes every write.\<close>

definition disk_works :: "env \<Rightarrow> bool" where
  "disk_works E \<longleftrightarrow> (\<forall>k. en_disk E k)"

text \<open>A valid child of the tip becomes the tip, its state the applied one.\<close>

lemma switch_child_valid:
  assumes ok: "params_ok (en_params E)" and inv: "node_inv E n" and e: "map_of (n_blocks n) (e_hash e) = Some e"
    and t: "n_tip n = Some t" and par: "PrevHash (e_block e) = e_hash t"
    and app: "ApplyBlock (en_ed E) (en_params E) (e_block e) (n_state n) = Ret (None, s)"
  shows "\<exists>n'. switchChain E e n = Ret (None, n') \<and> n_tip n' = Some e \<and> n_state n' = s \<and> n_rejected n' = n_rejected n \<and> n_disk n' = n_disk n"
proof -
  from switch_child_result[OF ok inv e t par] obtain err n' where
    r: "switch_child E e n = Ret (err, n')" "frame n n'" "n_tip n' = (if err = None then Some e else n_tip n)"
    "if err = None then n_rejected n' = n_rejected n else n_rejected n' \<noteq> {} \<and> \<not> (\<exists>s. valid_at E (n_blocks n) e s)"
    unfolding switch_result_def by blast
  define n1 where "n1 = (if Height (e_block e) mod checkpointInterval = 0
      then n\<lparr>n_checkpoints := (n_checkpoints n)(e_hash e \<mapsto> Clone s)\<rparr> else n)
    \<lparr>n_chainHeights := (n_chainHeights n)(Height (e_block e) \<mapsto> e_hash e), n_state := s, n_tip := Some e, n_pendingDirty := True\<rparr>"
  have sc: "switch_child E e n = run_bind (dropConfirmed e n1) (\<lambda>n. Ret (None, publish (e_block e) n))"
    using app unfolding n1_def by (cases "Height (e_block e) mod checkpointInterval = 0") (simp_all add: switch_child_def)
  then obtain n2 where n2: "dropConfirmed e n1 = Ret n2" "err = None" "n' = publish (e_block e) n2"
    using r(1) by (cases "dropConfirmed e n1") auto
  have "n_state n2 = n_state n1"
    using n2(1) by (auto simp: dropConfirmed_def revalidateMempool_def run_bind_eq_Ret Let_def split: if_splits)
  moreover have "n_state n1 = s" by (simp add: n1_def)
  ultimately have "n_state n' = s" by (simp add: n2(3) publish_def)
  with r n2(2) t par show ?thesis by (simp add: switchChain_def frame_def)
qed

lemma insert_extends_tip:
  assumes ok: "params_ok (en_params E)" and inv: "node_inv E n" and wire: "wire_ok b"
    and fresh: "map_of (n_blocks n) (block_Hash b) = None" "block_Hash b \<notin> n_rejected n"
      "map_of (n_orphans n) (block_Hash b) = None" and nz: "Height b \<noteq> 0"
    and t: "n_tip n = Some t" "best_loop (n_rejected n) (n_blocks n) None = Some t" "PrevHash b = e_hash t"
    and basic: "ValidateBasic (en_params E) b (Some (e_block t)) (en_clock E (n_ticks n)) = Ret None"
    and diff: "Difficulty b = NextDifficulty (en_params E) (Some (e_block t)) (anchorLocked (en_params E) (n_blocks n) t)"
    and pow: "ValidatePoW b = None" and boot: "\<not> n_booting n"
    and app: "ApplyBlock (en_ed E) (en_params E) b (n_state n) = Ret (None, s)"
  shows "\<exists>n' e. insertBlockLocked E b False announce ex n = Ret (None, n') \<and> n_tip n' = Some e \<and> e_block e = b \<and> n_state n' = s
    \<and> n_rejected n' = n_rejected n \<and> (disk_works E \<longrightarrow> n_disk n' = n_disk n @ [b])"
proof -
  define e where "e = \<lparr> e_block = b, e_hash = block_Hash b, e_work = e_work t + unat (Difficulty b) \<rparr>"
  have mt: "map_of (n_blocks n) (PrevHash b) = Some t" using tip_entry(1)[OF inv t(1)] t(3) by simp
  have new: "new_entry_ok E (n_blocks n) e"
    unfolding e_def by (rule checked_entry[OF wire fresh(1) nz mt basic diff pow])
  define n0 where "n0 = n\<lparr>n_ticks := Suc (n_ticks n)\<rparr>"
  define n1 where "n1 = accept_block E b False t n0"
  define n2 where "n2 = (if announce \<and> \<not> n_booting n1 \<and> en_sw E then emit (Broadcast (MsgNewBlock (Some b)) ex) n1 else n1)"
  have "node_inv E n0" using inv by (simp add: n0_def)
  from store_entry_inv[OF this, of e] new fresh(2) have "node_inv E (store_entry e n0)" by (simp add: n0_def e_def)
  moreover have n1: "n1 = appendBlock E b (store_entry e n0)" by (simp add: n1_def accept_block_def e_def)
  ultimately have "node_inv E n1" by (simp add: appendBlock_def)
  then have inv2: "node_inv E n2" by (simp add: n2_def)
  have sel: "n_blocks n2 = AList.update (e_hash e) e (n_blocks n)" "n_rejected n2 = n_rejected n" "n_tip n2 = Some t"
    "n_state n2 = n_state n" "\<not> n_booting n2"
    using t(1) boot by (simp_all add: n2_def n1 n0_def appendBlock_def store_entry_def emit_def)
  have "0 < unat (Difficulty b)" using pow by (auto simp: ValidatePoW_def unat_gt_0 split: if_splits)
  then have work: "e_work t < e_work e" by (simp add: e_def)
  have best: "best_loop (n_rejected n2) (n_blocks n2) None = Some e"
    by (rule extension_best[OF inv t(2) inv2 sel(1) work])
  have "map_of (n_blocks n2) (e_hash e) = Some e" by (simp add: sel(1))
  from switch_child_valid[OF ok inv2 this sel(3), of s] app t(3) sel(4) obtain n' where
    n': "switchChain E e n2 = Ret (None, n')" "n_tip n' = Some e" "n_state n' = s" "n_rejected n' = n_rejected n2" "n_disk n' = n_disk n2" by (auto simp: e_def)
  have "e_hash t \<noteq> e_hash e" using new mt t(3) by (auto simp: new_entry_ok_def e_def)
  then have "selectTip E n2 = Ret n'" using best n'(1) sel(3) by (simp add: selectTip_def)
  then have "finish_insert E b announce ex n1 = Ret (None, n')"
    using sel(5) by (simp add: finish_insert_def n2_def Let_def emit_def split: if_splits)
  moreover have "insertBlockLocked E b False announce ex n = finish_insert E b announce ex n1"
    unfolding n1_def n0_def by (rule insert_checked[OF fresh(1,2) nz mt basic diff pow fresh(3)])
  moreover have "disk_works E \<longrightarrow> n_disk n2 = n_disk n @ [b]"
    by (simp add: n2_def n1 n0_def appendBlock_def store_entry_def emit_def disk_works_def)
  ultimately show ?thesis using n' sel(2) by (intro exI[of _ n'] exI[of _ e]) (simp add: e_def)
qed

subsection \<open>What a round submits\<close>

text \<open>A round leaves the node alone or submits one solution of the candidate.\<close>

definition submits_solution :: "env \<Rightarrow> block \<Rightarrow> nat \<Rightarrow> node \<Rightarrow> (miner \<times> node) run \<Rightarrow> bool" where
  "submits_solution E cand target n r \<longleftrightarrow> (\<forall>m' n'. r = Ret (m', n') \<longrightarrow>
     n' = n \<or> (\<exists>b err. solution cand target b \<and> SubmitSolution E b n = Ret (err, n')))"

lemma CPU_submits: "submits_solution E cand target n (mineOnceCPU E cand target sched w m n)"
  unfolding submits_solution_def mineOnceCPU_def Let_def
  by (auto simp: run_bind_eq_Ret split: wake.splits option.splits dest!: search_found)

lemma MeetsTarget_solution:
  assumes "MeetsTarget (cand\<lparr>ExtraNonce := x, Nonce := y\<rparr>)"
  shows "solution cand (Target (Difficulty cand)) (cand\<lparr>ExtraNonce := x, Nonce := y\<rparr>)"
  using assms by (auto simp: solution_def MeetsTarget_def Let_def split: if_splits)

context gpu_handle
begin

lemma loop_submits:
  assumes mid: "buildMidstate (HeaderBytes (cand\<lparr>ExtraNonce := 0\<rparr>)) = Some mid" and "Difficulty cand \<noteq> 0"
    and cpu: "\<And>m. submits_solution E cand (Target (Difficulty cand)) n (cpu m n)"
  shows "submits_solution E cand (Target (Difficulty cand)) n
    (gpu_loop E Search cpu mid (targetWords (Target (Difficulty cand))) (cand\<lparr>ExtraNonce := 0\<rparr>) polls base m n)"
proof (induction polls arbitrary: base m)
  case Nil
  then show ?case by (simp add: submits_solution_def)
next
  case (Cons go polls)
  let ?tw = "targetWords (Target (Difficulty cand))"
  show ?case
  proof (cases "Search mid ?tw base (m_gpuBatch m)")
    case (Inl e)
    with cpu show ?thesis by (simp add: submits_solution_def)
  next
    case (Inr r)
    obtain nonce hit where r: "r = (nonce, hit)" by fastforce
    show ?thesis
    proof (cases hit)
      case False
      with Inr r Cons.IH show ?thesis by (simp add: submits_solution_def)
    next
      case True
      from found_meets_target[OF mid] assms(2) Inr r True
      have "MeetsTarget (cand\<lparr>ExtraNonce := 0, Nonce := nonce\<rparr>)" by simp
      from MeetsTarget_solution[OF this] Inr r True show ?thesis
        by (auto simp: submits_solution_def run_bind_eq_Ret)
    qed
  qed
qed

lemma GPU_submits:
  assumes "Difficulty cand \<noteq> 0"
  shows "submits_solution E cand (Target (Difficulty cand)) n
    (mineOnceGPU E Search cand (Target (Difficulty cand)) polls sched w m n)"
proof (cases "buildMidstate (HeaderBytes (cand\<lparr>ExtraNonce := 0\<rparr>))")
  case None
  with CPU_submits show ?thesis by (simp add: mineOnceGPU_def Let_def)
next
  case (Some mid)
  from loop_submits[OF Some assms, of E n] CPU_submits Some show ?thesis by (simp add: mineOnceGPU_def Let_def)
qed

text \<open>The benchmark against the zero target never stops early.\<close>

lemma benchmark_exact:
  "benchmark_loop Search mid batch k base acc = Inr hashes \<Longrightarrow> hashes = acc + of_nat k * ucast batch"
proof (induction k arbitrary: base acc)
  case (Suc k)
  have zero: "\<not> kernel_accepts mid (replicate 8 0) nonce" for nonce
  proof -
    have "\<not> kernel_less hs (replicate j 0)" for hs and j
    proof (induction hs arbitrary: j)
      case (Cons h hs)
      then show ?case by (cases j) simp_all
    qed simp
    then show ?thesis by (simp add: kernel_accepts_def)
  qed
  show ?case
  proof (cases "Search mid (replicate 8 0) base batch")
    case (Inl e)
    with Suc.prems show ?thesis by simp
  next
    case (Inr r)
    obtain nonce hit where r: "r = (nonce, hit)" by fastforce
    with found[of mid "replicate 8 0" base batch nonce] Inr zero have "\<not> hit" by (cases hit) auto
    with Suc.prems Inr r have "benchmark_loop Search mid batch k (base + ucast batch) (acc + ucast batch) = Inr hashes"
      by simp
    from Suc.IH[OF this] show ?thesis by (simp add: algebra_simps)
  qed
qed simp

end

subsection \<open>From the candidate to the new tip\<close>

lemma solution_becomes_tip:
  assumes E: "env_ok E" and inv: "node_inv E n" and boot: "\<not> n_booting n" and t: "n_tip n = Some t"
    and best: "best_loop (n_rejected n) (n_blocks n) None = Some t"
    and miner: "Valid addr" and cand: "BuildCandidate E addr n = Ret (Some cand, n1)"
    and sol: "solution cand (Target (Difficulty cand)) b"
    and fresh: "block_Hash b \<noteq> 0" "block_Hash b \<notin> n_rejected n" "map_of (n_blocks n) (block_Hash b) = None"
      "map_of (n_orphans n) (block_Hash b) = None"
    and wrap: "Height (e_block t) + 1 \<noteq> 0" and pays: "case hd (Txs cand) of None \<Rightarrow> False | Some cb \<Rightarrow> Amount cb \<noteq> 0"
    and clock: "sint (Time (e_block t)) < 2 ^ 63 - 1"
      "sint (Time cand) \<le> sint (en_clock E (n_ticks n1) + MaxFutureTime (en_params E))"
  shows "\<exists>n' e. SubmitSolution E b n1 = Ret (None, n') \<and> n_tip n' = Some e \<and> e_block e = b
     \<and> ApplyBlock (en_ed E) (en_params E) cand (n_state n) = Ret (None, n_state n') \<and> n_rejected n' = n_rejected n
     \<and> (disk_works E \<longrightarrow> n_disk n' = n_disk n1 @ [b])"
proof -
  note ok = env_okD(1)[OF E] and max = env_okD(2)[OF E]
  obtain cand' now txs n' reward where c: "BuildCandidate E addr n = Ret (Some cand', n')"
    "Height cand' = Height (e_block t) + 1" "PrevHash cand' = e_hash t"
    "Difficulty cand' = NextDifficulty (en_params E) (Some (e_block t)) (anchorLocked (en_params E) (n_blocks n) t)"
    "Txs cand' = map Some (coinbase_tx addr (reward + sum_fees txs 0) (Height (e_block t) + 1) now # txs)"
    "node_inv E n'" "same_chain n n'"
    by (rule BuildCandidate_result[OF ok inv max t, of addr])
  have [simp]: "cand' = cand" "n' = n1" using c(1) cand by simp_all
  have same: "n_blocks n1 = n_blocks n" "n_tip n1 = Some t" "n_state n1 = n_state n" "n_rejected n1 = n_rejected n"
    "n_orphans n1 = n_orphans n" "n_booting n1 = n_booting n"
    using c(7) t by (simp_all add: same_chain_def)
  obtain x y where b: "b = cand\<lparr>ExtraNonce := x, Nonce := y\<rparr>" using sol by (auto simp: solution_def)
  have basic: "ValidateBasic (en_params E) b (Some (e_block t)) (en_clock E (n_ticks n1)) = Ret None"
    unfolding b nonces_ValidateBasic by (rule candidate_basic_ok[OF ok inv max t miner cand clock])
  obtain s where s: "ApplyBlock (en_ed E) (en_params E) cand (n_state n) = Ret (None, s)"
    using candidate_applies[OF ok inv max t miner wrap cand pays] by blast
  have nz: "Difficulty cand \<noteq> 0"
  proof -
    have "0 < Difficulty (e_block t)"
    proof (cases "Height (e_block t) = 0")
      case True
      from tree_genesis(2)[OF node_invD(1)[OF inv] tip_entry(1)[OF inv t] this] show ?thesis by simp
    next
      case False
      with tree_invD(3)[OF node_invD(1)[OF inv] tip_entry(1)[OF inv t]] have "ValidatePoW (e_block t) = None"
        by (auto simp: entry_ok_def Let_def)
      then show ?thesis by (auto simp: ValidatePoW_def word_gt_0 split: if_splits)
    qed
    from NextDifficulty_positive[OF this, of "en_params E" "anchorLocked (en_params E) (n_blocks n) t"] c(4)
    show ?thesis by auto
  qed
  have "wire_ok b" using c(5) fresh(1) by (auto simp: wire_ok_def no_nil_def b list_all_iff)
  moreover have "Height b \<noteq> 0" using c(2) wrap by (simp add: b)
  moreover have "ApplyBlock (en_ed E) (en_params E) b (n_state n1) = Ret (None, s)"
    using s by (simp add: b nonces_ApplyBlock same)
  ultimately have "\<exists>n' e. insertBlockLocked E b False True '''' n1 = Ret (None, n') \<and> n_tip n' = Some e \<and> e_block e = b \<and> n_state n' = s
      \<and> n_rejected n' = n_rejected n1 \<and> (disk_works E \<longrightarrow> n_disk n' = n_disk n1 @ [b])"
    using c(3,4,6) fresh(2-4) best boot basic solution_PoW[OF sol nz] same
    by (intro insert_extends_tip[OF ok _ _ _ _ _ _ _ _ _ basic]) (simp_all add: b)
  with s same(4) show ?thesis by (auto simp: SubmitSolution_def)
qed

end
