(* ===== verification/Start.thy ===== *)
theory Start
  imports StoreProps NodeApi Switch
begin

text \<open>
  The start of a node on its data directory, the rest of \<open>New\<close> in \<open>internal/node/node.go\<close>: the store is
  opened, the blocks of its file are loaded and handed to the part of \<open>New\<close> that builds the chain,
  and the switch begins with the configured seeds and the addresses of the last run.
\<close>

datatype start_error = StoreUnavailable | BlocksUnreadable load_error

text \<open>The first three arguments are whether the directory and the file could be made, and the file read.\<close>

definition open_and_load :: "bool \<Rightarrow> bool \<Rightarrow> bool \<Rightarrow> disk \<Rightarrow> start_error + block list \<times> disk" where
  "open_and_load mkdir openfile readfile d = (case store_Open mkdir openfile d of None \<Rightarrow> Inl StoreUnavailable
     | Some d \<Rightarrow> (case LoadBlocks readfile d of Inl e \<Rightarrow> Inl (BlocksUnreadable e) | Inr bs \<Rightarrow> Inr (bs, d)))"

definition New_on_disk :: "bool \<Rightarrow> bool \<Rightarrow> bool \<Rightarrow> env \<Rightarrow> disk \<Rightarrow> start_error + (new_error option \<times> node) run \<times> disk" where
  "New_on_disk mkdir openfile readfile E d = (case open_and_load mkdir openfile readfile d of Inl e \<Rightarrow> Inl e
     | Inr (bs, d) \<Rightarrow> Inr (New E bs, d))"

text \<open>
  The switch of a node that syncs: \<open>saved\<close> is what \<open>LoadPeers\<close> returned, \<open>listener\<close> the address the listener
  got. \<open>None\<close> when it could not listen.
\<close>

definition start_switch :: "string \<Rightarrow> string \<Rightarrow> string list \<Rightarrow> string list option \<Rightarrow> int \<Rightarrow> u64 \<Rightarrow> string option \<Rightarrow> switch option" where
  "start_switch listen advertise cfgSeeds saved maxPeers nonce listener =
     (let seeds = cfgSeeds @ (case saved of None \<Rightarrow> [] | Some s \<Rightarrow> s);
          sw = switch_New listen advertise seeds nonce;
          sw = (if maxPeers > 0 then sw\<lparr>sw_MaxPeers := maxPeers\<rparr> else sw)
      in switch_Start listener (sw\<lparr>sw_persist := True\<rparr>))"

lemma load_lines_file:
  assumes "list_all line_ok bs"
  shows "load_lines (concat (map block_line bs)) = Inr bs"
proof -
  have "list_all (\<lambda>b. block_json_ok b \<and> length (Marshal enc_block b) < maxLine) bs"
    using assms by (simp add: line_ok_def[abs_def])
  from load_lines_append[OF this, of "[]"] show ?thesis by simp
qed

text \<open>A file of good lines is handed over block by block; a directory without a file gives no blocks.\<close>

lemma New_on_disk_file:
  assumes "list_all line_ok bs" and "d_blocks d = None \<and> bs = [] \<or> d_blocks d = Some (concat (map block_line bs))"
  shows "New_on_disk True True True E d = Inr (New E bs, d\<lparr>d_blocks := Some (concat (map block_line bs))\<rparr>)"
  using load_lines_file[OF assms(1)] assms(2)
  by (auto simp: New_on_disk_def open_and_load_def store_Open_def LoadBlocks_def)

end
