(* ===== verification/Restart.thy ===== *)
theory Restart
  imports NodeWork MinedBlock Start
begin

text \<open>
  The life of a node across restarts. While a node runs, the blocks it writes to its file are the
  growth of its tree, parents first; an entry leaves the tree only by being rejected. So a later start
  reads a file that it accepts block by block, and ends with every entry the node had.
\<close>

subsection \<open>The tree in the file\<close>

text \<open>The same program started later: nothing its clock reads is before what the clock read then.\<close>

definition later :: "env \<Rightarrow> env \<Rightarrow> bool" where
  "later E E' \<longleftrightarrow> en_params E' = en_params E \<and> en_ed E' = en_ed E \<and> disk_works E'
     \<and> (\<forall>j k. sint (en_clock E j + MaxFutureTime (en_params E)) \<le> sint (en_clock E' k + MaxFutureTime (en_params E)))"

inductive stored_tree :: "env \<Rightarrow> block list \<Rightarrow> tree \<Rightarrow> bool" for E where
  genesis: "stored_tree E [Genesis (en_params E)] [(genesisHash E, genesis_entry E)]"
| append: "stored_tree E bs T \<Longrightarrow> new_entry_ok E T e \<Longrightarrow> wire_ok (e_block e)
    \<Longrightarrow> sint (Time (e_block e)) \<le> sint (en_clock E k + MaxFutureTime (en_params E))
    \<Longrightarrow> stored_tree E (bs @ [e_block e]) (AList.update (e_hash e) e T)"

lemma seeded_tree: "genesisHash E \<noteq> 0 \<Longrightarrow> tree_inv E [(genesisHash E, genesis_entry E)]"
  using node_invD(1)[OF seeded_inv[of E True]] by (simp add: seeded_def empty_node_def)

lemma stored_tree_inv: "stored_tree E bs T \<Longrightarrow> genesisHash E \<noteq> 0 \<Longrightarrow> tree_inv E T"
  by (induction rule: stored_tree.induct) (simp_all add: seeded_tree tree_extend)

lemma stored_tree_wire: "stored_tree E bs T \<Longrightarrow> bs = Genesis (en_params E) # tl bs \<and> list_all wire_ok (tl bs)"
  by (induction rule: stored_tree.induct) (auto simp: tl_append split: list.splits)

lemma genesisHash_later: "later E E' \<Longrightarrow> genesisHash E' = genesisHash E \<and> genesis_entry E' = genesis_entry E"
  by (simp add: later_def genesisHash_def genesis_entry_def)

lemma later_time:
  assumes "later E E'" and "x \<le> sint (en_clock E j + MaxFutureTime (en_params E))"
  shows "x \<le> sint (en_clock E' k + MaxFutureTime (en_params E'))"
proof -
  have "sint (en_clock E j + MaxFutureTime (en_params E)) \<le> sint (en_clock E' k + MaxFutureTime (en_params E))"
    and "en_params E' = en_params E" using assms(1) unfolding later_def by blast+
  with assms(2) show ?thesis by simp
qed

lemma entry_ok_later: "later E E' \<Longrightarrow> new_entry_ok E' T e \<longleftrightarrow> new_entry_ok E T e"
proof -
  assume l: "later E E'"
  then have "en_params E' = en_params E" by (simp add: later_def)
  with genesisHash_later[OF l] show ?thesis unfolding new_entry_ok_def entry_ok_def by simp
qed

lemma stored_tree_later:
  assumes "stored_tree E bs T" and "later E E'"
  shows "stored_tree E' bs T"
  using assms(1)
proof induction
  case genesis
  from stored_tree.genesis[of E'] genesisHash_later[OF assms(2)] assms(2) show ?case by (simp add: later_def)
next
  case (append bs T e k)
  have "sint (Time (e_block e)) \<le> sint (en_clock E' 0 + MaxFutureTime (en_params E'))"
    by (rule later_time[OF assms(2) append.hyps(4)])
  with append entry_ok_later[OF assms(2)] show ?case by (blast intro: stored_tree.append)
qed

subsection \<open>Reading the file\<close>

lemma load_loop_append:
  "load_loop E (xs @ ys) n = run_bind (load_loop E xs n) (\<lambda>(err, n).
     case err of Some x \<Rightarrow> Ret (Some x, n) | None \<Rightarrow> load_loop E ys n)"
proof (induction xs arbitrary: n)
  case (Cons b xs)
  show ?case
  proof (cases "insertBlockLocked E b True False '''' n")
    case (Ret r)
    with Cons show ?thesis by (cases r; cases "fst r") auto
  qed simp_all
qed simp

definition loaded_node :: "env \<Rightarrow> tree \<Rightarrow> nat \<Rightarrow> node" where
  "loaded_node E T k = (seeded E True)\<lparr>n_blocks := T, n_ticks := k\<rparr>"

lemma loaded_node_sel [simp]:
  "n_blocks (loaded_node E T k) = T" "n_rejected (loaded_node E T k) = {}" "n_orphans (loaded_node E T k) = []"
  "n_booting (loaded_node E T k)" "n_tip (loaded_node E T k) = None" "n_ticks (loaded_node E T k) = k"
  "n_disk (loaded_node E T k) = []"
  by (simp_all add: loaded_node_def seeded_def empty_node_def)

lemma load_entry:
  assumes "tree_inv E T" and "new_entry_ok E T e" and "sint (Time (e_block e)) \<le> sint (en_clock E k + MaxFutureTime (en_params E))"
  shows "insertBlockLocked E (e_block e) True False '''' (loaded_node E T k)
     = Ret (None, loaded_node E (AList.update (e_hash e) e T) (Suc k))"
proof -
  let ?b = "e_block e" and ?p = "en_params E"
  have new: "map_of T (block_Hash ?b) = None" "block_Hash ?b = e_hash e" "Height ?b \<noteq> 0" "entry_ok E T e"
    using assms(2) by (auto simp: new_entry_ok_def)
  then obtain par now where p: "map_of T (PrevHash ?b) = Some par" "basic_ok ?p ?b (e_block par) now"
    "Difficulty ?b = NextDifficulty ?p (Some (e_block par)) (anchorLocked ?p T par)"
    "ValidatePoW ?b = None" "e_work e = e_work par + unat (Difficulty ?b)"
    by (auto simp: entry_ok_def Let_def)
  have "basic_ok ?p ?b (e_block par) (en_clock E k)" using p(2) assms(3) by (simp add: basic_ok_def)
  then have v: "ValidateBasic ?p ?b (Some (e_block par)) (en_clock E k) = Ret None" by (simp add: ValidateBasic_ok)
  have e: "\<lparr> e_block = ?b, e_hash = e_hash e, e_work = e_work par + unat (Difficulty ?b) \<rparr> = e"
    using p(5) by (intro blockEntry.equality) simp_all
  have st: "store_entry e ((loaded_node E T k)\<lparr>n_ticks := Suc k\<rparr>) = loaded_node E (AList.update (e_hash e) e T) (Suc k)"
    by (simp add: store_entry_def loaded_node_def)
  show ?thesis
    using new p(1,4) v
    by (simp add: p(3)[symmetric] insertBlockLocked_def Let_def nowMs_def accept_block_def e st promoteOrphans_def finish_insert_def)
qed

lemma load_stored:
  assumes "stored_tree E0 bs T" and "later E0 E" and "genesisHash E \<noteq> 0"
  shows "\<exists>k. load_loop E (tl bs) (seeded E True) = Ret (None, loaded_node E T k)"
  using assms(1)
proof induction
  case genesis
  have "seeded E True = loaded_node E [(genesisHash E0, genesis_entry E0)] 0"
    using genesisHash_later[OF assms(2)] by (simp add: loaded_node_def seeded_def empty_node_def)
  then show ?case by auto
next
  case (append bs T e j)
  then obtain k where k: "load_loop E (tl bs) (seeded E True) = Ret (None, loaded_node E T k)" by blast
  have "bs \<noteq> []" using stored_tree_wire[OF append.hyps(1)] by auto
  then have bs: "tl (bs @ [e_block e]) = tl bs @ [e_block e]" by simp
  have tree: "tree_inv E T" by (rule stored_tree_inv[OF stored_tree_later[OF append.hyps(1) assms(2)] assms(3)])
  have "new_entry_ok E T e" using append.hyps(2) entry_ok_later[OF assms(2)] by simp
  moreover have "sint (Time (e_block e)) \<le> sint (en_clock E k + MaxFutureTime (en_params E))"
    by (rule later_time[OF assms(2) append.hyps(4)])
  ultimately show ?case unfolding bs load_loop_append k by (simp add: load_entry[OF tree]) (rule exI, rule refl)
qed

lemma loaded_node_inv: "tree_inv E T \<Longrightarrow> node_inv E (loaded_node E T k)"
  by (simp add: node_inv_def loaded_node_def seeded_def empty_node_def checkpoints_ok_def tip_ok_def orphans_ok_def pool_inv_def)

lemma New_stored:
  assumes "stored_tree E0 bs T" and "later E0 E" and "genesisHash E \<noteq> 0"
  shows "\<exists>k. New E bs = run_bind (selectTip E ((loaded_node E T k)\<lparr>n_booting := False\<rparr>)) (\<lambda>n. Ret (None, n))"
proof -
  obtain k where k: "load_loop E (tl bs) (seeded E True) = Ret (None, loaded_node E T k)" using load_stored[OF assms] by blast
  have bs: "bs = Genesis (en_params E) # tl bs" using stored_tree_wire[OF assms(1)] assms(2) by (simp add: later_def)
  have "load_loop E bs (empty_node\<lparr>n_booting := True\<rparr>) = load_loop E (tl bs) (seeded E True)"
    by (subst bs) (simp add: insert_genesis)
  moreover have "length bs \<noteq> 0" by (subst bs) simp
  ultimately have "boot_blocks E bs (empty_node\<lparr>n_booting := True\<rparr>) = Ret (None, loaded_node E T k)"
    using k by (simp add: boot_blocks_def)
  then show ?thesis by (auto simp: New_def)
qed

subsection \<open>What a running node keeps\<close>

definition disk_ok :: "env \<Rightarrow> block list \<Rightarrow> node \<Rightarrow> bool" where
  "disk_ok E l n \<longleftrightarrow> (\<exists>T. stored_tree E (l @ n_disk n) T \<and> map_of (n_blocks n) \<subseteq>\<^sub>m map_of T
     \<and> dom (map_of T) \<subseteq> dom (map_of (n_blocks n)) \<union> n_rejected n)"

text \<open>As long as nothing was rejected, the tip is the best entry there is.\<close>

definition follows :: "node \<Rightarrow> bool" where
  "follows n \<longleftrightarrow> \<not> n_booting n \<and> (n_rejected n = {} \<longrightarrow> n_tip n = best_loop {} (n_blocks n) None)"

lemma map_le_dom_eq:
  assumes "m \<subseteq>\<^sub>m m'" and "dom m' \<subseteq> dom m"
  shows "m' = m"
proof (rule ext)
  fix x
  show "m' x = m x"
  proof (cases "x \<in> dom m")
    case True
    with assms(1) show ?thesis by (simp add: map_le_def)
  next
    case False
    with assms(2) have "x \<notin> dom m'" by blast
    with False show ?thesis by (simp add: domIff)
  qed
qed

lemma shrinks_same:
  assumes "shrinks n n'" and "n_rejected n' = {}"
  shows "map_of (n_blocks n') = map_of (n_blocks n)"
proof (rule sym, rule map_le_dom_eq)
  show "map_of (n_blocks n') \<subseteq>\<^sub>m map_of (n_blocks n)" using assms by (simp add: shrinks_def)
  show "dom (map_of (n_blocks n)) \<subseteq> dom (map_of (n_blocks n'))" using assms by (simp add: shrinks_def)
qed

lemma disk_ok_shrinks:
  assumes "disk_ok E l n" and "n_disk n' = n_disk n" and "shrinks n n'"
  shows "disk_ok E l n'"
proof -
  from assms(1) obtain T where T: "stored_tree E (l @ n_disk n) T" "map_of (n_blocks n) \<subseteq>\<^sub>m map_of T"
    "dom (map_of T) \<subseteq> dom (map_of (n_blocks n)) \<union> n_rejected n" by (auto simp: disk_ok_def)
  have "map_of (n_blocks n') \<subseteq>\<^sub>m map_of T" using assms(3) T(2) map_le_trans unfolding shrinks_def by blast
  moreover have "dom (map_of T) \<subseteq> dom (map_of (n_blocks n')) \<union> n_rejected n'"
    using assms(3) T(3) unfolding shrinks_def by blast
  ultimately show ?thesis using T(1) assms(2) by (auto simp: disk_ok_def)
qed

lemma same_chain_disk: "same_chain n n' \<Longrightarrow> disk_ok E l n' = disk_ok E l n \<and> follows n' = follows n"
  by (simp add: disk_ok_def follows_def same_chain_def)

lemma same_fields:
  assumes "n_blocks n' = n_blocks n" and "n_rejected n' = n_rejected n" and "n_tip n' = n_tip n"
    and "n_booting n' = n_booting n" and "n_disk n' = n_disk n"
  shows "disk_ok E l n' = disk_ok E l n \<and> follows n' = follows n"
  using assms by (simp add: disk_ok_def follows_def)

lemma best_map:
  assumes "keyed B" and "keyed B'" and "map_of B = map_of B'"
  shows "best_loop rej B None = best_loop rej B' None"
proof -
  have "x \<in> set B \<longleftrightarrow> x \<in> set B'" for x
    using assms keys_ok_mem_iff[of B "fst x" "snd x"] keys_ok_mem_iff[of B' "fst x" "snd x"] by (simp add: keyed_def)
  then have "set B = set B'" by blast
  from best_loop_order[OF this assms(1)] show ?thesis .
qed

lemma selectTip_follows:
  assumes ok: "params_ok (en_params E)" and inv: "node_inv E n" and "\<not> n_booting n" and "selectTip E n = Ret n'"
  shows "follows n' \<and> (disk_ok E l n \<longrightarrow> disk_ok E l n')"
proof -
  from selectTip_result[OF ok inv] assms(4) obtain b where r: "node_inv E n'" "frame n n'"
    "best_loop (n_rejected n) (n_blocks n) None = Some b" "n_tip n' = Some b \<or> n_rejected n' \<noteq> {}"
    by auto
  have fr: "n_booting n' = n_booting n" "n_disk n' = n_disk n" "shrinks n n'" using r(2) by (simp_all add: frame_def)
  have "n_tip n' = best_loop {} (n_blocks n') None" if e: "n_rejected n' = {}"
  proof -
    have rej: "n_rejected n = {}" using fr(3) e by (simp add: shrinks_def)
    have "map_of (n_blocks n') = map_of (n_blocks n)" by (rule shrinks_same[OF fr(3) e])
    from best_map[OF tree_keyed[OF node_invD(1)[OF r(1)]] tree_keyed[OF node_invD(1)[OF inv]] this, of "{}"] r(3,4) rej e
    show ?thesis by auto
  qed
  with fr assms(3) disk_ok_shrinks[OF _ fr(2,3)] show ?thesis by (auto simp: follows_def)
qed

subsection \<open>Insertion\<close>

lemma finish_follows:
  assumes ok: "params_ok (en_params E)" and inv: "node_inv E n" and fin: "finish_insert E b announce ex n = Ret (err, n')"
  shows "(disk_ok E l n \<longrightarrow> disk_ok E l n') \<and> (\<not> n_booting n \<longrightarrow> follows n')"
proof -
  let ?n = "if announce \<and> \<not> n_booting n \<and> en_sw E then emit (Broadcast (MsgNewBlock (Some b)) ex) n else n"
  have inv': "node_inv E ?n" and b: "n_booting ?n = n_booting n" using inv by (simp_all add: emit_def)
  have sc: "same_chain n ?n" by simp
  show ?thesis
  proof (cases "n_booting n")
    case True
    with fin have "n' = ?n" by (simp add: finish_insert_def)
    with same_chain_disk[OF sc] True show ?thesis by simp
  next
    case False
    with fin b have "selectTip E ?n = Ret n'" by (auto simp: finish_insert_def Let_def run_bind_eq_Ret)
    from selectTip_follows[OF ok inv' _ this] False b same_chain_disk[OF sc] show ?thesis by simp
  qed
qed

lemma addOrphan_fields [simp]:
  "n_blocks (addOrphan b n) = n_blocks n" "n_rejected (addOrphan b n) = n_rejected n" "n_tip (addOrphan b n) = n_tip n"
  "n_booting (addOrphan b n) = n_booting n" "n_disk (addOrphan b n) = n_disk n"
  by (simp_all add: addOrphan_def Let_def)

definition records :: "env \<Rightarrow> block list \<Rightarrow> nat \<Rightarrow> (block \<Rightarrow> node \<Rightarrow> ('e option \<times> node) run) \<Rightarrow> bool" where
  "records E l fuel ins \<longleftrightarrow> (\<forall>b n err n'. node_inv E n \<and> wire_ok b \<and> orphan_count n < fuel \<and> disk_ok E l n
     \<and> ins b n = Ret (err, n') \<longrightarrow> disk_ok E l n')"

lemma promote_list_disk:
  assumes ins: "inserts_ok E fuel ins" and rec: "records E l fuel ins"
  shows "node_inv E n \<Longrightarrow> \<forall>b \<in> set bs. wire_ok b \<Longrightarrow> orphan_count n + length bs \<le> fuel \<Longrightarrow> disk_ok E l n
    \<Longrightarrow> promote_list ins bs n = Ret n' \<Longrightarrow> disk_ok E l n'"
proof (induction bs arbitrary: n)
  case (Cons b bs)
  from inserts_okD[OF ins Cons.prems(1), of b] Cons.prems(2,3) obtain err n1 where
    1: "ins b n = Ret (err, n1)" "node_inv E n1" "orphan_count n1 \<le> orphan_count n + 1" by (auto simp: insert_result_def)
  have "disk_ok E l n1" using rec Cons.prems(1-4) 1(1) unfolding records_def by fastforce
  with Cons.IH[OF 1(2)] Cons.prems(2,3,5) 1(1,3) show ?case by simp
qed simp

lemma promoteOrphans_disk:
  assumes ins: "inserts_ok E fuel ins" and rec: "records E l fuel ins" and inv: "node_inv E n" and "orphan_count n \<le> fuel"
    and disk: "disk_ok E l n" and run: "promoteOrphans ins h n = Ret n'"
  shows "disk_ok E l n'"
proof (cases "map_of (n_orphans n) h")
  case None
  with run disk show ?thesis by (simp add: promoteOrphans_def)
next
  case (Some bs)
  let ?n = "n\<lparr>n_orphans := AList.delete h (n_orphans n)\<rparr>"
  have ok: "orphans_ok n" using node_invD(5)[OF inv] .
  have "orphans_ok ?n" using ok by (simp add: orphans_ok_def)
  then have inv': "node_inv E ?n" using inv by (cases "n_tip n") (simp_all add: node_inv_def tip_ok_def pool_inv_def)
  have cnt: "orphan_count ?n + length bs = orphan_count n"
    using keyed_sum_delete[of "n_orphans n" h] ok Some by (simp add: orphan_count_def orphans_ok_def)
  have "\<forall>b \<in> set bs. wire_ok b" using ok Some by (auto simp: orphans_ok_def)
  moreover have "disk_ok E l ?n" using disk by (simp add: disk_ok_def)
  moreover have "promote_list ins bs ?n = Ret n'" using run Some by (simp add: promoteOrphans_def)
  moreover have "orphan_count ?n + length bs \<le> fuel" using cnt assms(4) by simp
  ultimately show ?thesis using promote_list_disk[OF ins rec inv'] by blast
qed

text \<open>A validated block is written where its entry is stored.\<close>

lemma accept_disk:
  assumes inv: "node_inv E n" and disk: "disk_ok E l n" and works: "disk_works E" and gen: "genesisHash E \<noteq> 0"
    and new: "new_entry_ok E (n_blocks n) e" and rej: "e_hash e \<notin> n_rejected n" and wire: "wire_ok (e_block e)"
    and time: "sint (Time (e_block e)) \<le> sint (en_clock E k + MaxFutureTime (en_params E))"
  shows "disk_ok E l (appendBlock E (e_block e) (store_entry e n))"
proof -
  from disk obtain T where T: "stored_tree E (l @ n_disk n) T" "map_of (n_blocks n) \<subseteq>\<^sub>m map_of T"
    "dom (map_of T) \<subseteq> dom (map_of (n_blocks n)) \<union> n_rejected n" by (auto simp: disk_ok_def)
  let ?h = "e_hash e"
  have fresh: "map_of (n_blocks n) ?h = None" using new by (simp add: new_entry_ok_def)
  with T(3) rej have none: "map_of T ?h = None" by (auto simp: dom_def)
  have "map_of T 0 = None" using stored_tree_inv[OF T(1) gen] by (simp add: tree_inv_def)
  from entry_ok_agree[OF node_invD(1)[OF inv] T(2) this, of e] new none
  have "new_entry_ok E T e" by (simp add: new_entry_ok_def)
  from stored_tree.append[OF T(1) this wire time]
  have "stored_tree E (l @ n_disk (appendBlock E (e_block e) (store_entry e n))) (AList.update ?h e T)"
    using works by (simp add: appendBlock_def disk_works_def store_entry_def)
  moreover have "map_of (AList.update ?h e (n_blocks n)) \<subseteq>\<^sub>m map_of (AList.update ?h e T)"
    using T(2) by (simp add: map_le_def update_conv)
  moreover have "dom (map_of (AList.update ?h e T)) \<subseteq> dom (map_of (AList.update ?h e (n_blocks n))) \<union> n_rejected n"
    using T(3) by (auto simp: update_conv)
  ultimately show ?thesis unfolding disk_ok_def
    by (intro exI[of _ "AList.update ?h e T"]) (simp add: appendBlock_def store_entry_def)
qed

lemma insertBlock_disk:
  assumes env: "env_ok E" and works: "disk_works E"
  shows "node_inv E n \<Longrightarrow> wire_ok b \<Longrightarrow> orphan_count n < fuel \<Longrightarrow> insertBlock fuel E b False announce ex n = Ret (err, n')
    \<Longrightarrow> disk_ok E l n \<Longrightarrow> disk_ok E l n' \<and> (follows n \<longrightarrow> follows n')"
proof (induction fuel arbitrary: b announce ex n err n')
  case (Suc fuel)
  let ?h = "block_Hash b" and ?B = "n_blocks n" and ?p = "en_params E"
  note inv = Suc.prems(1) and run = Suc.prems(4) and disk = Suc.prems(5)
  note tree = node_invD(1)[OF inv] and ok = env_okD(1)[OF env]
  have wire: "?h \<noteq> 0" "no_nil b" using Suc.prems(2) by (simp_all add: wire_ok_def)
  define n0 where "n0 = n\<lparr>n_ticks := Suc (n_ticks n)\<rparr>"
  have inv0: "node_inv E n0" using inv by (simp add: n0_def)
  have same0: "disk_ok E l n0 = disk_ok E l n \<and> follows n0 = follows n" by (rule same_fields) (simp_all add: n0_def)
  show ?case
  proof (cases "map_of ?B ?h = None \<and> ?h \<notin> n_rejected n")
    case False
    with run have "n' = n" by (auto simp: Let_def split: if_splits)
    with disk show ?thesis by simp
  next
    case fresh: True
    show ?thesis
    proof (cases "Height b = 0")
      case True
      have "?h \<noteq> genesisHash E" using fresh tree by (auto simp: tree_inv_def)
      with run fresh True have "n' = n" by (simp add: Let_def)
      with disk show ?thesis by simp
    next
      case nz: False
      show ?thesis
      proof (cases "map_of ?B (PrevHash b)")
        case None
        with run fresh nz have "n' = addOrphan b n" by (simp add: Let_def)
        with disk same_fields[of "addOrphan b n" n E l] show ?thesis by simp
      next
        case (Some par)
        let ?now = "en_clock E (n_ticks n)" and ?want = "NextDifficulty ?p (Some (e_block par)) (anchorLocked ?p ?B par)"
        from wire(2) obtain ts where "Txs b = map Some ts" by (auto simp: no_nil_iff)
        then have "returns (ValidateBasic ?p b (Some (e_block par)) ?now)" by (rule ValidateBasic_returns)
        then obtain verr where vb: "ValidateBasic ?p b (Some (e_block par)) ?now = Ret verr" by (rule returnsE)
        show ?thesis
        proof (cases "verr = None \<and> Difficulty b = ?want \<and> ValidatePoW b = None")
          case False
          with run fresh nz Some vb have "n' = n0"
            by (cases verr; cases "ValidatePoW b") (auto simp: Let_def nowMs_def n0_def split: if_splits)
          with disk same0 show ?thesis by simp
        next
          case True
          define e where "e = \<lparr> e_block = b, e_hash = ?h, e_work = e_work par + unat (Difficulty b) \<rparr>"
          have bo: "basic_ok ?p b (e_block par) ?now" using vb True ValidateBasic_ok by simp
          then have time: "sint (Time b) \<le> sint (?now + MaxFutureTime ?p)" by (simp add: basic_ok_def)
          have "entry_ok E ?B e"
            using nz Some bo True unfolding entry_ok_def Let_def by (simp add: e_def) blast
          then have new: "new_entry_ok E (n_blocks n0) e"
            using fresh wire(1) nz by (simp add: new_entry_ok_def e_def n0_def)
          define n1 where "n1 = appendBlock E b (store_entry e n0)"
          have "accept_block E b False par n0 = n1" by (simp add: n1_def accept_block_def e_def)
          then have ins: "insertBlock (Suc fuel) E b False announce ex n
              = run_bind (promoteOrphans (\<lambda>b. insertBlock fuel E b False True '''') ?h n1) (finish_insert E b announce ex)"
            using fresh nz Some vb True by (simp add: Let_def nowMs_def n0_def)
          have "genesisHash E \<noteq> 0" using env by (simp add: env_ok_def)
          from accept_disk[OF inv0 _ works this new, of l "n_ticks n"] same0 disk fresh Suc.prems(2) time
          have disk1: "disk_ok E l n1" by (simp add: n1_def e_def n0_def)
          have inv1: "node_inv E n1"
            using store_entry_inv[OF inv0 new] fresh by (simp add: n1_def appendBlock_def e_def n0_def)
          have n1: "orphan_count n1 = orphan_count n" "n_booting n1 = n_booting n"
            by (simp_all add: n1_def n0_def appendBlock_def orphan_count_def store_entry_def)
          have fuel: "orphan_count n1 \<le> fuel" using Suc.prems(3) n1(1) by simp
          have safe: "inserts_ok E fuel (\<lambda>b. insertBlock fuel E b False True '''')"
            using insertBlock_result[OF ok] by (simp add: inserts_ok_def)
          have rec: "records E l fuel (\<lambda>b. insertBlock fuel E b False True '''')"
            using Suc.IH unfolding records_def by blast
          from promoteOrphans_ok[OF safe inv1 fuel] obtain n2 where
            n2: "promoteOrphans (\<lambda>b. insertBlock fuel E b False True '''') ?h n1 = Ret n2" "node_inv E n2" "n_booting n2 = n_booting n1"
            by blast
          have "disk_ok E l n2" by (rule promoteOrphans_disk[OF safe rec inv1 fuel disk1 n2(1)])
          moreover have "finish_insert E b announce ex n2 = Ret (err, n')" using run ins n2(1) by simp
          ultimately show ?thesis using finish_follows[OF ok n2(2)] n2(3) n1(2) unfolding follows_def by blast
        qed
      qed
    qed
  qed
qed simp

definition keeps_file :: "env \<Rightarrow> node \<Rightarrow> node \<Rightarrow> bool" where
  "keeps_file E n n' \<longleftrightarrow> (\<forall>l. disk_works E \<longrightarrow> disk_ok E l n \<longrightarrow> disk_ok E l n' \<and> (follows n \<longrightarrow> follows n'))"

interpretation filed: kept keeps_file
proof
  show "keeps_file E n n'" if "env_ok E" and "node_inv E n" and "wire_ok b" and "insertBlockLocked E b False an ex n = Ret (err, n')"
    for E :: env and n b an ex err n'
    using insertBlock_disk[OF that(1) _ that(2,3) _ that(4)[unfolded insertBlockLocked_def]] by (simp add: keeps_file_def)
  show "keeps_file E n n'" if "same_chain n n'" for E n n' using same_chain_disk[OF that] by (simp add: keeps_file_def)
qed (auto simp: keeps_file_def)

end
