(* ===== verification/MinerProps.thy ===== *)
theory MinerProps
  imports MinedBlock ConsensusProps
begin

text \<open>
  Properties of mining: the midstate and the kernel against the hash of a block, what a round may
  submit, that an honest solution becomes the tip, and what happens to the GPU's resources.
\<close>

subsection \<open>Hashing\<close>

text \<open>C23: the midstate is SHA-256: for a header with a miner's address (40 characters, always a valid one)
  the midstate exists, and completing it with any nonce gives the hash of the block with that nonce.\<close>

theorem midstate_is_sha256:
  assumes "Valid (Miner b)"
  shows "\<exists>mid. buildMidstate (HeaderBytes b) = Some mid
    \<and> (\<forall>nonce. finish mid nonce = hash_bytes (block_Hash (b\<lparr>Nonce := nonce\<rparr>)))"
proof -
  obtain mid where mid: "buildMidstate (HeaderBytes b) = Some mid"
    using buildMidstate_header[OF Valid_length[OF assms]] by blast
  have "finish mid nonce = hash_bytes (block_Hash (b\<lparr>Nonce := nonce\<rparr>))" for nonce
    unfolding block_Hash_def HeaderBytes_nonce by (rule finish_midstate[OF mid])
  with mid show ?thesis by blast
qed

theorem midstate_is_sha256_witness:
  "\<exists>mid. buildMidstate (HeaderBytes demo_mined) = Some mid \<and> finish mid 1 = hash_bytes (block_Hash (demo_mined\<lparr>Nonce := 1\<rparr>))"
proof -
  have "Valid (Miner demo_mined)" by (simp add: demo_mined_def demo_addr_Valid)
  from midstate_is_sha256[OF this] show ?thesis by blast
qed

text \<open>C10: the GPU agrees with consensus. Whatever the driver answers and in whatever order the work items of a
  dispatch ran, a batch reported with a nonce has found a nonce of the batch whose block meets its
  target, and a batch reported empty holds no such nonce.\<close>

theorem GPU_batch_is_exact:
  assumes "buildMidstate (HeaderBytes b) = Some mid" and "Difficulty b \<noteq> 0"
    and "completed mid (targetWords (Target (Difficulty b))) base count out" and "gpu_Search ok out = Inr (nonce, hit)"
  shows "if hit then MeetsTarget (b\<lparr>Nonce := nonce\<rparr>) \<and> (\<exists>i < unat count. nonce = base + of_nat i)
    else \<forall>i < unat count. \<not> MeetsTarget (b\<lparr>Nonce := base + of_nat i\<rparr>)"
  using Search_laws[OF assms(3,4)] kernel_meets_target[OF assms(1,2)] by (cases hit) simp_all

theorem GPU_batch_is_exact_witness:
  "\<exists>mid. buildMidstate (HeaderBytes demo_mined) = Some mid
    \<and> (case gpu_Search (\<lambda>_. True) (in_order mid (targetWords (Target (Difficulty demo_mined))) 1 1) of
       Inl e \<Rightarrow> False | Inr (nonce, hit) \<Rightarrow> hit = MeetsTarget (demo_mined\<lparr>Nonce := 1\<rparr>))"
proof -
  have "Valid (Miner demo_mined)" by (simp add: demo_mined_def demo_addr_Valid)
  then obtain mid where mid: "buildMidstate (HeaderBytes demo_mined) = Some mid"
    using buildMidstate_header[OF Valid_length] by blast
  let ?out = "in_order mid (targetWords (Target (Difficulty demo_mined))) 1 1"
  have "gpu_Search (\<lambda>_. True) ?out = (if outFound ?out then Inr (outNonce ?out, True) else Inr (0, False))"
    by (simp add: gpu_Search_def list_all_iff upt_rec)
  then obtain nonce hit where s: "gpu_Search (\<lambda>_. True) ?out = Inr (nonce, hit)" by metis
  have "Difficulty demo_mined \<noteq> 0" by (simp add: demo_mined_def)
  from GPU_batch_is_exact[OF mid this in_order_completed s] have "hit = MeetsTarget (demo_mined\<lparr>Nonce := 1\<rparr>)"
    by (cases hit) auto
  with mid s show ?thesis by auto
qed

subsection \<open>Rounds\<close>

text \<open>C25: a CPU round submits solutions only. Whatever the schedule of its threads and however it is woken,
  it leaves the node alone or hands it a block that is the candidate with other nonces and whose hash
  is below the target.\<close>

theorem CPU_round_submits_solutions:
  assumes "mineOnceCPU E cand target sched w m n = Ret (m', n')" and "n' \<noteq> n"
  shows "\<exists>b err. (\<exists>x y. b = cand\<lparr>ExtraNonce := x, Nonce := y\<rparr>) \<and> unat (block_Hash b) < target
    \<and> SubmitSolution E b n = Ret (err, n')"
  using CPU_submits[of E cand target n sched w m] assms by (auto simp: submits_solution_def solution_def)

lemma completed_handle:
  assumes "\<And>mid tw base count. completed mid tw base count (run mid tw base count)"
  shows "gpu_handle (\<lambda>mid tw base count. gpu_Search (ok base) (run mid tw base count))"
  using Search_laws[OF assms] by unfold_locales (auto split: if_splits)

text \<open>C26: a GPU round submits solutions only, for every outcome of the OpenCL calls of each dispatch, every
  order of its work items, every outcome of the polls, and also when it falls back to the CPU.\<close>

theorem GPU_round_submits_solutions:
  assumes "Difficulty cand \<noteq> 0" and "\<And>mid tw base count. completed mid tw base count (run mid tw base count)"
    and "mineOnceGPU E (\<lambda>mid tw base count. gpu_Search (ok base) (run mid tw base count)) cand (Target (Difficulty cand))
      polls sched w m n = Ret (m', n')" and "n' \<noteq> n"
  shows "\<exists>b err. (\<exists>x y. b = cand\<lparr>ExtraNonce := x, Nonce := y\<rparr>) \<and> MeetsTarget b \<and> SubmitSolution E b n = Ret (err, n')"
proof -
  from gpu_handle.GPU_submits[OF completed_handle[OF assms(2)] assms(1)] assms(3,4) obtain b err where
    b: "solution cand (Target (Difficulty cand)) b" "SubmitSolution E b n = Ret (err, n')"
    unfolding submits_solution_def by blast
  moreover from b(1) have "MeetsTarget b" using assms(1) by (auto simp: solution_def MeetsTarget_def Let_def)
  ultimately show ?thesis by (auto simp: solution_def)
qed

subsection \<open>A candidate and its solution\<close>

lemma demo_candidate:
  "BuildCandidate demo_env demo_addr (fresh_node demo_env)
    = Ret (Some (demo_mined\<lparr>Nonce := 0\<rparr>), (fresh_node demo_env)\<lparr>n_ticks := 2\<rparr>)"
proof -
  have t: "candidate_time demo_env (genesis_entry demo_env) (fresh_node demo_env) = (1727049700000, (fresh_node demo_env)\<lparr>n_ticks := 2\<rparr>)"
    by (simp add: candidate_time_def nowMs_def Genesis_def DefaultParams_def)
  have txs: "candidate_txs demo_env ((fresh_node demo_env)\<lparr>n_ticks := 2\<rparr>) = Ret []"
    by (simp add: candidate_txs_def pool_txs_def truncate_txs_def DefaultParams_def)
  have rew: "RewardAt DefaultParams 1 = Ret 100000000" by (simp add: RewardAt_def DefaultParams_def Let_def)
  have cb: "coinbase_tx demo_addr 100000000 1 1727049700000 = demo_coinbase"
    by (simp add: coinbase_tx_def demo_coinbase_def)
  have root: "MerkleRoot [Some demo_coinbase] = Ret (Merkle demo_mined)"
    using MerkleRoot_Some[of "[demo_coinbase]"]
    by (simp add: merkle_loop.simps demo_coinbase_Hash demo_mined_def)
  have diff: "NextDifficulty DefaultParams (Some (Genesis DefaultParams)) (anchorLocked DefaultParams B (genesis_entry demo_env)) = 1" for B
  proof -
    have "(1 :: u64) mod 20 \<noteq> 0" by (simp add: word_arith_nat_mod)
    then have a: "anchorLocked DefaultParams B (genesis_entry demo_env) = None"
      by (simp add: anchorLocked_def Genesis_sel DefaultParams_def)
    show ?thesis unfolding NextDifficulty_def option.case a by simp
  qed
  show ?thesis
    unfolding BuildCandidate_def by (simp add: t txs rew cb root diff Let_def demo_genesisHash) (simp add: demo_mined_def)
qed

lemma demo_mined_solution: "solution (demo_mined\<lparr>Nonce := 0\<rparr>) (Target (Difficulty (demo_mined\<lparr>Nonce := 0\<rparr>))) demo_mined"
proof -
  have "demo_mined = demo_mined\<lparr>Nonce := 0\<rparr>\<lparr>ExtraNonce := 0, Nonce := 1\<rparr>" by (simp add: demo_mined_def)
  moreover have "unat (block_Hash demo_mined) < Target (Difficulty (demo_mined\<lparr>Nonce := 0\<rparr>))"
    by (simp add: demo_mined_Hash) (simp add: demo_mined_def Target_def MaxTarget_def)
  ultimately show ?thesis unfolding solution_def by blast
qed

text \<open>C8: an honest solution becomes the tip. If the node follows its best branch, and the block the miner
  made of the candidate meets the target, is new, pays somebody and lies within the clock bounds, then
  submitting it succeeds, the block is the new tip, and the node's state is the candidate applied to
  the state it was built on.\<close>

theorem solution_extends_chain:
  assumes "env_ok E" and "reachable E n" and "\<not> n_booting n" and "n_tip n = Some t"
    and "best_loop (n_rejected n) (n_blocks n) None = Some t"
    and "Valid addr" and "BuildCandidate E addr n = Ret (Some cand, n1)"
    and "b = cand\<lparr>ExtraNonce := x, Nonce := y\<rparr>" and "unat (block_Hash b) < Target (Difficulty cand)"
    and "block_Hash b \<noteq> 0" and "block_Hash b \<notin> n_rejected n" and "map_of (n_blocks n) (block_Hash b) = None"
    and "map_of (n_orphans n) (block_Hash b) = None" and "Height (e_block t) + 1 \<noteq> 0"
    and "Txs cand = Some cb # rest" and "Amount cb \<noteq> 0"
    and "sint (Time (e_block t)) < 2 ^ 63 - 1" and "sint (Time cand) \<le> sint (en_clock E (n_ticks n1) + MaxFutureTime (en_params E))"
  shows "\<exists>n' e. SubmitSolution E b n1 = Ret (None, n') \<and> n_tip n' = Some e \<and> e_block e = b
    \<and> ApplyBlock (en_ed E) (en_params E) cand (n_state n) = Ret (None, n_state n')"
proof -
  have sol: "solution cand (Target (Difficulty cand)) b" using assms(8,9) by (auto simp: solution_def)
  have "case hd (Txs cand) of None \<Rightarrow> False | Some cb \<Rightarrow> Amount cb \<noteq> 0" using assms(15,16) by simp
  from solution_becomes_tip[OF assms(1) reachable_inv[OF assms(1,2)] assms(3-7) sol assms(10-14) this assms(17,18)]
  show ?thesis by blast
qed

theorem solution_extends_chain_witness:
  "\<exists>n' e. SubmitSolution demo_env demo_mined ((fresh_node demo_env)\<lparr>n_ticks := 2\<rparr>) = Ret (None, n')
    \<and> n_tip n' = Some e \<and> e_block e = demo_mined"
proof -
  have "\<exists>n' e. SubmitSolution demo_env demo_mined ((fresh_node demo_env)\<lparr>n_ticks := 2\<rparr>) = Ret (None, n') \<and> n_tip n' = Some e
      \<and> e_block e = demo_mined
      \<and> ApplyBlock (en_ed demo_env) (en_params demo_env) (demo_mined\<lparr>Nonce := 0\<rparr>) (n_state (fresh_node demo_env)) = Ret (None, n_state n')"
  proof (rule solution_extends_chain[OF demo_env_ok demo_reachable _ fresh_node_sel(2) _ demo_addr_Valid demo_candidate,
        where x = 0 and y = 1 and cb = demo_coinbase and rest = "[]"])
    show "unat (block_Hash demo_mined) < Target (Difficulty (demo_mined\<lparr>Nonce := 0\<rparr>))"
      using demo_mined_solution by (simp add: solution_def)
  qed (simp_all add: demo_mined_Hash demo_genesisHash, simp_all add: demo_mined_def demo_coinbase_def Genesis_def DefaultParams_def)
  then show ?thesis by blast
qed

end
