(* ===== verification/Flaws.thy ===== *)
theory Flaws
  imports MinerProps NodeWork
begin

text \<open>
  Behaviours of the code that its other parts do not expect, each on a concrete input: a resource
  released through a nil handle, blocks that poison an honest block's hash, a full mempool that
  corrupts its cached state, and messages that reach a nil pointer.
\<close>

subsection \<open>The GPU\<close>

text \<open>C39: the resources of the GPU are balanced: whatever calls of the driver fail, an \<open>openGPU\<close> that
  returns an error has released everything it created, and closing a handle it returns releases the
  rest, nothing twice.\<close>

theorem openGPU_balances:
  assumes "openGPU cl = Ret (r, log)"
  shows "case r of Inl e \<Rightarrow> alive log {} = Some {} | Inr g \<Rightarrow> alive (gpu_Close g log) {} = Some {}"
  using openGPU_balanced[OF assms] owns_Close by (cases r) simp_all

definition demo_driver :: opencl where
  "demo_driver = \<lparr> cl_platforms = Some [Some [''gfx'']], cl_creates = (\<lambda>r. r \<noteq> FoundOutBuf), cl_builds = True \<rparr>"

theorem openGPU_balances_witness:
  "\<exists>e log. openGPU demo_driver = Ret (Inl e, log) \<and> alive log {} = Some {}"
proof -
  have "\<exists>e log. openGPU demo_driver = Ret (Inl e, log)"
    by (simp add: openGPU_def demo_driver_def gpu_acquire_def Let_def)
  then obtain e log where "openGPU demo_driver = Ret (Inl e, log)" by blast
  with openGPU_balances[OF this] show ?thesis by auto
qed

definition demo_gpu :: openclGPU where
  "demo_gpu = \<lparr> g_name = ''gfx'', g_kernel = True, g_program = True, g_bufs = [MidBuf, BlockBuf, TargetBuf, NonceOutBuf, FoundOutBuf],
     g_queue = True, g_ctx = True \<rparr>"

definition gpu_miner :: miner where
  "gpu_miner = \<lparr> m_addr = demo_addr, m_threads = 1, m_minPause = 0, m_backend = BackendGPU, m_gpuBatch = 1048576,
     m_resolved = True, m_active = BackendGPU, m_gpu = Some demo_gpu, m_nonce = 0, m_total = 0 \<rparr>"

lemma gpu_Search_fails: "\<not> ok 11 \<Longrightarrow> \<exists>e. gpu_Search ok out = Inl e"
  by (cases "find (\<lambda>k. \<not> ok (4 + k)) [0..<7]") (simp_all add: gpu_Search_def)

text \<open>C31: a GPU that fails while mining makes \<open>Run\<close> panic. The failing dispatch sets \<open>m.gpu\<close> to nil and the
  round goes on with the CPU; the deferred clean-up of \<open>Run\<close>, armed because there was a GPU at the
  start, then calls \<open>Close\<close> on nil. This happens on every node with a tip, already when the first
  dispatch of the first round cannot be enqueued.\<close>

theorem gpu_failure_panics:
  assumes "env_ok E" and "reachable E n" and "n_tip n = Some t" and "Valid (m_addr m)" and "m_gpu m = Some h"
    and "m_active m = BackendGPU" and "\<not> ok 11"
  shows "miner_Run [mineOnce E (\<lambda>mid tw base count. gpu_Search ok (run mid tw base count)) [True] [] Cancelled (\<lambda>n. n)] m n = Panic"
proof -
  define n0 where "n0 = n\<lparr>n_tipSubs := AList.update (fresh_chan n) [] (n_tipSubs n)\<rparr>"
  have sub: "SubscribeTips n = (map_option e_block (n_tip n), fresh_chan n, n0)" by (simp add: SubscribeTips_def n0_def Let_def)
  have inv: "node_inv E n0" using reachable_inv[OF assms(1,2)] by (simp add: n0_def)
  have tip: "n_tip n0 = Some t" by (simp add: n0_def assms(3))
  obtain cand n1 where c: "BuildCandidate E (m_addr m) n0 = Ret (Some cand, n1)" "Miner cand = m_addr m"
    by (rule BuildCandidate_result[OF env_okD(1)[OF assms(1)] inv env_okD(2)[OF assms(1)] tip, of "m_addr m"])
  have "length (Miner (cand\<lparr>ExtraNonce := 0\<rparr>)) = 40" using Valid_length[OF assms(4)] c(2) by simp
  from buildMidstate_header[OF this] obtain mid where mid: "buildMidstate (HeaderBytes (cand\<lparr>ExtraNonce := 0\<rparr>)) = Some mid"
    by blast
  obtain e where "gpu_Search ok (run mid (targetWords (Target (Difficulty cand))) 0 (m_gpuBatch m)) = Inl e"
    using gpu_Search_fails[of ok, OF assms(7)] by blast
  then obtain m1 n2 where "mineOnce E (\<lambda>mid tw base count. gpu_Search ok (run mid tw base count)) [True] [] Cancelled (\<lambda>n. n) m n
      = Ret (m1, n2)" "m_gpu m1 = None"
    using sub c(1) mid assms(6) by (simp add: mineOnce_def mineOnceGPU_def mineOnceCPU_def Let_def)
  then show ?thesis using assms(5) by (simp add: miner_Run_def run_cleanup_def)
qed

theorem gpu_failure_panics_witness:
  "miner_Run [mineOnce demo_env (\<lambda>mid tw base count. gpu_Search (\<lambda>k. k \<noteq> 11) (in_order mid tw base count)) [True] [] Cancelled (\<lambda>n. n)]
     gpu_miner (fresh_node demo_env) = Panic"
  by (rule gpu_failure_panics[OF demo_env_ok demo_reachable fresh_node_sel(2)]) (simp_all add: gpu_miner_def demo_addr_Valid)

subsection \<open>A block that poisons another\<close>

text \<open>The honest first block, with an empty public key in its coinbase where it has none.\<close>

definition twin :: block where
  "twin = demo_mined\<lparr>Txs := [Some (demo_coinbase\<lparr>PubKey := Some []\<rparr>)]\<rparr>"

definition twin_entry :: blockEntry where
  "twin_entry = \<lparr> e_block = twin, e_hash = block_Hash demo_mined, e_work = 1 \<rparr>"

definition mining_node :: node where
  "mining_node = (fresh_node demo_env)\<lparr>n_ticks := 2\<rparr>"

lemma twin_Hash: "block_Hash twin = block_Hash demo_mined"
  by (simp add: twin_def block_Hash_Txs)

lemma twin_sel [simp]:
  "Height twin = 1" "PrevHash twin = genesisHash demo_env" "Time twin = 1727049700000" "Difficulty twin = 1"
  "Miner twin = demo_addr" "Txs twin = [Some (demo_coinbase\<lparr>PubKey := Some []\<rparr>)]"
  by (simp_all add: twin_def demo_mined_def demo_genesisHash)

lemma twin_basic: "ValidateBasic DefaultParams twin (Some (Genesis DefaultParams)) 1727049700000 = Ret None"
proof -
  have "tx_Hash (demo_coinbase\<lparr>PubKey := Some []\<rparr>) = tx_Hash demo_coinbase"
    by (simp add: tx_Hash_def tx_encode_def demo_coinbase_def)
  then have "merkle_loop (map tx_Hash [demo_coinbase\<lparr>PubKey := Some []\<rparr>]) = Merkle twin"
    by (simp add: merkle_loop.simps demo_coinbase_Hash twin_def demo_mined_def)
  moreover have "IsCoinbase (demo_coinbase\<lparr>PubKey := Some []\<rparr>)" by (simp add: IsCoinbase_def demo_coinbase_def)
  moreover have "genesisHash demo_env = block_Hash (Genesis DefaultParams)" by (simp add: genesisHash_def)
  moreover have "demo_addr \<noteq> CoinbaseAddress" by (rule Valid_not_coinbase[OF demo_addr_Valid])
  ultimately have txs: "\<exists>cb ts. Txs twin = Some cb # map Some ts \<and> IsCoinbase cb \<and> list_all (\<lambda>t. \<not> IsCoinbase t) ts
      \<and> merkle_loop (map tx_Hash (cb # ts)) = Merkle twin" and rest: "PrevHash twin = block_Hash (Genesis DefaultParams)" "Miner twin \<noteq> CoinbaseAddress"
    by (intro exI[of _ "demo_coinbase\<lparr>PubKey := Some []\<rparr>"] exI[of _ "[]"], simp_all)
  have "sint (Time (Genesis DefaultParams)) < sint (Time twin)" "Height twin = Height (Genesis DefaultParams) + 1"
    "sint (Time twin) \<le> sint (1727049700000 + MaxFutureTime DefaultParams)" "int (length (Txs twin)) \<le> MaxTxsPerBlock DefaultParams"
    by (simp_all add: Genesis_def DefaultParams_def)
  with txs rest show ?thesis
    unfolding ValidateBasic_ok basic_ok_def twin_sel(5) using demo_addr_Valid by blast
qed

lemma twin_checks:
  "NextDifficulty DefaultParams (Some (Genesis DefaultParams)) (anchorLocked DefaultParams B (genesis_entry demo_env)) = 1"
  "ValidatePoW twin = None"
proof -
  have "(1 :: u64) mod 20 \<noteq> 0" by (simp add: word_arith_nat_mod)
  then have a: "anchorLocked DefaultParams B (genesis_entry demo_env) = None"
    by (simp add: anchorLocked_def DefaultParams_def)
  show "NextDifficulty DefaultParams (Some (Genesis DefaultParams)) (anchorLocked DefaultParams B (genesis_entry demo_env)) = 1"
    unfolding NextDifficulty_def option.case a by simp
  have "MeetsTarget twin" unfolding MeetsTarget_def Let_def
    by (simp add: twin_Hash demo_mined_Hash Target_def MaxTarget_def)
  then show "ValidatePoW twin = None" by (simp add: ValidatePoW_def)
qed

lemma twin_fails: "\<exists>err s. ApplyBlock demo_ed DefaultParams twin state_New = Ret (Some err, s)"
proof -
  have "tx_Verify demo_ed (demo_coinbase\<lparr>PubKey := Some []\<rparr>) = Some CoinbaseCarriesKey"
    by (simp add: tx_Verify_def IsCoinbase_def demo_coinbase_def)
  moreover have "RewardAt DefaultParams 1 = Ret 100000000" by (simp add: RewardAt_def DefaultParams_def Let_def)
  ultimately show ?thesis by (simp add: ApplyBlock_def IsCoinbase_def demo_coinbase_def Let_def)
qed

text \<open>The node after the twin came in.\<close>

lemma twin_entry_sel [simp]: "e_block twin_entry = twin" "e_hash twin_entry = block_Hash demo_mined" "e_work twin_entry = 1"
  by (simp_all add: twin_entry_def)

lemma twin_selected:
  assumes "n_tip n = Some (genesis_entry demo_env)" and "n_state n = state_New" and "n_rejected n = {}"
    and "n_blocks n = [(genesisHash demo_env, genesis_entry demo_env), (block_Hash demo_mined, twin_entry)]"
  shows "\<exists>n'. selectTip demo_env n = Ret n' \<and> block_Hash demo_mined \<in> n_rejected n'
    \<and> map_of (n_blocks n') (block_Hash demo_mined) = None \<and> n_tip n' = n_tip n \<and> n_disk n' = n_disk n"
proof -
  have ne: "genesisHash demo_env \<noteq> block_Hash demo_mined" by (simp add: demo_genesisHash demo_mined_Hash)
  have best: "best_loop {} (n_blocks n) None = Some twin_entry"
    by (simp add: assms(4) better_def)
  obtain err s where app: "ApplyBlock demo_ed DefaultParams twin state_New = Ret (Some err, s)" using twin_fails by blast
  let ?n = "n\<lparr>n_rejected := {block_Hash demo_mined}, n_blocks := [(genesisHash demo_env, genesis_entry demo_env)]\<rparr>"
  have "rejectSubtree twin_entry n = Ret ?n"
    using ne assms(3,4) by (simp add: rejectSubtree_def childrenLocked_def demo_mined_Hash Let_def)
  then have "switchChain demo_env twin_entry n = Ret (Some (StateInvalid err), ?n)"
    using assms(1,2) app by (simp add: switchChain_def switch_child_def Clone_id)
  then have "selectTip demo_env n = Ret ?n" using best assms(1,3) ne by (simp add: selectTip_def)
  then show ?thesis using ne by simp
qed

lemma demo_mined_accepted:
  "\<exists>n' e. SubmitSolution demo_env demo_mined mining_node = Ret (None, n') \<and> n_tip n' = Some e \<and> e_block e = demo_mined
    \<and> n_rejected n' = {} \<and> n_disk n' = [Genesis DefaultParams, demo_mined]"
proof -
  have "\<exists>n' e. SubmitSolution demo_env demo_mined mining_node = Ret (None, n') \<and> n_tip n' = Some e \<and> e_block e = demo_mined
      \<and> ApplyBlock (en_ed demo_env) (en_params demo_env) (demo_mined\<lparr>Nonce := 0\<rparr>) (n_state (fresh_node demo_env)) = Ret (None, n_state n')
      \<and> n_rejected n' = n_rejected (fresh_node demo_env)
      \<and> (disk_works demo_env \<longrightarrow> n_disk n' = n_disk ((fresh_node demo_env)\<lparr>n_ticks := 2\<rparr>) @ [demo_mined])"
    unfolding mining_node_def
    by (rule solution_becomes_tip[OF demo_env_ok reachable_inv[OF demo_env_ok demo_reachable] _ fresh_node_sel(2) _
          demo_addr_Valid demo_candidate demo_mined_solution])
      (simp_all add: demo_mined_Hash demo_genesisHash, simp_all add: demo_mined_def demo_coinbase_def Genesis_def DefaultParams_def)
  moreover have "n_disk (fresh_node demo_env) = [Genesis DefaultParams]" by (simp add: fresh_node_def)
  ultimately show ?thesis by (auto simp: disk_works_def)
qed

text \<open>The running node stores the twin and refuses the honest block.\<close>

lemma twin_submitted:
  "\<exists>n1. SubmitSolution demo_env twin mining_node = Ret (None, n1) \<and> n_tip n1 = Some (genesis_entry demo_env)
    \<and> block_Hash demo_mined \<in> n_rejected n1 \<and> n_disk n1 = [Genesis DefaultParams, twin]"
proof -
  let ?E = demo_env and ?n = mining_node
  have ne: "genesisHash demo_env \<noteq> block_Hash demo_mined" by (simp add: demo_genesisHash demo_mined_Hash)
  define n1 where "n1 = accept_block ?E twin False (genesis_entry ?E) (?n\<lparr>n_ticks := Suc (n_ticks ?n)\<rparr>)"
  have ins: "insertBlockLocked ?E twin False True '''' ?n = finish_insert ?E twin True '''' n1"
    unfolding n1_def
  by (rule insert_checked) (simp_all add: mining_node_def twin_Hash ne[symmetric] twin_basic twin_checks)
  define n2 where "n2 = emit (Broadcast (MsgNewBlock (Some twin)) '''') n1"
  have n2: "n_tip n2 = Some (genesis_entry ?E)" "n_state n2 = state_New" "n_rejected n2 = {}"
    "n_blocks n2 = [(genesisHash ?E, genesis_entry ?E), (block_Hash demo_mined, twin_entry)]" "\<not> n_booting n1" "\<not> n_booting n2"
    using ne by (simp_all add: n2_def n1_def emit_def accept_block_def store_entry_def appendBlock_def mining_node_def twin_Hash twin_entry_def)
  obtain n3 where n3: "selectTip ?E n2 = Ret n3" "block_Hash demo_mined \<in> n_rejected n3"
    "map_of (n_blocks n3) (block_Hash demo_mined) = None" "n_tip n3 = Some (genesis_entry ?E)" "n_disk n3 = n_disk n2"
    using twin_selected[OF n2(1-4)] n2(1) by auto
  have "SubmitSolution ?E twin ?n = Ret (None, n3)"
    using ins n2(5,6) n3(1) by (simp add: SubmitSolution_def finish_insert_def n2_def Let_def)
  moreover have "n_disk n3 = [Genesis DefaultParams, twin]"
    by (simp add: n3(5) n2_def n1_def emit_def accept_block_def store_entry_def appendBlock_def mining_node_def fresh_node_def)
  ultimately show ?thesis using n3(2,4) by blast
qed

lemma mining_node_reachable: "reachable demo_env mining_node"
proof (rule reachable.serve[OF demo_reachable])
  show "serve demo_env (Candidate demo_addr) (fresh_node demo_env) = Ret mining_node"
    by (simp add: serve_def demo_candidate mining_node_def)
qed (simp add: request_ok_def)

lemma twin_request_ok: "request_ok (Submit twin)"
  using twin_Hash by (simp add: request_ok_def wire_ok_def demo_mined_Hash no_nil_def)

lemma after_twin_reachable:
  assumes "SubmitSolution demo_env twin mining_node = Ret (None, n1)"
  shows "reachable demo_env n1"
  by (rule reachable.serve[OF mining_node_reachable twin_request_ok]) (simp add: serve_def assms)

text \<open>C17: one malleated copy of a block locks the block out for as long as the process runs. The copy of the
  first block of the main network whose coinbase carries an empty public key instead of none has the same hash and
  passes every check of the insertion, but not \<open>ApplyBlock\<close>; the hash goes to the rejected ones. After any
  sequence of well-formed requests that follows, messages of peers included, the honest block is not in the tree and
  is refused, while the node without the copy accepts it and follows it.\<close>

theorem twin_locks_block_out:
  assumes "list_all request_ok rs"
  shows "\<exists>n1 n2. SubmitSolution demo_env twin mining_node = Ret (None, n1) \<and> n_tip n1 = n_tip mining_node
    \<and> serve_all demo_env rs n1 = Ret n2 \<and> map_of (n_blocks n2) (block_Hash demo_mined) = None
    \<and> SubmitSolution demo_env demo_mined n2 = Ret (Some PreviouslyRejected, n2)
    \<and> (\<exists>n' e. SubmitSolution demo_env demo_mined mining_node = Ret (None, n') \<and> n_tip n' = Some e \<and> e_block e = demo_mined)"
proof -
  obtain n1 where n1: "SubmitSolution demo_env twin mining_node = Ret (None, n1)" "n_tip n1 = n_tip mining_node"
    "block_Hash demo_mined \<in> n_rejected n1"
    using twin_submitted by (auto simp: mining_node_def)
  from rejected_stays_out[OF demo_env_ok after_twin_reachable[OF n1(1)] n1(3) assms] obtain n2 where
    "serve_all demo_env rs n1 = Ret n2" "map_of (n_blocks n2) (block_Hash demo_mined) = None"
    "SubmitSolution demo_env demo_mined n2 = Ret (Some PreviouslyRejected, n2)" by blast
  moreover obtain n' e where "SubmitSolution demo_env demo_mined mining_node = Ret (None, n')" "n_tip n' = Some e" "e_block e = demo_mined"
    using demo_mined_accepted by blast
  ultimately show ?thesis using n1(1,2) by blast
qed

definition demo_relay :: peer where
  "demo_relay = \<lparr> peer_id = 0, Dial = ''198.51.100.9:9333'' \<rparr>"

theorem twin_locks_block_out_witness:
  "\<exists>n1 n2. SubmitSolution demo_env twin mining_node = Ret (None, n1)
    \<and> serve_all demo_env [Deliver demo_relay (MsgNewBlock (Some demo_mined)), SyncTick, Candidate demo_addr] n1 = Ret n2
    \<and> SubmitSolution demo_env demo_mined n2 = Ret (Some PreviouslyRejected, n2)"
proof -
  have "no_nil demo_mined" by (simp add: no_nil_def demo_mined_def)
  then have "list_all request_ok [Deliver demo_relay (MsgNewBlock (Some demo_mined)), SyncTick, Candidate demo_addr]"
    by (simp add: request_ok_def message_ok_def wire_ok_def demo_mined_Hash)
  from twin_locks_block_out[OF this] show ?thesis by blast
qed

subsection \<open>The rounds on the first block\<close>

definition one_thread :: miner where
  "one_thread = gpu_miner\<lparr>m_backend := BackendCPU, m_active := BackendCPU, m_gpu := None\<rparr>"

lemma demo_round:
  assumes "m_nonce m = 0" and "m_threads m = 1"
  shows "\<exists>m' n'. mineOnceCPU demo_env (demo_mined\<lparr>Nonce := 0\<rparr>) (Target (Difficulty (demo_mined\<lparr>Nonce := 0\<rparr>))) [0] Found m mining_node
      = Ret (m', n') \<and> n' \<noteq> mining_node"
proof -
  obtain n' e where acc: "SubmitSolution demo_env demo_mined mining_node = Ret (None, n')" "n_tip n' = Some e" "e_block e = demo_mined"
    using demo_mined_accepted by blast
  have w: "(demo_mined\<lparr>Nonce := 0\<rparr>)\<lparr>ExtraNonce := of_nat 0, Nonce := 0 + 1\<rparr> = demo_mined" by (simp add: demo_mined_def)
  have hit: "SetBytes (hash_bytes (block_Hash demo_mined)) < Target (Difficulty (demo_mined\<lparr>Nonce := 0\<rparr>))"
    using demo_mined_solution by (simp add: solution_def)
  have f: "sr_found (run_threads (demo_mined\<lparr>Nonce := 0\<rparr>) (Target (Difficulty (demo_mined\<lparr>Nonce := 0\<rparr>))) (nat (m_threads m)) [0] (search_start m))
      = Some demo_mined"
    using w hit assms by (simp add: try_nonce_def search_start_def Let_def)
  have "n_tip n' \<noteq> n_tip mining_node"
    using acc(2,3) by (auto simp: mining_node_def demo_mined_def Genesis_def DefaultParams_def)
  then have "n' \<noteq> mining_node" by auto
  then show ?thesis using acc(1) f by (simp add: mineOnceCPU_def Let_def)
qed

theorem CPU_round_submits_solutions_witness:
  "\<exists>b err n'. unat (block_Hash b) < Target (Difficulty (demo_mined\<lparr>Nonce := 0\<rparr>)) \<and> SubmitSolution demo_env b mining_node = Ret (err, n')"
proof -
  obtain m' n' where r: "mineOnceCPU demo_env (demo_mined\<lparr>Nonce := 0\<rparr>) (Target (Difficulty (demo_mined\<lparr>Nonce := 0\<rparr>))) [0] Found one_thread mining_node
      = Ret (m', n')" "n' \<noteq> mining_node"
    using demo_round[of one_thread] by (auto simp: one_thread_def gpu_miner_def)
  from CPU_round_submits_solutions[OF r] show ?thesis by blast
qed

theorem GPU_round_submits_solutions_witness:
  "\<exists>b err n'. MeetsTarget b \<and> SubmitSolution demo_env b mining_node = Ret (err, n')"
proof -
  let ?cand = "demo_mined\<lparr>Nonce := 0\<rparr>" and ?m = "gpu_miner\<lparr>m_total := 1048576, m_gpu := None, m_active := BackendCPU\<rparr>"
  let ?ok = "\<lambda>base k. k \<noteq> (11 :: nat)"
  have d: "Difficulty ?cand \<noteq> 0" by (simp add: demo_mined_def)
  obtain m' n' where r: "mineOnceCPU demo_env ?cand (Target (Difficulty ?cand)) [0] Found ?m mining_node = Ret (m', n')" "n' \<noteq> mining_node"
    using demo_round[of ?m] by (auto simp: gpu_miner_def)
  have "Valid (Miner (?cand\<lparr>ExtraNonce := 0\<rparr>))" by (simp add: demo_mined_def demo_addr_Valid)
  from buildMidstate_header[OF Valid_length[OF this]] obtain mid where mid: "buildMidstate (HeaderBytes (?cand\<lparr>ExtraNonce := 0\<rparr>)) = Some mid"
    by blast
  obtain e where "gpu_Search (?ok 0) (in_order mid (targetWords (Target (Difficulty ?cand))) 0 (m_gpuBatch gpu_miner)) = Inl e"
    using gpu_Search_fails[of "?ok 0"] by blast
  moreover have "m_total gpu_miner + ucast (m_gpuBatch gpu_miner) = 1048576" by (simp add: gpu_miner_def)
  ultimately have "mineOnceGPU demo_env (\<lambda>mid tw base count. gpu_Search (?ok base) (in_order mid tw base count)) ?cand (Target (Difficulty ?cand))
      [True] [0] Found gpu_miner mining_node = Ret (m', n')"
    using mid r(1) by (simp add: mineOnceGPU_def Let_def)
  from GPU_round_submits_solutions[OF d in_order_completed this r(2)] show ?thesis by blast
qed

subsection \<open>A full mempool\<close>

text \<open>C30: a full mempool corrupts the node's view of its own account. A valid transaction that meets a full
  pool is refused, but the cached pending state has already taken it in and stays the cache: the
  sender's pending nonce has moved on although no transaction in the pool accounts for it, so that
  what \<open>Send\<close> signs next leaves a gap.\<close>

theorem full_mempool_corrupts_pending:
  assumes "tx_Hash t \<notin> set (n_seenTx n)" and "n_pending n = Some ps" and "\<not> n_pendingDirty n"
    and "ValidateTx ed t ps = (None, ps1)" and "ApplyTx t ps1 = Ret (None, ps2)" and "en_ed E = ed"
    and "maxMempool \<le> length (n_mempoolTx n)" and "keys_ok ps" and "total_supply ps < 2 ^ 64"
  shows "\<exists>n'. AddTx E t ex n = Ret (Some MempoolFull, n') \<and> n_mempoolTx n' = n_mempoolTx n
    \<and> pendingState n' = Ret (ps2, n') \<and> acct_Nonce (Account ps2 (From t)) = acct_Nonce (Account ps (From t)) + 1"
proof -
  have p: "pendingState n = Ret (ps, n)" using assms(2,3) by (simp add: pendingState_def)
  have a: "AddTx E t ex n = Ret (Some MempoolFull, n\<lparr>n_pending := Some ps2\<rparr>)"
    using assms(1,4,5,6,7) p by (simp add: AddTx_def Let_def)
  have v: "Account ps1 = Account ps" "keys_ok ps1" "total_supply ps1 = total_supply ps" using ValidateTx_facts[OF assms(8,4)] by simp_all
  have "spec_tx t (abs_state ps1) = Some (abs_state ps2)"
    using ApplyTx_refines[OF v(2), of t] assms(5,9) v(3) by (auto simp: tx_refines_def)
  then have "abs_state ps2 = spec_credit (To t) (unat (Amount t)) (spec_debit (From t) (unat (Amount t) + unat (Fee t)) (abs_state ps1))"
    by (simp add: spec_tx_def split: if_splits)
  then have "snd (abs_state ps2 (From t)) = (snd (abs_state ps1 (From t)) + 1) mod 2 ^ 64"
    by (simp add: spec_credit_def spec_debit_def)
  then have "unat (acct_Nonce (Account ps2 (From t))) = unat (acct_Nonce (Account ps (From t)) + 1)"
    by (simp add: abs_state_def v(1) unat_word_ariths)
  then have "acct_Nonce (Account ps2 (From t)) = acct_Nonce (Account ps (From t)) + 1" by (simp only: word_unat_eq_iff)
  moreover have "pendingState (n\<lparr>n_pending := Some ps2\<rparr>) = Ret (ps2, n\<lparr>n_pending := Some ps2\<rparr>)"
    using assms(3) by (simp add: pendingState_def)
  ultimately show ?thesis using a by simp
qed

text \<open>A payment by the holder of the wallet of zeros, and a node whose pool of ten thousand entries is full.\<close>

definition zero_payment :: tx where
  "zero_payment = sign_tx demo_ed zero_wallet \<lparr> From = wallet_Address zero_wallet, To = demo_addr, Amount = 5, Fee = 1,
     tx_Nonce = 0, tx_Time = 0, PubKey = Some (wallet_PubKey zero_wallet), Sig = None \<rparr>"

definition zero_rich :: state where
  "zero_rich = [(wallet_Address zero_wallet, \<lparr> Balance = 10, acct_Nonce = 0 \<rparr>)]"

definition full_node :: node where
  "full_node = (fresh_node demo_env)\<lparr>n_mempoolTx := replicate 10000 (0, zero_payment), n_pending := Some zero_rich\<rparr>"

theorem full_mempool_corrupts_pending_witness:
  "\<exists>n' ps. AddTx demo_env zero_payment '''' full_node = Ret (Some MempoolFull, n')
    \<and> pendingState n' = Ret (ps, n') \<and> acct_Nonce (Account ps (wallet_Address zero_wallet)) = 1"
proof -
  note w = zero_wallet_genuine
  have sel: "From zero_payment = wallet_Address zero_wallet" "To zero_payment = demo_addr" "Amount zero_payment = 5"
    "Fee zero_payment = 1" "tx_Nonce zero_payment = 0" by (simp_all add: zero_payment_def sign_tx_def)
  have acct: "Account zero_rich (wallet_Address zero_wallet) = \<lparr> Balance = 10, acct_Nonce = 0 \<rparr>"
    by (simp add: zero_rich_def Account_def)
  have ver: "tx_Verify demo_ed zero_payment = None" unfolding zero_payment_def
    by (rule sign_tx_verifies[OF demo_ed_contract w]) (simp_all add: demo_addr_Valid)
  have val: "ValidateTx demo_ed zero_payment zero_rich = (None, zero_rich)"
    by (simp add: ValidateTx_def ver sel state_get_def zero_rich_def)
  have ok: "keys_ok zero_rich" "total_supply zero_rich < 2 ^ 64" by (simp_all add: zero_rich_def keys_ok_def)
  have "IsCoinbase zero_payment = False"
    using Valid_not_coinbase[OF wallet_Address_Valid[OF genuine_ok[OF demo_ed_contract w]]] by (simp add: IsCoinbase_def sel)
  then have "spec_tx zero_payment (abs_state zero_rich) \<noteq> None"
    using acct by (simp add: spec_tx_def sel abs_state_def IsCoinbase_def)
  note spec = this
  obtain err ps where app: "ApplyTx zero_payment zero_rich = Ret (err, ps)" and ref: "tx_refines zero_payment zero_rich (err, ps)"
    by (rule ApplyTx_refines[OF ok, of zero_payment]) (metis surj_pair)
  from spec ref have "err = None" by (cases err) (simp_all add: tx_refines_def)
  with app have app: "ApplyTx zero_payment zero_rich = Ret (None, ps)" by simp
  have node: "tx_Hash zero_payment \<notin> set (n_seenTx full_node)" "n_pending full_node = Some zero_rich" "\<not> n_pendingDirty full_node"
    "maxMempool \<le> length (n_mempoolTx full_node)"
    by (simp_all add: full_node_def maxMempool_def)
  from full_mempool_corrupts_pending[OF node(1-3) val app demo_env_sel(2) node(4) ok, of "''''"] show ?thesis
    using acct by (auto simp: sel)
qed

subsection \<open>Nil pointers\<close>

text \<open>C29: a peer can stop the node with a null pointer, without any work. A null among the blocks of a batch panics
  whatever the node's state, and so does a block whose first transaction is null as soon as its header
  fits under a known block: the transactions are read before the proof of work is.\<close>

theorem null_pointers_panic:
  assumes "map_of (n_blocks n) (PrevHash b) = Some par" and "block_Hash (e_block par) = PrevHash b"
    and "Height b = Height (e_block par) + 1" and "Height b \<noteq> 0" and "sint (Time (e_block par)) < sint (Time b)"
    and "sint (Time b) \<le> sint (en_clock E (n_ticks n) + MaxFutureTime (en_params E))" and "Txs b = None # rest"
    and "map_of (n_blocks n) (block_Hash b) = None" and "block_Hash b \<notin> n_rejected n"
  shows "onMessage E p (MsgBlocks (None # qs)) n = Panic \<and> onMessage E p (MsgNewBlock (Some b)) n = Panic"
  using assms by (simp add: onMessage_def onBlocks_def onNewBlock_def acceptRemoteBlock_def insertBlockLocked_def
      nowMs_def ValidateBasic_def Let_def)

definition quiet_peer :: peer where
  "quiet_peer = \<lparr> peer_id = 0, Dial = ''198.51.100.9:9333'' \<rparr>"

theorem null_pointers_panic_witness:
  "onMessage demo_env quiet_peer (MsgBlocks [None]) mining_node = Panic
    \<and> onMessage demo_env quiet_peer (MsgNewBlock (Some (demo_mined\<lparr>Txs := [None]\<rparr>))) mining_node = Panic"
proof (rule null_pointers_panic)
  show "block_Hash (e_block (genesis_entry demo_env)) = PrevHash (demo_mined\<lparr>Txs := [None]\<rparr>)"
    by (simp add: demo_mined_def demo_genesisHash[symmetric] genesisHash_def)
qed (simp_all add: mining_node_def block_Hash_Txs demo_mined_Hash demo_genesisHash,
    simp_all add: demo_mined_def Genesis_def DefaultParams_def demo_genesisHash)

text \<open>More than eight platforms without a GPU crash the start of the miner: the loop of \<open>findDevice\<close> runs over
  all platforms the driver reports, but the array of their ids has eight entries. With at most eight it
  returns the first GPU there is.\<close>

lemma find_device_panics:
  "find_device 0 ps = (if list_all (\<lambda>p. p = None \<or> p = Some []) (take 8 ps)
     then if length ps \<le> 8 then Ret None else Panic
     else Ret (map_option (\<lambda>p. hd (the p)) (find (\<lambda>p. p \<noteq> None \<and> p \<noteq> Some []) ps)))"
proof -
  have "find_device i ps = (if list_all (\<lambda>p. p = None \<or> p = Some []) (take (8 - i) ps)
     then if length ps \<le> 8 - i then Ret None else Panic
     else Ret (map_option (\<lambda>p. hd (the p)) (find (\<lambda>p. p \<noteq> None \<and> p \<noteq> Some []) ps)))" for i
  proof (induction ps arbitrary: i)
    case (Cons p ps)
    show ?case
    proof (cases "8 \<le> i")
      case False
      then have "8 - i = Suc (8 - Suc i)" by simp
      with False Cons.IH[of "Suc i"] show ?thesis by (auto split: option.splits list.splits)
    qed simp
  qed simp
  from this[of 0] show ?thesis by simp
qed

end
