(* ===== verification/RestartProps.thy ===== *)
theory RestartProps
  imports Restart Flaws
begin

text \<open>
  Properties of restarts: a node that starts again on the file it wrote accepts every block of it and,
  unless a block was rejected before, is the node it was. A stored block whose transactions are
  invalid is the exception: it can leave the restarted node without a tip.
\<close>

subsection \<open>A life with restarts\<close>

text \<open>
  \<open>runs E l n\<close>: the process that works in \<open>E\<close> became the node \<open>n\<close>; its file held the blocks \<open>l\<close> when it started,
  and holds \<open>l @ n_disk n\<close> now.
\<close>

inductive runs :: "env \<Rightarrow> block list \<Rightarrow> node \<Rightarrow> bool" where
  first: "env_ok E \<Longrightarrow> disk_works E \<Longrightarrow> New E [] = Ret (None, n) \<Longrightarrow> runs E [] n"
| again: "runs E0 l n0 \<Longrightarrow> later E0 E \<Longrightarrow> New E (l @ n_disk n0) = Ret (None, n) \<Longrightarrow> runs E (l @ n_disk n0) n"
| serve: "runs E l n \<Longrightarrow> request_ok r \<Longrightarrow> serve E r n = Ret n' \<Longrightarrow> runs E l n'"

lemma env_ok_later: "env_ok E \<Longrightarrow> later E E' \<Longrightarrow> env_ok E'"
  using genesisHash_later[of E E'] by (simp add: env_ok_def later_def)

text \<open>What a start on a stored file gives.\<close>

lemma start_result:
  assumes env: "env_ok E" and st: "stored_tree E0 bs T" and lt: "later E0 E"
  shows "\<exists>n b. New E bs = Ret (None, n) \<and> node_inv E n \<and> follows n \<and> disk_ok E bs n \<and> best_loop {} T None = Some b
    \<and> tree_inv E T \<and> (if \<exists>s. valid_at E T b s then n_tip n = Some b \<and> map_of (n_blocks n) = map_of T else n_tip n = None)"
proof -
  note ok = env_okD(1)[OF env]
  have gen: "genesisHash E \<noteq> 0" using env by (simp add: env_ok_def)
  have st': "stored_tree E bs T" by (rule stored_tree_later[OF st lt])
  have tree: "tree_inv E T" by (rule stored_tree_inv[OF st' gen])
  obtain k where k: "New E bs = run_bind (selectTip E ((loaded_node E T k)\<lparr>n_booting := False\<rparr>)) (\<lambda>n. Ret (None, n))"
    using New_stored[OF st lt gen] by blast
  let ?m = "(loaded_node E T k)\<lparr>n_booting := False\<rparr>"
  have inv: "node_inv E ?m" using loaded_node_inv[OF tree] by simp
  have disk: "disk_ok E bs ?m" using st' by (auto simp: disk_ok_def)
  from selectTip_result[OF ok inv] obtain n b where n: "selectTip E ?m = Ret n" "node_inv E n" "frame ?m n"
    "best_loop {} T None = Some b"
    "n_tip n = Some b \<and> n_rejected n = {} \<or> n_tip n = None \<and> n_rejected n \<noteq> {} \<and> \<not> (\<exists>s. valid_at E T b s)"
    by auto
  have f: "follows n \<and> (disk_ok E bs ?m \<longrightarrow> disk_ok E bs n)" by (rule selectTip_follows[OF ok inv _ n(1)]) simp
  have valid: "valid_at E T b (n_state n) \<and> map_of (n_blocks n) = map_of T" if t: "n_tip n = Some b" "n_rejected n = {}"
  proof -
    have sh: "shrinks ?m n" using n(3) by (simp add: frame_def)
    have eq: "map_of (n_blocks n) = map_of T" using shrinks_same[OF sh t(2)] by simp
    then have le: "map_of (n_blocks n) \<subseteq>\<^sub>m map_of T" by simp
    have "map_of T 0 = None" using tree by (simp add: tree_inv_def)
    from valid_at_agree[OF node_invD(1)[OF n(2)] le this tip_entry(1)[OF n(2) t(1)]] tip_entry(2)[OF n(2) t(1)] eq
    show ?thesis by simp
  qed
  have "if \<exists>s. valid_at E T b s then n_tip n = Some b \<and> map_of (n_blocks n) = map_of T else n_tip n = None"
    using n(5) valid by auto
  moreover have "New E bs = Ret (None, n)" using k n(1) by simp
  ultimately show ?thesis using n(2,4) f disk tree by blast
qed

lemma first_result:
  assumes "env_ok E" and "disk_works E"
  shows "New E [] = Ret (None, fresh_node E) \<and> disk_ok E [] (fresh_node E) \<and> follows (fresh_node E)"
proof -
  have "genesisHash E \<noteq> 0" "en_disk E 0" using assms by (simp_all add: env_ok_def disk_works_def)
  from New_fresh[OF this] have "New E [] = Ret (None, fresh_node E)" .
  moreover have "n_disk (fresh_node E) = [Genesis (en_params E)]" by (simp add: fresh_node_def)
  then have "disk_ok E [] (fresh_node E)" using stored_tree.genesis[of E]
    unfolding disk_ok_def by (intro exI[of _ "[(genesisHash E, genesis_entry E)]"]) simp
  moreover have "follows (fresh_node E)" by (simp add: follows_def)
  ultimately show ?thesis by blast
qed

lemma runs_inv:
  assumes "runs E l n"
  shows "env_ok E \<and> disk_works E \<and> node_inv E n \<and> disk_ok E l n \<and> follows n"
  using assms
proof induction
  case (first E n)
  with first_result[OF first(1,2)] New_ok[of E "[]"] show ?case by (auto simp: env_ok_def stored_ok_def)
next
  case (again E0 l n0 E n)
  then obtain T where T: "stored_tree E0 (l @ n_disk n0) T" by (auto simp: disk_ok_def)
  have env: "env_ok E" using env_ok_later[OF _ again.hyps(2)] again.IH by blast
  from start_result[OF env T again.hyps(2)] again.hyps(3) env again.hyps(2) show ?case by (auto simp: later_def)
next
  case (serve E l n r n')
  then have inv: "env_ok E" "node_inv E n" by simp_all
  from filed.serve_kept[OF inv serve.hyps(2,3)] serve_ok[OF inv serve.hyps(2)] serve show ?case
    by (auto simp: keeps_file_def)
qed

lemma runs_reachable: "runs E l n \<Longrightarrow> reachable E n"
proof (induction rule: runs.induct)
  case (first E n)
  have "stored_ok E []" by (simp add: stored_ok_def)
  from reachable.start[OF this first(3)] show ?case .
next
  case (again E0 l n0 E n)
  from runs_inv[OF again.hyps(1)] obtain T where "stored_tree E0 (l @ n_disk n0) T" by (auto simp: disk_ok_def)
  from stored_tree_wire[OF stored_tree_later[OF this again.hyps(2)]] have "stored_ok E (l @ n_disk n0)"
    by (auto simp: stored_ok_def split: list.splits)
  with again.hyps(3) show ?case by (blast intro: reachable.start)
qed (blast intro: reachable.serve)

subsection \<open>Starting again\<close>











subsection \<open>Without a tip\<close>





end
