(* ===== verification/RunNode.thy ===== *)
theory RunNode
  imports Cli RestartProps
begin

text \<open>
  How \<open>cmd/blugold/main.go\<close> puts a node together: the flags of \<open>serve\<close> and \<open>mine\<close>, and \<open>runNode\<close> up to the
  point where it waits for a signal: the wallet, the advertised address, the node on its files, its
  switch, and the miner. What the machine answers is the record \<open>host\<close>; printing and the HTTP server
  are left out.
\<close>

subsection \<open>Options\<close>

definition defaultP2PPort :: nat where "defaultP2PPort = 7007"

definition defaultAPIPort :: nat where "defaultAPIPort = 34335"

record nodeOpts =
  o_dir :: string
  o_p2pListen :: string
  o_apiListen :: string
  o_adv :: string
  o_seeds :: "string list"
  o_noSync :: bool
  o_chatty :: bool

text \<open>The arguments are the flags given on the command line, \<open>None\<close> for one that was not.\<close>

definition flag_or :: "'a \<Rightarrow> 'a option \<Rightarrow> 'a" where
  "flag_or dflt v = (case v of None \<Rightarrow> dflt | Some x \<Rightarrow> x)"

definition parseNodeFlags :: "string \<Rightarrow> string option \<Rightarrow> string option \<Rightarrow> string option \<Rightarrow> string option \<Rightarrow> string option
    \<Rightarrow> bool option \<Rightarrow> bool option \<Rightarrow> nodeOpts" where
  "parseNodeFlags dataDir datadir p2p adv api seed nosync v =
     \<lparr> o_dir = flag_or dataDir datadir, o_p2pListen = flag_or ('':'' @ fmt_d defaultP2PPort) p2p,
       o_apiListen = flag_or (''127.0.0.1:'' @ fmt_d defaultAPIPort) api, o_adv = flag_or '''' adv,
       o_seeds = parse_seeds (flag_or '''' seed), o_noSync = flag_or False nosync, o_chatty = flag_or False v \<rparr>"

definition cmdServe :: "nat \<Rightarrow> cli_error + int \<times> backend \<times> int" where
  "cmdServe nargs = (if nargs > 0 then Inl Usage else Inr (0, BackendAuto, 0))"

subsection \<open>The machine\<close>

record host =
  h_ed :: ed25519
  h_clock :: "nat \<Rightarrow> i64"
  h_writes :: "nat \<Rightarrow> bool"
  h_key :: "bytes option"
  h_wallet_readable :: bool
  h_wallet_io :: "bool \<times> bool \<times> bool"
  h_mkdir :: bool
  h_openfile :: bool
  h_readfile :: bool
  h_readpeers :: bool
  h_lan :: string
  h_nonce :: u64
  h_listener :: "string option"
  h_gpu :: "gpu_error + openclGPU"
  h_cpuRate :: u64
  h_gpuRate :: "gpu_error + u64"

datatype run_error = RunWallet cli_error | RunStart start_error | RunNew new_error | RunListen

record running =
  r_env :: env
  r_node :: node
  r_switch :: "switch option"
  r_miner :: "miner option"
  r_advertise :: string

definition node_env :: "host \<Rightarrow> wallet \<Rightarrow> bool \<Rightarrow> env" where
  "node_env H w sync = \<lparr> en_params = DefaultParams, en_ed = h_ed H, en_wallet = Some w, en_sw = sync,
     en_clock = h_clock H, en_disk = h_writes H \<rparr>"

subsection \<open>Starting\<close>

definition advertise_addr :: "nodeOpts \<Rightarrow> host \<Rightarrow> string" where
  "advertise_addr opts H = (if o_adv opts = '''' then discoverAdvertise (h_lan H) (o_p2pListen opts) else o_adv opts)"

definition start_miner :: "int \<Rightarrow> backend \<Rightarrow> int \<Rightarrow> host \<Rightarrow> wallet \<Rightarrow> miner option" where
  "start_miner threads b gpuBatch H w = (if threads > 0 then
       (case EnsureBackend (h_gpu H) (h_cpuRate H) (h_gpuRate H) (miner_New w threads 0 b gpuBatch) of (active, m, calls) \<Rightarrow> Some m)
     else None)"

definition start_sync :: "nodeOpts \<Rightarrow> host \<Rightarrow> disk \<Rightarrow> switch option option" where
  "start_sync opts H d = (if o_noSync opts then Some None
     else map_option Some (start_switch (o_p2pListen opts) (advertise_addr opts H) (o_seeds opts)
            (LoadPeers (h_readpeers H) d) 32 (h_nonce H) (h_listener H)))"

definition runNode :: "nodeOpts \<Rightarrow> int \<Rightarrow> backend \<Rightarrow> int \<Rightarrow> host \<Rightarrow> disk \<Rightarrow> string option \<Rightarrow> (run_error + running) run" where
  "runNode opts threads b gpuBatch H d walletFile =
     (case loadOrCreateWallet (h_wallet_readable H) (h_key H) (h_wallet_io H) walletFile of
        (Inl e, f) \<Rightarrow> Ret (Inl (RunWallet e))
      | (Inr w, f) \<Rightarrow>
        let E = node_env H w (\<not> o_noSync opts) in
        (case New_on_disk (h_mkdir H) (h_openfile H) (h_readfile H) E d of
           Inl e \<Rightarrow> Ret (Inl (RunStart e))
         | Inr (start, d) \<Rightarrow> run_bind start (\<lambda>(err, n).
             case err of Some x \<Rightarrow> Ret (Inl (RunNew x)) | None \<Rightarrow>
             case start_sync opts H d of None \<Rightarrow> Ret (Inl RunListen) | Some sw \<Rightarrow>
             Ret (Inr \<lparr> r_env = E, r_node = n, r_switch = sw, r_miner = start_miner threads b gpuBatch H w,
                        r_advertise = advertise_addr opts H \<rparr>))))"

subsection \<open>What runs\<close>

lemma DefaultParams_env_ok: "en_params E = DefaultParams \<Longrightarrow> env_ok E"
  using demo_env_ok by (simp add: env_ok_def genesisHash_def)

text \<open>
  The process is what the other theories are about: its node is reachable and follows the main
  network, its miner is paid by the address the node calls its own, and it syncs unless told not to.
\<close>

lemma runNode_runs:
  assumes "runNode opts threads b gpuBatch H d walletFile = Ret (Inr R)"
    and "open_and_load (h_mkdir H) (h_openfile H) (h_readfile H) d = Inr (bs, d')" and "stored_ok (r_env R) bs"
  shows "env_ok (r_env R) \<and> reachable (r_env R) (r_node R) \<and> en_params (r_env R) = DefaultParams
    \<and> (r_switch R = None \<longleftrightarrow> o_noSync opts) \<and> (r_miner R = None \<longleftrightarrow> threads \<le> 0)
    \<and> (\<forall>m. r_miner R = Some m \<longrightarrow> m_addr m = WalletAddress (r_env R) \<and> m_threads m = threads)"
proof -
  from assms(1) obtain w f where w: "loadOrCreateWallet (h_wallet_readable H) (h_key H) (h_wallet_io H) walletFile = (Inr w, f)"
    by (auto simp: runNode_def split: sum.splits prod.splits)
  let ?E = "node_env H w (\<not> o_noSync opts)"
  from assms(1) w assms(2) obtain n sw where r: "New ?E bs = Ret (None, n)" "start_sync opts H d' = Some sw"
    "R = \<lparr> r_env = ?E, r_node = n, r_switch = sw, r_miner = start_miner threads b gpuBatch H w, r_advertise = advertise_addr opts H \<rparr>"
    by (auto simp: runNode_def New_on_disk_def Let_def run_bind_eq_Ret split: option.splits)
  have p: "en_params ?E = DefaultParams" by (simp add: node_env_def)
  have "reachable ?E n" using reachable.start[OF _ r(1)] assms(3) r(3) by simp
  moreover have "sw = None \<longleftrightarrow> o_noSync opts" using r(2) by (auto simp: start_sync_def split: if_splits)
  moreover have "m_addr m = WalletAddress ?E \<and> m_threads m = threads" if "start_miner threads b gpuBatch H w = Some m" for m
  proof -
    from that obtain calls active where t: "threads > 0"
      "EnsureBackend (h_gpu H) (h_cpuRate H) (h_gpuRate H) (miner_New w threads 0 b gpuBatch) = (active, m, calls)"
      by (auto simp: start_miner_def split: if_splits prod.splits)
    then have "m_addr m = wallet_Address w \<and> m_threads m = threads"
      by (auto simp: EnsureBackend_def resolveBackend_def miner_New_def Let_def split: backend.splits sum.splits if_splits prod.splits)
    then show ?thesis by (simp add: WalletAddress_def node_env_def)
  qed
  moreover have "start_miner threads b gpuBatch H w = None \<longleftrightarrow> threads \<le> 0"
    by (auto simp: start_miner_def split: prod.split)
  ultimately show ?thesis using r(3) p DefaultParams_env_ok[OF p] by simp
qed

text \<open>\<open>serve\<close> never mines and \<open>mine\<close> always does.\<close>

lemma commands_mine:
  "cmdServe k = Inr (threads, b, batch) \<Longrightarrow> start_miner threads b batch H w = None"
  "cmdMine k t flag batch0 = Inr (threads, b, batch) \<Longrightarrow> start_miner threads b batch H w \<noteq> None"
  by (auto simp: cmdServe_def cmdMine_def start_miner_def split: if_splits sum.splits prod.splits)

end
