(* ===== verification/OneBlock.thy ===== *)
theory OneBlock
  imports RestartProps WireProps ConsensusProps
begin

text \<open>
  A node of the main network that has mined its first block: the concrete node the witnesses of the
  properties of a running node are about.
\<close>

subsection \<open>The node\<close>

definition first_entry :: blockEntry where
  "first_entry = \<lparr> e_block = demo_mined, e_hash = block_Hash demo_mined, e_work = 1 \<rparr>"

definition mined_node :: node where
  "mined_node = (case SubmitSolution demo_env demo_mined mining_node of Ret (err, n) \<Rightarrow> n | _ \<Rightarrow> mining_node)"

lemma first_entry_sel [simp]:
  "e_block first_entry = demo_mined" "e_hash first_entry = block_Hash demo_mined" "e_work first_entry = 1"
  by (simp_all add: first_entry_def)

lemma demo_mined_sel [simp]:
  "Height demo_mined = 1" "PrevHash demo_mined = genesisHash demo_env" "Difficulty demo_mined = 1"
  "Txs demo_mined = [Some demo_coinbase]"
  by (simp_all add: demo_mined_def demo_genesisHash)

lemma mined_submitted: "SubmitSolution demo_env demo_mined mining_node = Ret (None, mined_node)"
  using demo_mined_accepted by (auto simp: mined_node_def)

lemma submit_mined_ok: "request_ok (Submit demo_mined)"
  by (simp add: request_ok_def wire_ok_def demo_mined_Hash no_nil_def)

lemma serve_mined: "serve demo_env (Submit demo_mined) mining_node = Ret mined_node"
  by (simp add: serve_def mined_submitted)

lemma mined_reachable: "reachable demo_env mined_node"
  by (rule reachable.serve[OF mining_node_reachable submit_mined_ok serve_mined])

lemma mined_inv: "node_inv demo_env mined_node"
  by (rule reachable_inv[OF demo_env_ok mined_reachable])

lemma mined_tree: "tree_inv demo_env (n_blocks mined_node)"
  by (rule node_invD(1)[OF mined_inv])

lemma genesis_in_tree: "map_of (n_blocks mined_node) (genesisHash demo_env) = Some (genesis_entry demo_env)"
  and mined_tip: "n_tip mined_node = Some first_entry"
proof -
  from demo_mined_accepted obtain e where e: "n_tip mined_node = Some e" "e_block e = demo_mined"
    by (auto simp: mined_submitted)
  have me: "map_of (n_blocks mined_node) (e_hash e) = Some e" by (rule tip_entry(1)[OF mined_inv e(1)])
  from branch_genesis_first[OF mined_tree me] obtain g where
    g: "map_of (n_blocks mined_node) (genesisHash demo_env) = Some g" "Height (e_block g) = 0" by blast
  from tree_genesis[OF mined_tree g] tree_invD(1)[OF mined_tree g(1)] have ge: "g = genesis_entry demo_env"
    by (intro blockEntry.equality) simp_all
  with g(1) show "map_of (n_blocks mined_node) (genesisHash demo_env) = Some (genesis_entry demo_env)" by simp
  have "Height (e_block e) \<noteq> 0" by (simp add: e(2))
  from tree_parent[OF mined_tree me this] obtain par where "map_of (n_blocks mined_node) (PrevHash (e_block e)) = Some par"
    "e_work e = e_work par + unat (Difficulty (e_block e))" by metis
  moreover from this g(1) ge have "par = genesis_entry demo_env" by (simp add: e(2))
  ultimately have "e_work e = 1" by (simp add: e(2))
  moreover have "e_hash e = block_Hash demo_mined" using tree_invD(1,2)[OF mined_tree me] by (simp add: e(2))
  ultimately have "e = first_entry" using e(2) by (intro blockEntry.equality) simp_all
  with e(1) show "n_tip mined_node = Some first_entry" by simp
qed

lemma mined_in_tree: "map_of (n_blocks mined_node) (block_Hash demo_mined) = Some first_entry"
  using tip_entry(1)[OF mined_inv mined_tip] by simp

lemma mined_chain: "active_chain mined_node = [Genesis DefaultParams, demo_mined]"
proof -
  have "branch (n_blocks mined_node) first_entry = branch (n_blocks mined_node) (genesis_entry demo_env) @ [first_entry]"
    by (rule branch_child) (simp_all add: genesis_in_tree)
  then show ?thesis using tip_entry(4)[OF mined_inv mined_tip] by (simp add: branch_genesis)
qed

lemma mined_hashes: "block_Hash demo_mined \<noteq> genesisHash demo_env" "block_Hash (Genesis DefaultParams) = genesisHash demo_env"
  by (simp_all add: demo_mined_Hash demo_genesisHash genesis_hash)

lemma mined_supply: "total_supply (n_state mined_node) = 100000000"
proof -
  have "params_ok (en_params demo_env)" by (simp add: default_params_ok)
  from active_chain_supply[OF this mined_inv] have "total_supply (n_state mined_node) = (\<Sum>h \<in> {0<..<Suc (Suc 0)}. reward_nat DefaultParams h)"
    by (simp add: mined_chain)
  moreover have "{0<..<Suc (Suc 0)} = {1}" by auto
  ultimately show ?thesis by (simp add: reward_nat_def DefaultParams_def)
qed

lemma mined_heights:
  "n_chainHeights mined_node 0 = Some (genesisHash demo_env)" "n_chainHeights mined_node 1 = Some (block_Hash demo_mined)"
proof -
  have "branch (n_blocks mined_node) first_entry = branch (n_blocks mined_node) (genesis_entry demo_env) @ [first_entry]"
    by (rule branch_child) (simp_all add: genesis_in_tree)
  then have b: "branch (n_blocks mined_node) first_entry = [genesis_entry demo_env, first_entry]" by (simp add: branch_genesis)
  show "n_chainHeights mined_node 0 = Some (genesisHash demo_env)" "n_chainHeights mined_node 1 = Some (block_Hash demo_mined)"
    unfolding chain_height[OF mined_inv mined_tip] b by simp_all
qed

lemma mined_answer: "blocksAfterLocator [genesisHash demo_env] (Suc (Suc k)) mined_node = [demo_mined]"
proof -
  have "\<not> (2 :: u64) \<le> 1" by (simp add: word_le_nat_alt)
  then show ?thesis by (simp add: blocksAfterLocator_def mined_tip genesis_in_tree mined_heights mined_in_tree syncTxBudget_def)
qed

subsection \<open>Properties of a reachable node, on this one\<close>

theorem no_double_spend_witness: "distinct (map spent (concat (map block_txs [Genesis DefaultParams, demo_mined])))"
  using no_double_spend[OF demo_env_ok mined_reachable] unfolding mined_chain by (simp add: block_txs_def Genesis_def)

theorem height_index_witness:
  "n_chainHeights mined_node 1 = Some (block_Hash demo_mined) \<and> n_chainHeights mined_node 2 = None"
  using height_index[OF demo_env_ok mined_reachable mined_tip, of 1] height_index[OF demo_env_ok mined_reachable mined_tip, of 2]
  by (simp add: mined_chain)

theorem locator_describes_chain_witness:
  "\<exists>hs. tipLocator demo_env mined_node = Ret hs \<and> hd hs = block_Hash demo_mined \<and> last hs = genesisHash demo_env
    \<and> set hs \<subseteq> {genesisHash demo_env, block_Hash demo_mined}"
  using locator_describes_chain[OF demo_env_ok mined_reachable mined_tip] by (auto simp: mined_chain mined_hashes)

theorem answer_continues_chain_witness: "blocksAfterLocator [0, genesisHash demo_env] 5 mined_node = [demo_mined]"
proof -
  let ?chain = "[Genesis DefaultParams, demo_mined]"
  have "Height (e_block first_entry) + 1 \<noteq> 0" by simp
  moreover have "0 \<notin> block_Hash ` set ?chain" using mined_hashes demo_genesisHash demo_mined_Hash by auto
  then have "find (\<lambda>h. h \<in> block_Hash ` set ?chain) [0, genesisHash demo_env] = Some (genesisHash demo_env)"
    using mined_hashes by auto
  ultimately have "\<exists>i j. blocksAfterLocator [0, genesisHash demo_env] 5 mined_node = take j (drop i ?chain) \<and> (i < 2 \<longrightarrow> 0 < j)
      \<and> (\<exists>k < 2. block_Hash (?chain ! k) = genesisHash demo_env \<and> i = Suc k)"
    using answer_continues_chain[OF demo_env_ok mined_reachable mined_tip, of "[0, genesisHash demo_env]" 5]
    unfolding mined_chain by (simp add: numeral_2_eq_2) blast
  then obtain i j k where a: "blocksAfterLocator [0, genesisHash demo_env] 5 mined_node = take j (drop i ?chain)" "i < 2 \<longrightarrow> 0 < j"
    "k < 2" "block_Hash (?chain ! k) = genesisHash demo_env" "i = Suc k" by blast
  then have "k = 0" using mined_hashes by (cases k) auto
  with a(1,2,5) show ?thesis by (cases j) simp_all
qed

theorem tree_is_checked_witness:
  "\<exists>par. map_of (n_blocks mined_node) (genesisHash demo_env) = Some par \<and> e_work first_entry = e_work par + 1 \<and> MeetsTarget demo_mined"
  using tree_is_checked[OF demo_env_ok mined_reachable mined_in_tree] by auto

theorem work_never_decreases_witness: "tip_work mining_node \<le> tip_work mined_node \<and> tip_work mined_node = 1"
  using work_never_decreases[OF demo_env_ok mining_node_reachable submit_mined_ok serve_mined] by (simp add: tip_work_def mined_tip)

theorem rejection_is_exact_witness:
  "\<exists>n'. rejectSubtree first_entry mined_node = Ret n' \<and> map_of (n_blocks n') (block_Hash demo_mined) = None
    \<and> map_of (n_blocks n') (genesisHash demo_env) = Some (genesis_entry demo_env)"
proof -
  have zero: "\<not> descends (n_blocks mined_node) (block_Hash demo_mined) 0"
  proof
    assume "descends (n_blocks mined_node) (block_Hash demo_mined) 0"
    then show False using mined_tree by (cases rule: descends.cases) (auto simp: tree_inv_def demo_mined_Hash)
  qed
  have gen: "\<not> descends (n_blocks mined_node) (block_Hash demo_mined) (genesisHash demo_env)"
  proof
    assume "descends (n_blocks mined_node) (block_Hash demo_mined) (genesisHash demo_env)"
    then show False
    proof (cases rule: descends.cases)
      case (child e)
      with genesis_in_tree zero show False by simp
    qed (use mined_hashes in simp)
  qed
  have "map_of (n_blocks mined_node) (e_hash first_entry) = Some first_entry" by (simp add: mined_in_tree)
  from rejection_is_exact[OF demo_env_ok mined_reachable this] obtain n' where
    "rejectSubtree first_entry mined_node = Ret n'"
    "\<forall>h. map_of (n_blocks n') h = (if descends (n_blocks mined_node) (block_Hash demo_mined) h then None else map_of (n_blocks mined_node) h)"
    by auto
  with gen genesis_in_tree show ?thesis by (auto intro: descends.self)
qed

theorem apply_block_refines_witness:
  "\<exists>s'. ApplyBlock demo_ed DefaultParams demo_mined state_New = Ret (None, s') \<and> total_supply s' = 100000000"
proof -
  have "replay demo_ed DefaultParams [Genesis DefaultParams, demo_mined] state_New = Ret (None, n_state mined_node)"
    using active_chain_replays[OF mined_inv] by (simp add: mined_chain)
  then have a: "ApplyBlock demo_ed DefaultParams demo_mined state_New = Ret (None, n_state mined_node)"
    by (auto simp: run_bind_eq_Ret split: if_splits option.splits)
  have "keys_ok state_New" "HalvingInterval DefaultParams \<noteq> 0" "Txs demo_mined = map Some [demo_coinbase]"
    "total_supply state_New + reward_nat DefaultParams (unat (Height demo_mined)) < 2 ^ 64"
    by (simp_all add: state_New_def DefaultParams_def reward_nat_def)
  from apply_block_refines[OF this, of demo_ed] a show ?thesis by (auto simp: reward_nat_def DefaultParams_def)
qed

theorem answers_arrive_witness:
  "onGetBlocks demo_env quiet_peer (Some ([genesisHash demo_env], 0)) mined_node
      = Ret (emit (SendTo (peer_id quiet_peer) (MsgBlocks [Some demo_mined])) mined_node)
    \<and> delivered (MsgBlocks [Some demo_mined])"
proof -
  have "MaxTxsPerBlock (en_params demo_env) \<le> 10000" by (simp add: DefaultParams_def)
  from conjunct1[OF answers_arrive[OF demo_env_ok mined_reachable this, where hs = "[genesisHash demo_env]" and c = 0 and p = quiet_peer]]
  show ?thesis using mined_answer[of 498] by (simp add: syncBatch_def)
qed

end
