(* ===== verification/Spec2Isabelle.thy ===== *)
theory Spec2Isabelle
  imports SwitchLimit WireProps CliProps ConsensusProps RunNode OneBlock
begin

text \<open>
  bluGOLD is a small proof-of-work currency: a node keeps a tree of blocks, follows the branch with
  the most work, applies its transactions to a ledger of accounts, gossips blocks and transactions
  with its peers, and mines. This library models the program's own code, proves what makes each
  part correct, and composes the parts. Fallible operations return an error value, a nil dereference
  or an index out of range is the outcome \<open>Panic\<close>, a loop that may not end is a
  \<open>partial_function\<close> or carries fuel, machine integers keep their width.

  The data and the rules of consensus.
  \<^item> \<open>Prelude\<close>, \<open>Positional\<close>: outcomes (\<open>run\<close>), bytes, keyed association lists, numbers in a base.
  \<^item> \<open>Codec\<close>, \<open>Sha256\<close>, \<open>Hashes\<close>: \<open>chain/codec.go\<close>, SHA-256 and \<open>chain/hash.go\<close>. \<open>ShaEval\<close> evaluates SHA-256
    in the kernel; \<open>GenesisHash\<close> and \<open>FirstBlock\<close> use it on the genesis block and on a mined block.
  \<^item> \<open>Crypto\<close>: addresses, their checksum and signatures (\<open>crypto/crypto.go\<close>).
  \<^item> \<open>Amount\<close>, \<open>Params\<close>: amounts as text, rewards, targets and the retarget rule (\<open>chain/params.go\<close>).
  \<^item> \<open>Tx\<close>, \<open>Block\<close>: transactions and blocks, their encodings, their validation (\<open>chain/tx.go\<close>, \<open>chain/block.go\<close>).
  \<^item> \<open>Ledger\<close>, \<open>LedgerBlock\<close>, \<open>LedgerChain\<close>: \<open>state/state.go\<close>, refined to an abstract ledger of unbounded numbers;
    the supply; the replay of a chain.

  The node (\<open>node/node.go\<close>).
  \<^item> \<open>NodeState\<close>, \<open>Mempool\<close>, \<open>Tree\<close>, \<open>ChainSwitch\<close>, \<open>NodeApi\<close>, \<open>Sync\<close>: the record \<open>node\<close> holds the fields of \<open>Node\<close>, the
    record \<open>env\<close> what its configuration and the outside world give it (parameters, clock readings,
    which disk writes succeed, the wallet, the signature scheme). One definition per method.
  \<^item> \<open>TreeInv\<close>, \<open>TreeChange\<close>, \<open>PoolInv\<close>, \<open>NodeInv\<close>: the invariant of the tree, of the mempool and of the node.
  \<^item> \<open>SwitchInv\<close>, \<open>SwitchSafe\<close>, \<open>InsertSafe\<close>, \<open>MiningSafe\<close>, \<open>SyncSafe\<close>: every operation returns and keeps it.
  \<^item> \<open>NodeRun\<close>, \<open>NodeFacts\<close>: the requests a node serves, the nodes it can become, what holds of them. The
    locale \<open>kept\<close> of \<open>Served\<close> carries a relation that one insertion respects to every request.

  The miner (\<open>miner/\<close>).
  \<^item> \<open>Midstate\<close>: the Go midstate of \<open>sha256mid.go\<close> against SHA-256. \<open>Kernel\<close>: the OpenCL kernel of \<open>gpu_opencl.go\<close>
    against \<open>MeetsTarget\<close>, and a dispatch of its work items in any interleaving.
  \<^item> \<open>GpuHost\<close>: the host code over a driver that is a parameter (which calls succeed, which devices
    exist); the locale \<open>gpu_handle\<close> is what the miner asks of a GPU, interpreted on \<open>openclGPU.Search\<close>.
  \<^item> \<open>Miner\<close>, \<open>MinedBlock\<close>: the rounds of \<open>Miner.Run\<close>, and the way of a solution into the chain.

  The network (\<open>p2p/\<close>).
  \<^item> \<open>NetAddr\<close>: addresses. \<open>Switch\<close>: the operations of \<open>Switch\<close>. \<open>SwitchRun\<close>, \<open>SwitchLimit\<close>: its runs, in which
    connections open, read frames and end in any order; the invariant of the table of peers.

  JSON, the wire, the files and the commands.
  \<^item> \<open>JsonText\<close>, \<open>Json\<close>, \<open>JsonTypes\<close>: what the repository uses of \<open>encoding/json\<close>: strings with their escapes and
    UTF-8, the scanner and its nesting limit, values and their text, the decoding into integers,
    slices, pointers and structs by their tags. The locale \<open>json_codec\<close> is the contract of an encoder
    and its decoder, interpreted on every type the program writes.
  \<^item> \<open>Wire\<close>: \<open>wire/wire.go\<close>, the JSON forms of \<open>chain\<close>'s types, and the dispatch of an envelope in \<open>onMessage\<close>.
    \<open>WireFacts\<close>: the round trips. \<open>WireFits\<close>: the sizes of what a reachable node sends and stores.
  \<^item> \<open>Store\<close>: \<open>store/store.go\<close>, over the contents of the two files of the data directory.
  \<^item> \<open>Start\<close>: the part of \<open>New\<close> that opens the files and makes the switch. \<open>Restart\<close>: what a running node keeps of its
    file, and how a later start reads it.
  \<^item> \<open>Api\<close>: the handlers of \<open>api/api.go\<close>. \<open>Cli\<close>: the commands of \<open>cmd/blugold/main.go\<close> and the wallet file of
    \<open>crypto/crypto.go\<close>. \<open>RunNode\<close>: the options of \<open>serve\<close> and \<open>mine\<close>, and \<open>runNode\<close>, which puts the parts together.

  Where the properties are.
  \<^item> \<open>Spec2Isabelle\<close>: every request returns, the state is the replay of the chain, the supply.
  \<^item> \<open>NodeProps\<close>, \<open>NodeWork\<close>: double spends, the tree, height index, locators and answers; work and orphans.
  \<^item> \<open>ConsensusProps\<close>, \<open>Block\<close>, \<open>Amount\<close>, \<open>InsertSafe\<close>: the ledger against its specification, the retarget rule, signatures,
    rejection, encodings, amounts, the choice of the tip.
  \<^item> \<open>MinerProps\<close>: hashing, mining rounds, the way of a solution. \<open>SwitchRun\<close>, \<open>SwitchLimit\<close>: peers.
  \<^item> \<open>RestartProps\<close>: a life with restarts. \<open>WireProps\<close>, \<open>StoreProps\<close>, \<open>CliProps\<close>: streams of frames, files, commands.
  \<^item> \<open>Flaws\<close>: behaviours on concrete inputs that the rest of the code does not expect.
  \<^item> \<open>Examples\<close>, \<open>FirstBlock\<close>, \<open>OneBlock\<close>: the concrete nodes and blocks the witnesses use.

  Loops that need an argument. \<open>insertBlock\<close> calls itself for every orphan it promotes, and an orphan leaves the
  map before its turn, so one more than the number of orphans is enough fuel; \<open>reject\<close> removes an entry of
  the tree before it goes on to its children, so one more than the size of the tree is. The walks to the
  genesis block, \<open>path_loop\<close> and \<open>locator_loop\<close>, are \<open>partial_function\<close>s. On a node that satisfies the invariant all
  of them return: \<open>InsertSafe\<close>, \<open>TreeChange\<close>, \<open>TreeInv\<close> and \<open>SyncSafe\<close> prove it, and C1 rests on that.

  Not modelled, and why.
  \<^item> Goroutines, timers and sockets: the mutex of a node makes its requests a sequence, which \<open>NodeRun\<close>
    takes in any order; connections of a switch are interleaved in any order by \<open>SwitchRun\<close>.
  \<^item> \<open>crypto/ed25519\<close>: a record of functions, with the documented contract \<open>ed_contract\<close> where a signature matters: keys
    made from a seed sign what their public half verifies. Keys read from a wallet file are not assumed to be such.
  \<^item> Null pointers in messages, beyond the panics \<open>Flaws\<close> proves: the nodes of the theorems are reached by
    well-formed requests (\<open>request_ok\<close>), which carry no null block in a batch and no block with a null transaction.
  \<^item> The OpenCL driver: which calls succeed and which devices it reports are arguments.
  \<^item> Package \<open>flag\<close>, terminal output, the HTTP transport and routing, the wording of errors, log lines, the
    two functions that format a hash rate with floating point, the wall-clock benchmark of the CPU.
  \<^item> JSON objects that give one slice field three times or more: Go may reuse elements beyond the end of
    the shorter list in between, which the model starts from zero.
\<close>

section \<open>The life of a node\<close>

text \<open>C1: every well-formed request to a reachable node, from a peer, a miner, a wallet or a timer, returns (no nil
  dereference, no credit overflow, no endless walk of the tree), and leaves a node that is reachable
  again. Well formed (\<open>request_ok\<close>) excludes three things: a null block in a batch of blocks, a block with a null
  transaction, and a block that hashes to zero. The first two can make the code panic, as \<open>Flaws\<close> shows; a null
  block or transaction announced alone, and null transactions of a mempool, are skipped by the code and are
  covered.\<close>

theorem every_request_returns:
  assumes "env_ok E" and "reachable E n" and "request_ok r"
  shows "\<exists>n'. serve E r n = Ret n' \<and> reachable E n'"
proof -
  from serve_ok[OF assms(1) reachable_inv[OF assms(1,2)] assms(3)] obtain n' where "serve E r n = Ret n'" by blast
  moreover from this have "reachable E n'" using reachable.serve[OF assms(2,3)] by blast
  ultimately show ?thesis by blast
qed

theorem every_request_returns_witness:
  "\<exists>n'. serve demo_env (Submit demo_mined) mining_node = Ret n' \<and> reachable demo_env n' \<and> tip_work n' = 1"
  using every_request_returns[OF demo_env_ok mining_node_reachable submit_mined_ok]
  by (simp add: serve_mined tip_work_def mined_tip)

text \<open>C2: the state of a node is the replay of the blocks of its active chain from the empty
  state, whatever sequence of extensions, reorganisations, rejections and checkpoints led to it.\<close>

theorem state_replays_chain:
  assumes "env_ok E" and "reachable E n"
  shows "replay (en_ed E) (en_params E) (active_chain n) state_New = Ret (None, n_state n)"
  by (rule active_chain_replays[OF reachable_inv[OF assms]])

theorem state_replays_chain_witness:
  "replay demo_ed DefaultParams [Genesis DefaultParams, demo_mined] state_New = Ret (None, n_state mined_node)"
  using state_replays_chain[OF demo_env_ok mined_reachable] by (simp add: mined_chain)

text \<open>C3: coins come from block rewards alone. The balances of a node with a tip add up to the
  rewards of the heights from 1 to the tip's, and the supply \<open>Info\<close> reports is that sum, unwrapped.\<close>

theorem supply_is_rewards:
  assumes "env_ok E" and "reachable E n" and "n_tip n = Some t" and "Info E peers rate n = Ret i"
  shows "unat (i_Supply i) = (\<Sum>h \<in> {0<..unat (Height (e_block t))}. reward_nat (en_params E) h)
       \<and> (\<Sum>(a, acct) \<leftarrow> n_state n. unat (Balance acct)) = unat (i_Supply i)"
proof -
  note inv = reachable_inv[OF assms(1,2)] and ok = env_okD(1)[OF assms(1)]
  have "total_supply (n_state n) = (\<Sum>h \<in> {0<..unat (Height (e_block t))}. reward_nat (en_params E) h)"
    using active_chain_supply[OF ok inv] length_active_chain[OF inv assms(3)]
    by (simp add: atLeastSucLessThan_greaterThanLessThan[symmetric] atLeastSucAtMost_greaterThanAtMost[symmetric]
        atLeastLessThanSuc_atLeastAtMost)
  with Info_supply[OF ok inv assms(4)] show ?thesis by (simp add: total_supply_def)
qed

theorem supply_is_rewards_witness:
  "\<exists>i. Info demo_env 0 None mined_node = Ret i \<and> unat (i_Supply i) = 100000000"
proof -
  obtain i where i: "Info demo_env 0 None mined_node = Ret i"
    using Info_returns[of demo_env 0 None mined_node] default_params_ok by auto
  have "{0<..unat (1 :: u64)} = {1}" by auto
  with supply_is_rewards[OF demo_env_ok mined_reachable mined_tip i] show ?thesis
    by (auto simp: reward_nat_def DefaultParams_def intro!: exI[of _ i] i)
qed

text \<open>C9: on the main network no more than 20158.99879040 BLG are ever issued: every reachable
  node's balances stay below the schedule's sum over the heights from 1 on.\<close>

theorem main_network_cap:
  assumes "env_ok E" and "reachable E n" and "en_params E = DefaultParams"
  shows "total_supply (n_state n) + 100000000 \<le> 2015999879040"
proof (cases "n_tip n")
  case None
  with node_invD(4)[OF reachable_inv[OF assms(1,2)]] show ?thesis by (simp add: tip_ok_def)
next
  case (Some t)
  note inv = reachable_inv[OF assms(1,2)]
  define N where "N = length (active_chain n)"
  have "0 < N" using length_active_chain[OF inv Some] by (simp add: N_def)
  then have "{..<N} = insert 0 {0<..<N}" by auto
  then have "(\<Sum>h < N. reward_nat DefaultParams h) = reward_nat DefaultParams 0 + (\<Sum>h \<in> {0<..<N}. reward_nat DefaultParams h)"
    by simp
  then have "(\<Sum>h < N. reward_nat DefaultParams h) = 100000000 + total_supply (n_state n)"
    using active_chain_supply[OF env_okD(1)[OF assms(1)] inv] assms(3) by (simp add: N_def default_reward_nat)
  with default_reward_sum[of N] show ?thesis by simp
qed

theorem main_network_cap_witness:
  "total_supply (n_state mined_node) = 100000000 \<and> total_supply (n_state mined_node) + 100000000 \<le> 2015999879040"
  using main_network_cap[OF demo_env_ok mined_reachable] by (simp add: mined_supply)

end
